(* ===== verification/Prelude.thy ===== *)
theory Prelude
  imports Main "HOL-Library.Word" "HOL-Library.Char_ord" "HOL-Library.List_Lexorder"
    "HOL-Library.Multiset" "HOL-Library.Sublist"
begin

text \<open>
  What every component shares: bytes and byte strings, int64 arithmetic with its
  wrap-around, sorting with a caller's comparator, counter tables (Go maps from a label
  to an int64), and the collections of rewrite rules the component proofs use.
\<close>

section \<open>Collections and types\<close>

named_theorems spool_simps \<open>facts about the spool directory\<close>
named_theorems acct_simps \<open>facts that move events between the places that hold them\<close>
named_theorems utf8_simps \<open>facts about UTF-8 scanning\<close>
named_theorems json_simps \<open>facts about the JSON scanner and encoder\<close>

text \<open>
  A Go string or byte slice is a list of bytes, and \<open>char\<close> is a byte; \<open>len\<close> is
  \<open>length\<close>. \<open>int\<close> and \<open>int64\<close> are HOL integers, with \<open>i64\<close> applied where the code
  computes on values an operator configures and the result may leave 64 bits.
\<close>

type_synonym bytes = string

abbreviation byte_of :: "char \<Rightarrow> nat" where
  "byte_of c \<equiv> of_char c"

definition i64 :: "int \<Rightarrow> int" where
  "i64 x = signed_take_bit 63 x"

lemma i64_id [simp]: "- (2 ^ 63) \<le> x \<Longrightarrow> x < 2 ^ 63 \<Longrightarrow> i64 x = x"
  by (simp add: i64_def signed_take_bit_int_eq_self)

lemma i64_range: "- (2 ^ 63) \<le> i64 x \<and> i64 x < 2 ^ 63"
  using signed_take_bit_int_greater_eq_minus_exp [of 63 x] signed_take_bit_int_less_exp [of 63 x]
  by (simp add: i64_def)

lemma byte_of_less [simp]: "byte_of c < 256"
proof -
  have "of_char c \<in> range (of_char :: char \<Rightarrow> nat)" by simp
  then show ?thesis by (simp only: range_nat_of_char) simp
qed

lemma byte_of_eq_iff [simp]: "byte_of c = byte_of d \<longleftrightarrow> c = d"
  by (rule of_char_eq_iff)

section \<open>Options and lists\<close>

lemma takeWhile_dropWhile_length: "length (dropWhile P xs) \<le> length xs"
  by (rule length_dropWhile_le)

lemma sum_list_map_filter_split:
  "sum_list (map f xs) = sum_list (map f (filter P xs)) + sum_list (map f (filter (\<lambda>x. \<not> P x) xs))"
  for f :: "'a \<Rightarrow> 'b::comm_monoid_add"
  by (induction xs) (auto simp: ac_simps)

lemma foldl_add_eq_sum_list: "foldl (\<lambda>a x. a + f x) z xs = z + sum_list (map f xs)"
  for z :: "'b::comm_monoid_add"
  by (induction xs arbitrary: z) (auto simp: ac_simps)

section \<open>Sorting with a comparator\<close>

text \<open>
  \<open>sort.Slice\<close> and \<open>sort.Strings\<close> return some ordering of the slice that the comparator
  accepts. The model sorts by insertion; for a comparator that totally orders the distinct
  elements there is only one such ordering (\<open>isort_unique\<close>), so the algorithm does not
  matter.
\<close>

fun insert_by :: "('a \<Rightarrow> 'a \<Rightarrow> bool) \<Rightarrow> 'a \<Rightarrow> 'a list \<Rightarrow> 'a list" where
  "insert_by lt x [] = [x]"
| "insert_by lt x (y # ys) = (if lt y x then y # insert_by lt x ys else x # y # ys)"

fun isort :: "('a \<Rightarrow> 'a \<Rightarrow> bool) \<Rightarrow> 'a list \<Rightarrow> 'a list" where
  "isort lt [] = []"
| "isort lt (x # xs) = insert_by lt x (isort lt xs)"

lemma mset_insert_by [simp]: "mset (insert_by lt x xs) = add_mset x (mset xs)"
  by (induction xs) auto

lemma mset_isort [simp]: "mset (isort lt xs) = mset xs"
  by (induction xs) auto

lemma set_insert_by [simp]: "set (insert_by lt x xs) = insert x (set xs)"
  by (metis mset_insert_by set_mset_add_mset_insert set_mset_mset)

lemma set_isort [simp]: "set (isort lt xs) = set xs"
  by (metis mset_isort set_mset_mset)

lemma length_isort [simp]: "length (isort lt xs) = length xs"
  by (metis mset_isort size_mset)

lemma distinct_isort [simp]: "distinct (isort lt xs) = distinct xs"
  by (metis mset_isort mset_eq_imp_distinct_iff)

locale comparator =
  fixes lt :: "'a \<Rightarrow> 'a \<Rightarrow> bool"
  assumes irrefl: "\<not> lt x x"
    and trans: "lt x y \<Longrightarrow> lt y z \<Longrightarrow> lt x z"
    and total: "x \<noteq> y \<Longrightarrow> lt x y \<or> lt y x"
begin

lemma asym: "lt x y \<Longrightarrow> \<not> lt y x"
  using irrefl trans by blast

lemma sorted_insert_by:
  "sorted_wrt lt xs \<Longrightarrow> x \<notin> set xs \<Longrightarrow> sorted_wrt lt (insert_by lt x xs)"
proof (induction xs)
  case Nil
  then show ?case by simp
next
  case (Cons y ys)
  show ?case
  proof (cases "lt y x")
    case True
    with Cons show ?thesis by auto
  next
    case False
    with Cons.prems total have "lt x y" by auto
    with False Cons.prems show ?thesis by (auto intro: trans)
  qed
qed

lemma sorted_isort: "distinct xs \<Longrightarrow> sorted_wrt lt (isort lt xs)"
  by (induction xs) (auto intro: sorted_insert_by)

lemma sorted_wrt_unique:
  "sorted_wrt lt xs \<Longrightarrow> sorted_wrt lt ys \<Longrightarrow> mset xs = mset ys \<Longrightarrow> xs = ys"
proof (induction xs arbitrary: ys)
  case Nil
  then show ?case by simp
next
  case (Cons x xs)
  then obtain y ys' where ys: "ys = y # ys'" by (cases ys) auto
  have xy: "x = y"
  proof (rule ccontr)
    assume "x \<noteq> y"
    moreover have "x \<in> set ys" and "y \<in> set (x # xs)"
      using Cons.prems(3) ys by (metis list.set_intros(1) set_mset_mset)+
    ultimately have "lt y x" and "lt x y"
      using Cons.prems(1,2) ys by auto
    then show False using asym by blast
  qed
  with Cons ys show ?case by auto
qed

lemma isort_unique:
  "distinct xs \<Longrightarrow> mset ys = mset xs \<Longrightarrow> sorted_wrt lt ys \<Longrightarrow> isort lt xs = ys"
  by (rule sorted_wrt_unique) (auto intro: sorted_isort)

end

definition string_lt :: "string \<Rightarrow> string \<Rightarrow> bool" where
  "string_lt a b \<longleftrightarrow> a < b"

definition sort_strings :: "string list \<Rightarrow> string list" where
  "sort_strings = isort string_lt"

interpretation strings_order: comparator string_lt
  by unfold_locales (auto simp: string_lt_def)

lemma sort_strings_set [simp]: "set (sort_strings xs) = set xs"
  by (simp add: sort_strings_def)

lemma sort_strings_distinct [simp]: "distinct (sort_strings xs) = distinct xs"
  by (simp add: sort_strings_def)

lemma sort_strings_sorted: "distinct xs \<Longrightarrow> sorted_wrt (<) (sort_strings xs)"
  using strings_order.sorted_isort [of xs] by (simp add: sort_strings_def string_lt_def [abs_def])

section \<open>Counter tables\<close>

text \<open>
  A Go \<open>map[string]int64\<close> of counters is an association list without duplicate keys: a
  missing key reads as 0, and \<open>m[k]++\<close> is \<open>bump\<close>.
\<close>

type_synonym table = "(string \<times> int) list"

definition reading :: "table \<Rightarrow> string \<Rightarrow> int" where
  "reading t k = (case map_of t k of None \<Rightarrow> 0 | Some v \<Rightarrow> v)"

fun bump :: "string \<Rightarrow> table \<Rightarrow> table" where
  "bump k [] = [(k, 1)]"
| "bump k ((l, v) # t) = (if l = k then (l, v + 1) # t else (l, v) # bump k t)"

definition table_total :: "table \<Rightarrow> int" where
  "table_total t = sum_list (map snd t)"

definition table_ok :: "table \<Rightarrow> bool" where
  "table_ok t \<longleftrightarrow> distinct (map fst t) \<and> list_all (\<lambda>e. 0 < snd e) t"

lemma reading_Nil [simp]: "reading [] k = 0"
  by (simp add: reading_def)

lemma reading_bump [simp]: "reading (bump k t) l = reading t l + (if l = k then 1 else 0)"
proof (induction t)
  case Nil
  then show ?case by (simp add: reading_def)
next
  case (Cons a t)
  then show ?case by (cases a) (auto simp: reading_def)
qed

lemma keys_bump [simp]: "fst ` set (bump k t) = insert k (fst ` set t)"
proof (induction t)
  case (Cons a t)
  then show ?case by (cases a) (simp add: insert_commute)
qed simp

lemma distinct_bump [simp]: "distinct (map fst t) \<Longrightarrow> distinct (map fst (bump k t))"
proof (induction t)
  case (Cons a t)
  then show ?case by (cases a) auto
qed simp

lemma table_total_Nil [simp]: "table_total [] = 0"
  by (simp add: table_total_def)

lemma table_total_bump [simp]: "table_total (bump k t) = table_total t + 1"
  by (induction t) (auto simp: table_total_def)

lemma bump_positive: "list_all (\<lambda>e. 0 < snd e) t \<Longrightarrow> list_all (\<lambda>e. 0 < snd e) (bump l t)"
proof (induction t)
  case (Cons a t)
  then show ?case by (cases a) simp
qed simp

lemma table_ok_Nil [simp]: "table_ok []"
  by (simp add: table_ok_def)

lemma table_ok_bump [simp]: "table_ok t \<Longrightarrow> table_ok (bump k t)"
  by (simp add: table_ok_def bump_positive)

lemma reading_nonneg: "table_ok t \<Longrightarrow> 0 \<le> reading t k"
  by (force simp: table_ok_def reading_def list_all_iff split: option.splits dest!: map_of_SomeD)

section \<open>Systems with an invariant\<close>

text \<open>A step relation and what each step keeps; a reachable state then has it.\<close>

locale invariant_system =
  fixes step :: "'s \<Rightarrow> 's \<Rightarrow> bool" and inv :: "'s \<Rightarrow> bool"
  assumes keeps: "step s s' \<Longrightarrow> inv s \<Longrightarrow> inv s'"
begin

lemma reach_inv: "step\<^sup>*\<^sup>* s s' \<Longrightarrow> inv s \<Longrightarrow> inv s'"
  by (induction rule: rtranclp_induct) (auto intro: keeps)

end

end
