(* ===== verification/Utf8.thy ===== *)
theory Utf8
  imports Prelude
begin

text \<open>
  What the gateway uses of \<open>unicode/utf8\<close> and of \<open>ToValidUTF8\<close>: a byte string is read
  as a sequence of well-formed UTF-8 sequences and of stray bytes, exactly as
  \<open>utf8.DecodeRune\<close> reads it (a byte that starts no well-formed sequence is
  \<open>RuneError\<close> with width 1).
\<close>

section \<open>Reading one rune\<close>

definition in_range :: "char \<Rightarrow> nat \<Rightarrow> nat \<Rightarrow> bool" where
  "in_range c lo hi \<longleftrightarrow> lo \<le> byte_of c \<and> byte_of c \<le> hi"

abbreviation cont_byte :: "char \<Rightarrow> bool" where
  "cont_byte c \<equiv> in_range c 0x80 0xBF"

text \<open>
  \<open>rune_len s\<close> is the width of the well-formed sequence at the head of \<open>s\<close>, and 0 when
  there is none. The ranges are those of \<open>utf8.first\<close> and \<open>utf8.acceptRanges\<close>: no
  overlong forms, no surrogates, nothing above U+10FFFF.
\<close>

fun rune_len2 :: "string \<Rightarrow> nat" where
  "rune_len2 (c1 # _) = (if cont_byte c1 then 2 else 0)"
| "rune_len2 [] = 0"

fun rune_len3 :: "nat \<Rightarrow> string \<Rightarrow> nat" where
  "rune_len3 x (c1 # c2 # _) =
     (if in_range c1 (if x = 0xE0 then 0xA0 else 0x80) (if x = 0xED then 0x9F else 0xBF)
         \<and> cont_byte c2 then 3 else 0)"
| "rune_len3 x _ = 0"

fun rune_len4 :: "nat \<Rightarrow> string \<Rightarrow> nat" where
  "rune_len4 x (c1 # c2 # c3 # _) =
     (if in_range c1 (if x = 0xF0 then 0x90 else 0x80) (if x = 0xF4 then 0x8F else 0xBF)
         \<and> cont_byte c2 \<and> cont_byte c3 then 4 else 0)"
| "rune_len4 x _ = 0"

fun rune_len :: "string \<Rightarrow> nat" where
  "rune_len [] = 0"
| "rune_len (b # bs) =
     (let x = byte_of b in
      if x < 0x80 then 1
      else if x < 0xC2 then 0
      else if x \<le> 0xDF then rune_len2 bs
      else if x \<le> 0xEF then rune_len3 x bs
      else if x \<le> 0xF4 then rune_len4 x bs
      else 0)"

text \<open>The three continuation checks share their shape: they look at a fixed prefix.\<close>

lemma rune_len2_facts:
  "rune_len2 bs \<le> Suc (length bs)" "rune_len2 bs \<le> 4"
  "rune_len2 bs \<noteq> 0 \<Longrightarrow> rune_len2 (bs @ t) = rune_len2 bs"
  "rune_len2 (take (rune_len2 bs - Suc 0) bs) = rune_len2 bs"
  "Suc 0 < rune_len2 bs \<Longrightarrow> c \<in> set (take (rune_len2 bs - Suc 0) bs) \<Longrightarrow> 0x80 \<le> byte_of c"
  by (cases bs rule: rune_len2.cases; force simp: in_range_def split: if_splits)+

lemma rune_len3_facts:
  "rune_len3 x bs \<le> Suc (length bs)" "rune_len3 x bs \<le> 4"
  "rune_len3 x bs \<noteq> 0 \<Longrightarrow> rune_len3 x (bs @ t) = rune_len3 x bs"
  "rune_len3 x (take (rune_len3 x bs - Suc 0) bs) = rune_len3 x bs"
  "Suc 0 < rune_len3 x bs \<Longrightarrow> c \<in> set (take (rune_len3 x bs - Suc 0) bs) \<Longrightarrow> 0x80 \<le> byte_of c"
  by (cases "(x, bs)" rule: rune_len3.cases;
      force simp: in_range_def numeral_eq_Suc split: if_splits)+

lemma rune_len4_facts:
  "rune_len4 x bs \<le> Suc (length bs)" "rune_len4 x bs \<le> 4"
  "rune_len4 x bs \<noteq> 0 \<Longrightarrow> rune_len4 x (bs @ t) = rune_len4 x bs"
  "rune_len4 x (take (rune_len4 x bs - Suc 0) bs) = rune_len4 x bs"
  "Suc 0 < rune_len4 x bs \<Longrightarrow> c \<in> set (take (rune_len4 x bs - Suc 0) bs) \<Longrightarrow> 0x80 \<le> byte_of c"
  by (cases "(x, bs)" rule: rune_len4.cases;
      force simp: in_range_def numeral_eq_Suc split: if_splits)+

lemmas rune_len_facts = rune_len2_facts rune_len3_facts rune_len4_facts

lemma rune_len_le: "rune_len s \<le> length s"
  by (cases s) (simp_all add: rune_len_facts Let_def)

lemma rune_len_le4: "rune_len s \<le> 4"
  by (cases s) (simp_all add: rune_len_facts Let_def)

lemma rune_len_append: "rune_len s \<noteq> 0 \<Longrightarrow> rune_len (s @ t) = rune_len s"
  by (cases s) (auto simp add: rune_len_facts Let_def)

lemma rune_len_take: "rune_len (take (rune_len s) s) = rune_len s"
  by (cases s) (simp_all add: rune_len_facts Let_def take_Cons')

lemma rune_len_ascii: "byte_of b < 0x80 \<Longrightarrow> rune_len (b # bs) = 1"
  by simp

text \<open>Every byte of a stray position or of a multi-byte sequence is at least 0x80.\<close>

lemma rune_len_stray: "rune_len (b # bs) = 0 \<Longrightarrow> 0x80 \<le> byte_of b"
  by (auto simp: Let_def split: if_splits)

lemma rune_len_multi:
  "rune_len s = n \<Longrightarrow> 1 < n \<Longrightarrow> c \<in> set (take n s) \<Longrightarrow> 0x80 \<le> byte_of c"
  by (cases s) (auto simp: rune_len_facts Let_def take_Cons' split: if_splits)

section \<open>Scanning a string\<close>

datatype utok = Rune string | Stray char

function scan_utf8 :: "string \<Rightarrow> utok list" where
  "scan_utf8 [] = []"
| "scan_utf8 (b # bs) =
     (let n = rune_len (b # bs) in
      if n = 0 then Stray b # scan_utf8 bs
      else Rune (take n (b # bs)) # scan_utf8 (drop (n - 1) bs))"
  by pat_completeness auto
termination
  by (relation "measure length") auto

fun is_rune :: "utok \<Rightarrow> bool" where
  "is_rune (Rune r) = True"
| "is_rune (Stray b) = False"

definition utf8_valid :: "string \<Rightarrow> bool" where
  "utf8_valid s \<longleftrightarrow> list_all is_rune (scan_utf8 s)"

fun tok_bytes :: "utok \<Rightarrow> string" where
  "tok_bytes (Rune r) = r"
| "tok_bytes (Stray b) = [b]"

text \<open>A token is well formed when it is a whole rune, or a byte of 0x80 and above.\<close>

fun tok_ok :: "utok \<Rightarrow> bool" where
  "tok_ok (Rune r) \<longleftrightarrow> r \<noteq> [] \<and> rune_len r = length r"
| "tok_ok (Stray b) \<longleftrightarrow> 0x80 \<le> byte_of b"

lemma scan_utf8_bytes: "concat (map tok_bytes (scan_utf8 s)) = s"
proof (induction s rule: scan_utf8.induct)
  case 1
  then show ?case by simp
next
  case (2 b bs)
  let ?n = "rune_len (b # bs)"
  show ?case
  proof (cases "?n = 0")
    case True
    with 2(1) show ?thesis by (simp del: rune_len.simps)
  next
    case False
    then obtain m where m: "?n = Suc m" using not0_implies_Suc by blast
    have "concat (map tok_bytes (scan_utf8 (drop m bs))) = drop m bs"
      using 2(2) [OF refl False] m by simp
    with m show ?thesis by (simp del: rune_len.simps)
  qed
qed

lemma scan_utf8_ok: "list_all tok_ok (scan_utf8 s)"
proof (induction s rule: scan_utf8.induct)
  case 1
  then show ?case by simp
next
  case (2 b bs)
  let ?n = "rune_len (b # bs)"
  show ?case
  proof (cases "?n = 0")
    case True
    with 2(1) show ?thesis using rune_len_stray [OF True] by (simp del: rune_len.simps)
  next
    case False
    have "list_all tok_ok (scan_utf8 (drop (?n - 1) bs))"
      using 2(2) [OF refl False] .
    moreover have "tok_ok (Rune (take ?n (b # bs)))"
      using False rune_len_take [of "b # bs"] rune_len_le [of "b # bs"]
      by (simp del: rune_len.simps add: min_def)
    ultimately show ?thesis using False by (simp del: rune_len.simps tok_ok.simps add: Let_def)
  qed
qed

lemma scan_utf8_rune:
  assumes "r \<noteq> []" and "rune_len r = length r"
  shows "scan_utf8 (r @ s) = Rune r # scan_utf8 s"
proof -
  obtain b bs where r: "r = b # bs" using assms(1) by (cases r) auto
  have "rune_len (r @ s) = length r"
    using assms by (subst rune_len_append) auto
  with r show ?thesis by (simp del: rune_len.simps add: Let_def)
qed

lemma scan_utf8_runes:
  "list_all (\<lambda>r. r \<noteq> [] \<and> rune_len r = length r) rs \<Longrightarrow>
   scan_utf8 (concat rs @ s) = map Rune rs @ scan_utf8 s"
  by (induction rs) (auto simp: scan_utf8_rune)

lemma utf8_valid_Nil [simp, utf8_simps]: "utf8_valid []"
  by (simp add: utf8_valid_def)

lemma utf8_valid_runes:
  "list_all (\<lambda>r. r \<noteq> [] \<and> rune_len r = length r) rs \<Longrightarrow> utf8_valid (concat rs)"
  using scan_utf8_runes [of rs "[]"] by (simp add: utf8_valid_def list_all_length)

text \<open>A valid string is a concatenation of runes.\<close>

lemma utf8_valid_split:
  assumes "utf8_valid s"
  obtains rs where "s = concat rs" "list_all (\<lambda>r. r \<noteq> [] \<and> rune_len r = length r) rs"
proof
  let ?rs = "map tok_bytes (scan_utf8 s)"
  show "s = concat ?rs" by (simp add: scan_utf8_bytes)
  show "list_all (\<lambda>r. r \<noteq> [] \<and> rune_len r = length r) ?rs"
  proof (clarsimp simp: list_all_iff)
    fix t
    assume "t \<in> set (scan_utf8 s)"
    then have "is_rune t" "tok_ok t"
      using assms scan_utf8_ok [of s] by (auto simp: utf8_valid_def list_all_iff)
    then show "tok_bytes t \<noteq> [] \<and> rune_len (tok_bytes t) = length (tok_bytes t)"
      by (cases t) auto
  qed
qed

lemma utf8_valid_append: "utf8_valid s \<Longrightarrow> utf8_valid t \<Longrightarrow> utf8_valid (s @ t)"
proof -
  assume "utf8_valid s" "utf8_valid t"
  then obtain rs us where "s = concat rs" "t = concat us"
    and "list_all (\<lambda>r. r \<noteq> [] \<and> rune_len r = length r) (rs @ us)"
    by (auto elim!: utf8_valid_split)
  then show ?thesis using utf8_valid_runes [of "rs @ us"] by simp
qed

lemma utf8_valid_ascii: "list_all (\<lambda>c. byte_of c < 0x80) s \<Longrightarrow> utf8_valid s"
  by (induction s) (auto simp: utf8_valid_def)

section \<open>ToValidUTF8\<close>

text \<open>
  \<open>strings.ToValidUTF8\<close> and \<open>bytes.ToValidUTF8\<close> copy the runes and put one replacement
  for each maximal run of stray bytes; \<open>bad\<close> is their flag "the previous byte was stray".
\<close>

fun repair :: "string \<Rightarrow> bool \<Rightarrow> utok list \<Rightarrow> string" where
  "repair rep bad [] = []"
| "repair rep bad (Rune r # ts) = r @ repair rep False ts"
| "repair rep bad (Stray b # ts) = (if bad then [] else rep) @ repair rep True ts"

definition to_valid_utf8 :: "string \<Rightarrow> string \<Rightarrow> string" where
  "to_valid_utf8 rep s = repair rep False (scan_utf8 s)"

text \<open>U+FFFD, the replacement character.\<close>

definition replacement_char :: string where
  "replacement_char = [CHR 0xEF, CHR 0xBF, CHR 0xBD]"

lemma replacement_char_valid [simp]: "utf8_valid replacement_char"
  by (simp add: replacement_char_def utf8_valid_def Let_def in_range_def)

lemma replacement_char_length [simp]: "length replacement_char = 3"
  by (simp add: replacement_char_def)

lemma repair_valid:
  "list_all tok_ok ts \<Longrightarrow> utf8_valid rep \<Longrightarrow> utf8_valid (repair rep bad ts)"
proof (induction rep bad ts rule: repair.induct)
  case (2 rep bad r ts)
  then have "utf8_valid r" using utf8_valid_runes [of "[r]"] by simp
  with 2 show ?case by (auto intro: utf8_valid_append)
qed (auto intro: utf8_valid_append)

lemma to_valid_utf8_valid [utf8_simps]: "utf8_valid rep \<Longrightarrow> utf8_valid (to_valid_utf8 rep s)"
  unfolding to_valid_utf8_def by (rule repair_valid) (auto simp: scan_utf8_ok)

lemma repair_id: "list_all is_rune ts \<Longrightarrow> repair rep bad ts = concat (map tok_bytes ts)"
  by (induction rep bad ts rule: repair.induct) auto

lemma to_valid_utf8_id [utf8_simps]: "utf8_valid s \<Longrightarrow> to_valid_utf8 rep s = s"
  by (simp add: to_valid_utf8_def utf8_valid_def repair_id scan_utf8_bytes)

lemma repair_empty_length: "length (repair [] bad ts) \<le> length (concat (map tok_bytes ts))"
  by (induction "[] :: string" bad ts rule: repair.induct) auto

lemma to_valid_utf8_empty_length: "length (to_valid_utf8 [] s) \<le> length s"
  using repair_empty_length [of False "scan_utf8 s"]
  by (simp add: to_valid_utf8_def scan_utf8_bytes)

text \<open>
  A run of stray bytes is followed by a rune or by the end, so with a three-byte
  replacement the result has at most \<open>2 * n + 1\<close> bytes.
\<close>

lemma repair_length3:
  "length rep = 3 \<Longrightarrow> list_all tok_ok ts \<Longrightarrow>
   length (repair rep bad ts) \<le>
     2 * length (concat (map tok_bytes ts)) + (if bad then 0 else 1)"
proof (induction rep bad ts rule: repair.induct)
  case (2 rep bad r ts)
  then have "length (repair rep False ts) \<le> 2 * length (concat (map tok_bytes ts)) + 1"
    by simp
  moreover from 2 have "0 < length r" by simp
  ultimately show ?case by (simp del: length_greater_0_conv)
next
  case (3 rep bad b ts)
  then have "length (repair rep True ts) \<le> 2 * length (concat (map tok_bytes ts))"
    by simp
  with 3(2) show ?case by simp
qed simp

lemma to_valid_utf8_length3: "length rep = 3 \<Longrightarrow> length (to_valid_utf8 rep s) \<le> 2 * length s + 1"
  using repair_length3 [of rep "scan_utf8 s" False]
  by (simp add: to_valid_utf8_def scan_utf8_bytes scan_utf8_ok)

section \<open>Cutting a valid string\<close>

text \<open>The bytes after the first of a rune are continuation bytes, which start no rune, so
  an incomplete rune at the end of a cut string is all stray.\<close>

lemma rune_tail2: "rune_len2 bs = Suc (length bs) \<Longrightarrow> list_all cont_byte bs"
  by (cases bs rule: rune_len2.cases) (auto split: if_splits)

lemma rune_tail3: "rune_len3 x bs = Suc (length bs) \<Longrightarrow> list_all cont_byte bs"
  by (cases "(x, bs)" rule: rune_len3.cases) (auto simp: in_range_def split: if_splits)

lemma rune_tail4: "rune_len4 x bs = Suc (length bs) \<Longrightarrow> list_all cont_byte bs"
  by (cases "(x, bs)" rule: rune_len4.cases) (auto simp: in_range_def split: if_splits)

lemma rune_tail: "rune_len (b # bs) = Suc (length bs) \<Longrightarrow> list_all cont_byte bs"
  by (auto simp: Let_def rune_tail2 rune_tail3 rune_tail4 split: if_splits)

lemma scan_cont_bytes: "list_all cont_byte bs \<Longrightarrow> scan_utf8 bs = map Stray bs"
proof (induction bs)
  case (Cons b bs)
  then have "rune_len (b # bs) = 0" by (auto simp: in_range_def Let_def)
  then show ?case using Cons by (simp add: Let_def del: rune_len.simps)
qed simp

lemma scan_cut_rune:
  assumes "rune_len r = length r" "k < length r"
  shows "scan_utf8 (take k r) = map Stray (take k r)"
proof (cases "take k r")
  case Nil
  then show ?thesis by (simp only: Nil) simp
next
  case (Cons b bs)
  have "rune_len (take k r) = 0"
  proof (rule ccontr)
    assume n: "rune_len (take k r) \<noteq> 0"
    then have "rune_len (take k r @ drop k r) = rune_len (take k r)" by (rule rune_len_append)
    then show False using rune_len_le [of "take k r"] assms by simp
  qed
  moreover have "list_all cont_byte bs"
  proof -
    obtain c cs where r: "r = c # cs" using Cons by (cases r) auto
    then have "list_all cont_byte cs" using rune_tail [of c cs] assms(1) by simp
    moreover have "bs = take (k - 1) cs" using Cons r by (cases k) auto
    ultimately show ?thesis by (auto simp: list_all_iff dest: in_set_takeD)
  qed
  ultimately show ?thesis
    using Cons by (simp add: scan_cont_bytes Let_def del: rune_len.simps)
qed

lemma repair_strays [simp]: "repair [] bad (map Stray bs) = []"
  by (induction bs arbitrary: bad) auto

text \<open>Cutting a valid string after \<open>k\<close> bytes and dropping what is not UTF-8 keeps the whole
  runes: a prefix of the string, at most three bytes shorter than the cut.\<close>

lemma to_valid_utf8_cut:
  assumes "utf8_valid s"
  shows "prefix (to_valid_utf8 [] (take k s)) s \<and>
    min k (length s) \<le> length (to_valid_utf8 [] (take k s)) + 3"
proof -
  obtain rs where rs: "s = concat rs" "list_all (\<lambda>r. r \<noteq> [] \<and> rune_len r = length r) rs"
    using assms by (rule utf8_valid_split)
  have "prefix (repair [] False (scan_utf8 (take k (concat rs)))) (concat rs) \<and>
      min k (length (concat rs)) \<le> length (repair [] False (scan_utf8 (take k (concat rs)))) + 3"
    using rs(2)
  proof (induction rs arbitrary: k)
    case (Cons r rs)
    show ?case
    proof (cases "k < length r")
      case True
      then have "scan_utf8 (take k (concat (r # rs))) = map Stray (take k r)"
        using Cons.prems scan_cut_rune [of r k] by simp
      moreover have "length r \<le> 4" using Cons.prems rune_len_le4 [of r] by simp
      ultimately show ?thesis using True by simp
    next
      case False
      then have "scan_utf8 (take k (concat (r # rs))) = Rune r # scan_utf8 (take (k - length r) (concat rs))"
        using Cons.prems by (simp add: scan_utf8_rune)
      then show ?thesis using Cons.IH [of "k - length r"] Cons.prems False by auto
    qed
  qed simp
  then show ?thesis by (simp add: to_valid_utf8_def rs(1))
qed

end
