(* ===== verification/GoStrings.thy ===== *)
theory GoStrings
  imports Utf8
begin

text \<open>
  What the program uses of \<open>strings\<close>, \<open>bytes\<close>, \<open>strconv\<close> and \<open>fmt\<close>: trimming,
  cutting, splitting, case folding, decimal formatting and parsing.
\<close>

section \<open>Trimming\<close>

text \<open>\<open>TrimLeft\<close> and \<open>TrimRight\<close> with an ASCII cutset.\<close>

definition trim_left :: "string \<Rightarrow> string \<Rightarrow> string" where
  "trim_left cutset s = dropWhile (\<lambda>c. c \<in> set cutset) s"

definition trim_right :: "string \<Rightarrow> string \<Rightarrow> string" where
  "trim_right cutset s = rev (dropWhile (\<lambda>c. c \<in> set cutset) (rev s))"

text \<open>
  The UTF-8 encodings of the code points for which \<open>unicode.IsSpace\<close> holds. A string
  starts (ends) with such a code point exactly when one of these is its prefix (suffix),
  so \<open>TrimSpace\<close> strips them from both ends.
\<close>

definition space_seqs :: "string list" where
  "space_seqs =
     [[CHR 0x20], [CHR 0x09], [CHR 0x0A], [CHR 0x0B], [CHR 0x0C], [CHR 0x0D],
      [CHR 0xC2, CHR 0x85], [CHR 0xC2, CHR 0xA0], [CHR 0xE1, CHR 0x9A, CHR 0x80]]
     @ map (\<lambda>n. [CHR 0xE2, CHR 0x80, char_of n])
         [0x80 :: nat, 0x81, 0x82, 0x83, 0x84, 0x85, 0x86, 0x87, 0x88, 0x89, 0x8A, 0xA8, 0xA9, 0xAF]
     @ [[CHR 0xE2, CHR 0x81, CHR 0x9F], [CHR 0xE3, CHR 0x80, CHR 0x80]]"

fun strip_one :: "string list \<Rightarrow> string \<Rightarrow> string option" where
  "strip_one [] s = None"
| "strip_one (p # ps) s =
     (if p \<noteq> [] \<and> prefix p s then Some (drop (length p) s) else strip_one ps s)"

lemma strip_one_length: "strip_one ps s = Some t \<Longrightarrow> length t < length s"
  by (induction ps) (auto split: if_splits simp: prefix_def)

lemma strip_one_suffix: "strip_one ps s = Some t \<Longrightarrow> suffix t s"
  by (induction ps) (auto split: if_splits simp: suffix_drop)

function strip :: "string list \<Rightarrow> string \<Rightarrow> string" where
  "strip ps s = (case strip_one ps s of None \<Rightarrow> s | Some t \<Rightarrow> strip ps t)"
  by pat_completeness auto
termination
  by (relation "measure (\<lambda>(ps, s). length s)") (auto simp: strip_one_length)

declare strip.simps [simp del]

definition trim_space :: "string \<Rightarrow> string" where
  "trim_space s = rev (strip (map rev space_seqs) (rev (strip space_seqs s)))"

lemma strip_suffix: "suffix (strip ps s) s"
proof (induction ps s rule: strip.induct)
  case (1 ps s)
  then show ?case
    by (subst strip.simps)
      (auto split: option.splits dest: strip_one_suffix intro: suffix_order.trans)
qed

lemma strip_done: "strip_one ps (strip ps s) = None"
proof (induction ps s rule: strip.induct)
  case (1 ps s)
  then show ?case
    by (cases "strip_one ps s") (simp_all add: strip.simps [of ps s])
qed

lemma trim_space_sublist: "\<exists>l r. s = l @ trim_space s @ r"
proof -
  have "suffix (strip space_seqs s) s"
    and "suffix (strip (map rev space_seqs) (rev (strip space_seqs s))) (rev (strip space_seqs s))"
    by (rule strip_suffix)+
  then obtain l r where l: "s = l @ strip space_seqs s"
    and "rev (strip space_seqs s) = r @ strip (map rev space_seqs) (rev (strip space_seqs s))"
    by (auto simp: suffix_def)
  then have "strip space_seqs s = trim_space s @ rev r"
    unfolding trim_space_def by (metis rev_append rev_rev_ident)
  with l show ?thesis by metis
qed

lemma trim_space_length: "length (trim_space s) \<le> length s"
  using trim_space_sublist [of s] by (metis le_add1 le_add2 le_trans length_append)

lemma trim_space_set: "set (trim_space s) \<subseteq> set s"
  using trim_space_sublist [of s] by (metis Un_iff set_append subsetI)

text \<open>A character that no blank begins or ends with.\<close>

definition solid :: "char \<Rightarrow> bool" where
  "solid c \<longleftrightarrow> 0x20 < byte_of c \<and> byte_of c < 0x80"

lemma strip_one_solid: "list_all (\<lambda>p. p \<noteq> [] \<and> \<not> solid (hd p)) ps \<Longrightarrow> solid c \<Longrightarrow> strip_one ps (c # cs) = None"
proof (induction ps)
  case (Cons p ps)
  then show ?case by (cases p) auto
qed simp

lemma strip_solid: "list_all (\<lambda>p. p \<noteq> [] \<and> \<not> solid (hd p)) ps \<Longrightarrow> solid c \<Longrightarrow> strip ps (c # cs) = c # cs"
  by (simp add: strip.simps strip_one_solid)

lemma trim_space_solid: "solid c \<Longrightarrow> solid d \<Longrightarrow> trim_space (c # cs @ [d]) = c # cs @ [d]"
proof -
  assume c: "solid c" "solid d"
  have seqs: "list_all (\<lambda>p. p \<noteq> [] \<and> \<not> solid (hd p)) space_seqs"
    "list_all (\<lambda>p. p \<noteq> [] \<and> \<not> solid (hd p)) (map rev space_seqs)"
    by (simp_all add: space_seqs_def solid_def)
  show ?thesis using strip_solid [OF seqs(1) c(1)] strip_solid [OF seqs(2) c(2)] by (simp add: trim_space_def)
qed

section \<open>Cutting and splitting\<close>

text \<open>\<open>strings.Cut\<close> at the first occurrence of a one-byte separator.\<close>

fun cut :: "char \<Rightarrow> string \<Rightarrow> (string \<times> string) option" where
  "cut sep [] = None"
| "cut sep (c # cs) =
     (if c = sep then Some ([], cs)
      else map_option (\<lambda>(a, b). (c # a, b)) (cut sep cs))"

lemma cut_Some: "cut sep s = Some (a, b) \<Longrightarrow> s = a @ sep # b \<and> sep \<notin> set a"
  by (induction s arbitrary: a) (auto split: if_splits)

lemma cut_None: "cut sep s = None \<longleftrightarrow> sep \<notin> set s"
  by (induction s) auto

lemma cut_append: "sep \<notin> set a \<Longrightarrow> cut sep (a @ sep # b) = Some (a, b)"
  by (induction a) auto

text \<open>\<open>strings.LastIndexByte\<close> followed by the two slices \<open>s[:c]\<close> and \<open>s[c+1:]\<close>.\<close>

definition cut_last :: "char \<Rightarrow> string \<Rightarrow> (string \<times> string) option" where
  "cut_last sep s = map_option (\<lambda>(a, b). (rev b, rev a)) (cut sep (rev s))"

lemma cut_last_Some: "cut_last sep s = Some (a, b) \<Longrightarrow> s = a @ sep # b \<and> sep \<notin> set b"
proof -
  assume "cut_last sep s = Some (a, b)"
  then have "cut sep (rev s) = Some (rev b, rev a)"
    by (auto simp: cut_last_def)
  then have "rev s = rev b @ sep # rev a \<and> sep \<notin> set (rev b)" by (rule cut_Some)
  then have "rev (rev s) = rev (rev b @ sep # rev a)" and "sep \<notin> set b" by auto
  then show ?thesis by simp
qed

lemma cut_last_None: "cut_last sep s = None \<longleftrightarrow> sep \<notin> set s"
  by (simp add: cut_last_def cut_None)

text \<open>\<open>strings.FieldsFunc\<close>: the maximal runs of characters that are no separators.\<close>

fun fields_aux :: "(char \<Rightarrow> bool) \<Rightarrow> string \<Rightarrow> string \<Rightarrow> string list" where
  "fields_aux p acc [] = (if acc = [] then [] else [rev acc])"
| "fields_aux p acc (c # cs) =
     (if p c then (if acc = [] then [] else [rev acc]) @ fields_aux p [] cs
      else fields_aux p (c # acc) cs)"

definition fields_func :: "(char \<Rightarrow> bool) \<Rightarrow> string \<Rightarrow> string list" where
  "fields_func p s = fields_aux p [] s"

lemma fields_aux_nonempty: "[] \<notin> set (fields_aux p acc s)"
  by (induction p acc s rule: fields_aux.induct) simp_all

lemma fields_aux_clean:
  "list_all (\<lambda>c. \<not> p c) acc \<Longrightarrow> list_all (list_all (\<lambda>c. \<not> p c)) (fields_aux p acc s)"
  by (induction p acc s rule: fields_aux.induct) simp_all

lemma fields_aux_concat:
  "concat (fields_aux p acc s) = rev acc @ filter (\<lambda>c. \<not> p c) s"
  by (induction p acc s rule: fields_aux.induct) auto

lemma fields_func_clean: "f \<in> set (fields_func p s) \<Longrightarrow> f \<noteq> [] \<and> list_all (\<lambda>c. \<not> p c) f"
  unfolding fields_func_def using fields_aux_nonempty [of p "[]" s] fields_aux_clean [of p "[]" s]
  by (auto simp: list_all_iff)

text \<open>\<open>bytes.Join\<close> and \<open>strings.Join\<close>.\<close>

fun join :: "string \<Rightarrow> string list \<Rightarrow> string" where
  "join sep [] = []"
| "join sep [x] = x"
| "join sep (x # y # xs) = x @ sep @ join sep (y # xs)"

section \<open>Case folding\<close>

definition lower_byte :: "char \<Rightarrow> char" where
  "lower_byte c = (if 65 \<le> byte_of c \<and> byte_of c \<le> 90 then char_of (byte_of c + 32) else c)"

text \<open>
  \<open>strings.EqualFold\<close> against an ASCII string without the letters k and s, the only two
  that have a non-ASCII partner under simple folding.
\<close>

definition equal_fold :: "string \<Rightarrow> string \<Rightarrow> bool" where
  "equal_fold a b \<longleftrightarrow> map lower_byte a = map lower_byte b"

text \<open>
  \<open>strings.ToLower\<close>, as far as its result can be an ASCII string: the only code points
  above 127 that lower to ASCII are U+0130 (to i) and U+212A (to k). All other bytes from
  0x80 on are left as they are; the result then is not ASCII, as in Go.
\<close>

fun to_lower :: "string \<Rightarrow> string" where
  "to_lower [] = []"
| "to_lower (c # cs) =
     (if prefix [CHR 0xC4, CHR 0xB0] (c # cs) then CHR ''i'' # to_lower (drop 1 cs)
      else if prefix [CHR 0xE2, CHR 0x84, CHR 0xAA] (c # cs) then CHR ''k'' # to_lower (drop 2 cs)
      else lower_byte c # to_lower cs)"

section \<open>Decimal numbers\<close>

definition digit :: "char \<Rightarrow> bool" where
  "digit c \<longleftrightarrow> 48 \<le> byte_of c \<and> byte_of c \<le> 57"

definition digit_char :: "int \<Rightarrow> char" where
  "digit_char d = char_of (nat (48 + d))"

text \<open>The decimal digits of a number that is not negative.\<close>

fun dec :: "int \<Rightarrow> string" where
  "dec n = (if n < 10 then [digit_char n] else dec (n div 10) @ [digit_char (n mod 10)])"

declare dec.simps [simp del]

definition itoa :: "int \<Rightarrow> string" where
  "itoa n = (if n < 0 then CHR ''-'' # dec (- n) else dec n)"

text \<open>\<open>%0wd\<close> for a number that is not negative.\<close>

definition pad_zeros :: "nat \<Rightarrow> int \<Rightarrow> string" where
  "pad_zeros w n = (let s = dec n in replicate (w - length s) CHR ''0'' @ s)"

definition digits_value :: "string \<Rightarrow> int" where
  "digits_value s = foldl (\<lambda>a c. 10 * a + (int (byte_of c) - 48)) 0 s"

definition decimal :: "string \<Rightarrow> bool" where
  "decimal s \<longleftrightarrow> s \<noteq> [] \<and> list_all digit s"

text \<open>\<open>strconv.ParseUint(s, 10, 64)\<close> and \<open>strconv.Atoi\<close>; \<open>None\<close> is an error.\<close>

definition parse_uint64 :: "string \<Rightarrow> int option" where
  "parse_uint64 s =
     (if decimal s \<and> digits_value s < 2 ^ 64 then Some (digits_value s) else None)"

text \<open>An optional sign: (negative?, rest).\<close>

fun take_sign :: "string \<Rightarrow> bool \<times> string" where
  "take_sign [] = (False, [])"
| "take_sign (c # cs) =
     (if c = CHR ''-'' then (True, cs) else if c = CHR ''+'' then (False, cs) else (False, c # cs))"

definition atoi :: "string \<Rightarrow> int option" where
  "atoi s =
     (let (neg, ds) = take_sign s in
      if \<not> decimal ds then None
      else let v = (if neg then - digits_value ds else digits_value ds)
           in if - (2 ^ 63) \<le> v \<and> v < 2 ^ 63 then Some v else None)"

lemma digit_char_props [simp]: "0 \<le> d \<Longrightarrow> d < 10 \<Longrightarrow> int (byte_of (digit_char d)) = 48 + d"
  by (simp add: digit_char_def)

lemma digit_digit_char [simp]: "0 \<le> d \<Longrightarrow> d < 10 \<Longrightarrow> digit (digit_char d)"
  using digit_char_props [of d] unfolding digit_def by linarith

lemma digits_value_snoc: "digits_value (s @ [c]) = 10 * digits_value s + (int (byte_of c) - 48)"
  by (simp add: digits_value_def)

lemma digits_value_dec [simp]: "0 \<le> n \<Longrightarrow> digits_value (dec n) = n"
proof (induction n rule: dec.induct)
  case (1 n)
  show ?case
  proof (cases "n < 10")
    case True
    with 1 show ?thesis by (simp add: dec.simps [of n] digits_value_def)
  next
    case False
    with 1 show ?thesis by (simp add: dec.simps [of n] digits_value_snoc)
  qed
qed

lemma decimal_dec [simp]: "0 \<le> n \<Longrightarrow> decimal (dec n)"
proof (induction n rule: dec.induct)
  case (1 n)
  then show ?case
    by (cases "n < 10") (simp_all add: dec.simps [of n] decimal_def)
qed

lemma digits_value_zeros [simp]: "digits_value (replicate k CHR ''0'' @ s) = digits_value s"
  by (induction k) (simp_all add: digits_value_def)

lemma decimal_zeros: "decimal s \<Longrightarrow> decimal (replicate k CHR ''0'' @ s)"
  by (auto simp: decimal_def list_all_iff digit_def)

lemma decimal_pad_zeros [simp]: "0 \<le> n \<Longrightarrow> decimal (pad_zeros w n)"
  by (simp add: pad_zeros_def Let_def decimal_zeros)

lemma digits_value_pad_zeros [simp]: "0 \<le> n \<Longrightarrow> digits_value (pad_zeros w n) = n"
  by (simp add: pad_zeros_def Let_def)

lemma decimal_no_sep: "decimal s \<Longrightarrow> \<not> digit c \<Longrightarrow> c \<notin> set s"
  by (auto simp: decimal_def list_all_iff)

lemma digits_value_nonneg: "decimal s \<Longrightarrow> 0 \<le> digits_value s"
proof -
  have "list_all digit s \<Longrightarrow> 0 \<le> digits_value s"
    by (induction s rule: rev_induct) (simp_all add: digits_value_snoc digit_def, simp add: digits_value_def)
  then show "decimal s \<Longrightarrow> 0 \<le> digits_value s" by (simp add: decimal_def)
qed

lemma parse_uint64_pad_zeros: "0 \<le> n \<Longrightarrow> n < 2 ^ 64 \<Longrightarrow> parse_uint64 (pad_zeros w n) = Some n"
  by (simp add: parse_uint64_def)

lemma parse_uint64_bound: "parse_uint64 s = Some n \<Longrightarrow> 0 \<le> n \<and> n < 2 ^ 64"
  by (auto simp: parse_uint64_def digits_value_nonneg split: if_splits)

lemma atoi_range: "atoi s = Some n \<Longrightarrow> - (2 ^ 63) \<le> n \<and> n < 2 ^ 63"
  by (auto simp: atoi_def Let_def split: if_splits prod.splits)

lemma dec_nonempty [simp]: "dec n \<noteq> []"
  by (simp add: dec.simps [of n])

end
