(* ===== verification/Http.thy ===== *)
theory Http
  imports GoStrings
begin

text \<open>
  What the handlers see of \<open>net/http\<close>: the request (method, path, canonical headers with
  all their lines, peer address, body) and the response writer.
\<close>

section \<open>Requests\<close>

text \<open>
  A body is what the transport will deliver: one list entry per \<open>Read\<close> call, the end of
  the list is \<open>io.EOF\<close>, and \<open>ReadFail\<close> any other error.
\<close>

datatype read_result = Chunk string | ReadFail

type_synonym reader = "read_result list"

record request =
  req_method :: string
  req_path :: string
  req_headers :: "(string \<times> string list) list"
  remoteAddr :: string
  req_body :: reader

definition header_values :: "request \<Rightarrow> string \<Rightarrow> string list" where
  "header_values r k = (case map_of (req_headers r) k of None \<Rightarrow> [] | Some vs \<Rightarrow> vs)"

definition header_get :: "request \<Rightarrow> string \<Rightarrow> string" where
  "header_get r k = (case header_values r k of [] \<Rightarrow> [] | v # _ \<Rightarrow> v)"

section \<open>Responses\<close>

text \<open>
  A response writer: the headers, the status once \<open>WriteHeader\<close> was called (the first
  \<open>Write\<close> calls it with 200, and so does returning without writing), the body.
\<close>

record response =
  rsp_headers :: "(string \<times> string) list"
  rsp_status :: "nat option"
  rsp_body :: string

definition new_response :: response where
  "new_response = \<lparr>rsp_headers = [], rsp_status = None, rsp_body = []\<rparr>"

definition set_header :: "string \<Rightarrow> string \<Rightarrow> response \<Rightarrow> response" where
  "set_header k v w = w\<lparr>rsp_headers := filter (\<lambda>h. fst h \<noteq> k) (rsp_headers w) @ [(k, v)]\<rparr>"

definition write_header :: "nat \<Rightarrow> response \<Rightarrow> response" where
  "write_header code w =
     (case rsp_status w of None \<Rightarrow> w\<lparr>rsp_status := Some code\<rparr> | Some _ \<Rightarrow> w)"

definition write_string :: "string \<Rightarrow> response \<Rightarrow> response" where
  "write_string s w = (write_header 200 w)\<lparr>rsp_body := rsp_body w @ s\<rparr>"

definition response_code :: "response \<Rightarrow> nat" where
  "response_code w = (case rsp_status w of None \<Rightarrow> 200 | Some c \<Rightarrow> c)"

definition response_header :: "response \<Rightarrow> string \<Rightarrow> string option" where
  "response_header w k = map_of (rsp_headers w) k"

text \<open>\<open>http.Error\<close>: plain text with a newline.\<close>

definition http_error :: "string \<Rightarrow> nat \<Rightarrow> response \<Rightarrow> response" where
  "http_error msg code w =
     write_string (msg @ [CHR 0x0A])
       (write_header code
         (set_header ''X-Content-Type-Options'' ''nosniff''
           (set_header ''Content-Type'' ''text/plain; charset=utf-8'' w)))"

lemma map_of_filter_ne: "map_of (filter (\<lambda>h. fst h \<noteq> k) xs) l = (if l = k then None else map_of xs l)"
  by (induction xs) auto

lemma response_header_set [simp]:
  "response_header (set_header k v w) l = (if l = k then Some v else response_header w l)"
  by (auto simp: response_header_def set_header_def map_of_append map_add_def map_of_filter_ne
      split: option.splits)

lemma response_header_write [simp]:
  "response_header (write_header c w) k = response_header w k"
  "response_header (write_string s w) k = response_header w k"
  by (auto simp: response_header_def write_header_def write_string_def split: option.splits)

lemma response_header_new [simp]: "response_header new_response k = None"
  by (simp add: response_header_def new_response_def)

lemma rsp_status_simps [simp]:
  "rsp_status (set_header k v w) = rsp_status w"
  "rsp_status (write_header c w) = (case rsp_status w of None \<Rightarrow> Some c | Some d \<Rightarrow> Some d)"
  "rsp_status (write_string s w) = (case rsp_status w of None \<Rightarrow> Some 200 | Some d \<Rightarrow> Some d)"
  "rsp_status new_response = None"
  by (auto simp: set_header_def write_header_def write_string_def new_response_def split: option.splits)

lemma rsp_body_simps [simp]:
  "rsp_body (set_header k v w) = rsp_body w"
  "rsp_body (write_header c w) = rsp_body w"
  "rsp_body (write_string s w) = rsp_body w @ s"
  "rsp_body new_response = []"
  by (auto simp: set_header_def write_header_def write_string_def new_response_def split: option.splits)

end
