(* ===== verification/NetIP.thy ===== *)
theory NetIP
  imports GoStrings
begin

unbundle bit_operations_syntax

text \<open>
  What the gateway uses of \<open>net\<close>: \<open>ParseIP\<close>, \<open>ParseCIDR\<close>, \<open>IPNet.Contains\<close> and
  \<open>SplitHostPort\<close>. An \<open>net.IP\<close> is its list of bytes: 16 from \<open>ParseIP\<close> (an IPv4
  address in its IPv4-mapped form), 4 or 16 in the network of a CIDR.
\<close>

type_synonym ip = "nat list"

record ipnet =
  net_ip :: ip
  net_mask :: "nat list"

section \<open>ParseIP\<close>

text \<open>One decimal field: at least one digit, no leading zero, at most 255.\<close>

definition parse_octet :: "string \<Rightarrow> nat option" where
  "parse_octet s =
     (if decimal s \<and> \<not> (1 < length s \<and> hd s = CHR ''0'') \<and> digits_value s \<le> 255
      then Some (nat (digits_value s)) else None)"

fun split_on :: "char \<Rightarrow> string \<Rightarrow> string list" where
  "split_on sep [] = [[]]"
| "split_on sep (c # cs) =
     (if c = sep then [] # split_on sep cs
      else case split_on sep cs of [] \<Rightarrow> [[c]] | w # ws \<Rightarrow> (c # w) # ws)"

definition parse_ipv4 :: "string \<Rightarrow> ip option" where
  "parse_ipv4 s =
     (case map parse_octet (split_on CHR ''.'' s) of
        [Some a, Some b, Some c, Some d] \<Rightarrow> Some [a, b, c, d]
      | _ \<Rightarrow> None)"

definition hex_value :: "char \<Rightarrow> nat option" where
  "hex_value c =
     (let n = byte_of c in
      if 48 \<le> n \<and> n \<le> 57 then Some (n - 48)
      else if 97 \<le> n \<and> n \<le> 102 then Some (n - 87)
      else if 65 \<le> n \<and> n \<le> 70 then Some (n - 55)
      else None)"

definition hex_number :: "string \<Rightarrow> int" where
  "hex_number s = foldl (\<lambda>a c. 16 * a + int (the (hex_value c))) 0 s"

text \<open>
  The loop of \<open>netip.parseIPv6\<close>: \<open>fuel\<close> is the number of 16-bit groups that still fit,
  \<open>out\<close> the bytes so far and \<open>ell\<close> the place of the \<open>::\<close>. The result is the bytes and
  that place, for a string used up to its end.
\<close>

fun v6_groups :: "nat \<Rightarrow> ip \<Rightarrow> nat option \<Rightarrow> string \<Rightarrow> (ip \<times> nat option) option" where
  "v6_groups 0 out ell s = (if s = [] then Some (out, ell) else None)"
| "v6_groups (Suc fuel) out ell s =
     (let h = takeWhile (\<lambda>c. hex_value c \<noteq> None) s; rest = drop (length h) s in
      if h = [] \<or> 4 < length h then None
      else case rest of
        [] \<Rightarrow> Some (out @ [nat (hex_number h div 256), nat (hex_number h mod 256)], ell)
      | c # rs \<Rightarrow>
          if c = CHR ''.'' then
            (if ell = None \<and> length out \<noteq> 12 \<or> 12 < length out then None
             else map_option (\<lambda>v4. (out @ v4, ell)) (parse_ipv4 s))
          else if c \<noteq> CHR '':'' \<or> rs = [] then None
          else
            (let out' = out @ [nat (hex_number h div 256), nat (hex_number h mod 256)] in
             if hd rs = CHR '':'' then
               (if ell \<noteq> None then None
                else if tl rs = [] then Some (out', Some (length out'))
                else v6_groups fuel out' (Some (length out')) (tl rs))
             else v6_groups fuel out' ell rs))"

definition expand_ellipsis :: "ip \<Rightarrow> nat option \<Rightarrow> ip option" where
  "expand_ellipsis out ell =
     (if length out < 16
      then (case ell of None \<Rightarrow> None
            | Some e \<Rightarrow> Some (take e out @ replicate (16 - length out) 0 @ drop e out))
      else if ell = None then Some out else None)"

definition parse_ipv6 :: "string \<Rightarrow> ip option" where
  "parse_ipv6 s =
     (if s = ''::'' then Some (replicate 16 0)
      else if prefix ''::'' s
      then Option.bind (v6_groups 8 [] (Some 0) (drop 2 s)) (\<lambda>(out, ell). expand_ellipsis out ell)
      else Option.bind (v6_groups 8 [] None s) (\<lambda>(out, ell). expand_ellipsis out ell))"

definition v4_prefix :: "nat list" where
  "v4_prefix = [0, 0, 0, 0, 0, 0, 0, 0, 0, 0, 255, 255]"

text \<open>
  \<open>netip.ParseAddr\<close>: the first of \<open>.\<close>, \<open>:\<close> and \<open>%\<close> decides the form. The result is the
  address with its bit length (32 or 128); an address with a zone is refused by both
  callers, so a \<open>%\<close> anywhere is an error.
\<close>

definition parse_addr :: "string \<Rightarrow> (ip \<times> nat) option" where
  "parse_addr s =
     (if CHR ''%'' \<in> set s then None
      else case find (\<lambda>c. c = CHR ''.'' \<or> c = CHR '':'') s of
        None \<Rightarrow> None
      | Some c \<Rightarrow>
          if c = CHR ''.'' then map_option (\<lambda>a. (v4_prefix @ a, 32)) (parse_ipv4 s)
          else map_option (\<lambda>a. (a, 128)) (parse_ipv6 s))"

definition parse_ip :: "string \<Rightarrow> ip option" where
  "parse_ip s = map_option fst (parse_addr s)"

definition to4 :: "ip \<Rightarrow> ip option" where
  "to4 a =
     (if length a = 4 then Some a
      else if length a = 16 \<and> take 12 a = v4_prefix then Some (drop 12 a)
      else None)"

section \<open>CIDR networks\<close>

fun cidr_mask :: "nat \<Rightarrow> nat \<Rightarrow> nat list" where
  "cidr_mask ones 0 = []"
| "cidr_mask ones (Suc l) =
     (if 8 \<le> ones then 255 # cidr_mask (ones - 8) l
      else (255 - 255 div 2 ^ ones) # cidr_mask 0 l)"

definition mask_ip :: "ip \<Rightarrow> nat list \<Rightarrow> ip" where
  "mask_ip a m = map2 (\<lambda>x y. x AND y) a m"

definition parse_cidr :: "string \<Rightarrow> ipnet option" where
  "parse_cidr s =
     (case cut CHR ''/'' s of
        None \<Rightarrow> None
      | Some (addr, bits) \<Rightarrow>
          (case parse_addr addr of
             None \<Rightarrow> None
           | Some (a, len) \<Rightarrow>
               if \<not> decimal bits \<or> int len < digits_value bits then None
               else
                 (let m = cidr_mask (nat (digits_value bits)) (len div 8);
                      a' = (if len = 32 then drop 12 a else a)
                  in Some \<lparr>net_ip = mask_ip a' m, net_mask = m\<rparr>)))"

text \<open>\<open>IPNet.Contains\<close>, with \<open>networkNumberAndMask\<close>.\<close>

definition contains :: "ipnet \<Rightarrow> ip \<Rightarrow> bool" where
  "contains n a =
     (let nn = (case to4 (net_ip n) of Some x \<Rightarrow> x | None \<Rightarrow> net_ip n);
          m = (if length (net_mask n) = 16 \<and> length nn = 4 then drop 12 (net_mask n) else net_mask n);
          x = (case to4 a of Some y \<Rightarrow> y | None \<Rightarrow> a)
      in length nn \<in> {4, 16} \<and> length m = length nn \<and> length x = length nn
         \<and> mask_ip nn m = mask_ip x m)"

section \<open>SplitHostPort\<close>

definition split_host_port :: "string \<Rightarrow> (string \<times> string) option" where
  "split_host_port hp =
     (case cut_last CHR '':'' hp of
        None \<Rightarrow> None
      | Some (lpart, port) \<Rightarrow>
          if hd hp = CHR ''['' then
            (case cut CHR '']'' hp of
               None \<Rightarrow> None
             | Some (h, rest) \<Rightarrow>
                 if length lpart \<noteq> length h + 1 then None
                 else if CHR ''['' \<in> set (tl hp) \<or> CHR '']'' \<in> set rest then None
                 else Some (tl h, port))
          else if CHR '':'' \<in> set lpart \<or> CHR ''['' \<in> set hp \<or> CHR '']'' \<in> set hp then None
          else Some (lpart, port))"

definition join_host_port :: "string \<Rightarrow> string \<Rightarrow> string" where
  "join_host_port host port =
     (if CHR '':'' \<in> set host then ''['' @ host @ '']:'' @ port else host @ '':'' @ port)"

section \<open>Facts\<close>

lemma parse_octet_range: "parse_octet s = Some n \<Longrightarrow> n < 256"
  by (auto simp: parse_octet_def split: if_splits)

lemma parse_ipv4_wf: "parse_ipv4 s = Some a \<Longrightarrow> length a = 4 \<and> list_all (\<lambda>x. x < 256) a"
  by (auto simp: parse_ipv4_def Cons_eq_map_conv parse_octet_range
      split: list.splits option.splits)

lemma split_host_port_host:
  "split_host_port hp = Some (h, p) \<Longrightarrow> \<exists>l r. hp = l @ h @ r"
proof -
  assume a: "split_host_port hp = Some (h, p)"
  then obtain b q where c: "cut_last CHR '':'' hp = Some (b, q)"
    by (auto simp: split_host_port_def split: option.splits)
  show ?thesis
  proof (cases "hd hp = CHR ''[''")
    case True
    with a c obtain w r where w: "cut CHR '']'' hp = Some (w, r)" "h = tl w"
      by (auto simp: split_host_port_def split: option.splits if_splits)
    then have "hp = w @ CHR '']'' # r" by (simp add: cut_Some)
    then have "hp = take 1 w @ tl w @ CHR '']'' # r" by (cases w) auto
    with w(2) show ?thesis by metis
  next
    case False
    with a c have "h = b" by (auto simp: split_host_port_def split: if_splits)
    with c have "hp = [] @ h @ CHR '':'' # q" by (simp add: cut_last_Some)
    then show ?thesis by metis
  qed
qed

lemma join_split_host_port:
  "h \<noteq> [] \<Longrightarrow> hd h \<noteq> CHR ''['' \<Longrightarrow> set h \<inter> {CHR '':'', CHR ''['', CHR '']''} = {} \<Longrightarrow>
   set p \<inter> {CHR '':'', CHR ''['', CHR '']''} = {} \<Longrightarrow>
   split_host_port (join_host_port h p) = Some (h, p)"
proof -
  assume a: "h \<noteq> []" "hd h \<noteq> CHR ''[''" "set h \<inter> {CHR '':'', CHR ''['', CHR '']''} = {}"
    "set p \<inter> {CHR '':'', CHR ''['', CHR '']''} = {}"
  then have "cut CHR '':'' (rev p @ CHR '':'' # rev h) = Some (rev p, rev h)"
    by (intro cut_append) auto
  then have "cut_last CHR '':'' (h @ CHR '':'' # p) = Some (h, p)"
    by (simp add: cut_last_def)
  with a show ?thesis by (auto simp: split_host_port_def join_host_port_def)
qed

end
