(* ===== verification/Float64.thy ===== *)
theory Float64
  imports GoStrings Complex_Main
begin

text \<open>
  Go's float64 as the program uses it: a finite value is the rational it denotes, every
  operation is the exact rational operation followed by rounding to the nearest
  representable value, ties to even (53 bits of precision, smallest quantum 2^-1074,
  overflow to infinity from 2^1024). The sign of zero is not represented: nothing in the
  program reads it.
\<close>

datatype float64 = Fin rat | PInf | NInf | NaN

section \<open>Rounding\<close>

fun ilog2 :: "int \<Rightarrow> nat" where
  "ilog2 n = (if n < 2 then 0 else Suc (ilog2 (n div 2)))"

declare ilog2.simps [simp del]

lemma ilog2_bounds: "0 < n \<Longrightarrow> 2 ^ ilog2 n \<le> n \<and> n < 2 ^ Suc (ilog2 n)"
proof (induction n rule: ilog2.induct)
  case (1 n)
  show ?case
  proof (cases "n < 2")
    case True
    with 1 show ?thesis by (simp add: ilog2.simps [of n])
  next
    case False
    then have "2 ^ ilog2 (n div 2) \<le> n div 2 \<and> n div 2 < 2 ^ Suc (ilog2 (n div 2))"
      using 1 by simp
    then show ?thesis using False by (simp add: ilog2.simps [of n]) linarith
  qed
qed

text \<open>Powers of two with an integer exponent, as rationals.\<close>

definition pow2 :: "int \<Rightarrow> rat" where
  "pow2 e = (if 0 \<le> e then 2 ^ nat e else 1 / 2 ^ nat (- e))"

lemma pow2_powi: "pow2 e = 2 powi e"
  by (simp add: pow2_def power_int_def inverse_eq_divide power_one_over)

lemma pow2_pos [simp]: "0 < pow2 e"
  by (simp add: pow2_def)

lemma pow2_nonzero [simp]: "pow2 e \<noteq> 0"
  using pow2_pos [of e] by linarith

lemma pow2_not_neg [simp]: "\<not> pow2 e < 0"
  using pow2_pos [of e] by (simp only: not_less)

lemma pow2_mult_pos: "0 < of_int m * pow2 u \<longleftrightarrow> 0 < m"
  by (simp add: zero_less_mult_iff)

lemma pow2_add: "pow2 (a + b) = pow2 a * pow2 b"
  by (simp add: pow2_powi power_int_add)

lemma pow2_diff: "pow2 (a - b) = pow2 a / pow2 b"
  by (simp add: pow2_powi power_int_diff)

lemma pow2_0 [simp]: "pow2 0 = 1"
  by (simp add: pow2_def)

lemma pow2_1 [simp]: "pow2 1 = 2"
  by (simp add: pow2_def)

lemma pow2_mono: "a \<le> b \<Longrightarrow> pow2 a \<le> pow2 b"
  unfolding pow2_powi by (rule power_int_increasing) simp_all

lemma pow2_less_iff: "pow2 a < pow2 b \<longleftrightarrow> a < b"
proof
  show "a < b" if "pow2 a < pow2 b"
    using that pow2_mono [of b a] by (cases "a < b") auto
  show "pow2 a < pow2 b" if "a < b"
    using that unfolding pow2_powi by (intro power_int_strict_increasing) simp_all
qed

lemma pow2_nat: "0 \<le> e \<Longrightarrow> pow2 e = of_int (2 ^ nat e)"
  by (simp add: pow2_def)

text \<open>The exponent of a positive rational: \<open>pow2 (expo x) \<le> x < pow2 (expo x + 1)\<close>.\<close>

definition expo :: "rat \<Rightarrow> int" where
  "expo x =
     (let (p, q) = quotient_of x;
          e = int (ilog2 p) - int (ilog2 q)
      in if pow2 e \<le> x then e else e - 1)"

lemma expo_bounds:
  assumes "0 < x"
  shows "pow2 (expo x) \<le> x" and "x < pow2 (expo x + 1)"
proof -
  obtain p q where pq: "quotient_of x = (p, q)" by (cases "quotient_of x")
  have q: "0 < q" using pq by (rule quotient_of_denom_pos)
  have x: "x = of_int p / of_int q" using pq by (rule quotient_of_div)
  have p: "0 < p" using assms x q by (simp add: zero_less_divide_iff)
  let ?a = "int (ilog2 p)" and ?b = "int (ilog2 q)"
  have bound: "pow2 (int (ilog2 n)) \<le> of_int n \<and> of_int n < pow2 (int (ilog2 n) + 1)"
    if "0 < n" for n
  proof -
    have "2 ^ ilog2 n \<le> n" "n < 2 ^ Suc (ilog2 n)"
      using ilog2_bounds [OF that] by auto
    then have "(of_int (2 ^ ilog2 n) :: rat) \<le> of_int n"
      "(of_int n :: rat) < of_int (2 ^ Suc (ilog2 n))"
      by (simp_all only: of_int_le_iff of_int_less_iff)
    then show ?thesis by (simp add: pow2_add) (simp add: pow2_def)
  qed
  have "x < pow2 (?a + 1) / pow2 ?b"
    unfolding x using bound [OF p] bound [OF q] p q
    by (intro frac_less) (auto simp: less_imp_le)
  then have up: "x < pow2 (?a - ?b + 1)" by (simp add: pow2_add pow2_diff)
  have "pow2 ?a / pow2 (?b + 1) \<le> x"
    unfolding x using bound [OF p] bound [OF q] p q
    by (intro frac_le) (auto simp: less_imp_le)
  then have lo: "pow2 (?a - ?b - 1) \<le> x" by (simp add: pow2_add pow2_diff)
  show "pow2 (expo x) \<le> x" and "x < pow2 (expo x + 1)"
    using up lo by (auto simp: expo_def pq Let_def)
qed

lemma expo_mono:
  assumes "0 < x" "x \<le> y"
  shows "expo x \<le> expo y"
proof -
  have "pow2 (expo x) < pow2 (expo y + 1)"
    using expo_bounds(1) [OF assms(1)] expo_bounds(2) [of y] assms by linarith
  then show ?thesis by (simp add: pow2_less_iff)
qed

text \<open>Round a rational to the nearest integer, ties to even.\<close>

definition round_even :: "rat \<Rightarrow> int" where
  "round_even x =
     (let f = floor x; d = x - of_int f
      in if d < 1 / 2 then f
         else if 1 / 2 < d then f + 1
         else if even f then f else f + 1)"

lemma round_even_int [simp]: "round_even (of_int n) = n"
  by (simp add: round_even_def)

lemma round_even_floor: "round_even x = floor x \<or> round_even x = floor x + 1"
  by (simp add: round_even_def Let_def)

lemma round_even_mono: "x \<le> y \<Longrightarrow> round_even x \<le> round_even y"
proof -
  assume "x \<le> y"
  then have f: "floor x \<le> floor y" by (rule floor_mono)
  show ?thesis
  proof (cases "floor x = floor y")
    case True
    with \<open>x \<le> y\<close> show ?thesis by (simp add: round_even_def Let_def)
  next
    case False
    with f show ?thesis using round_even_floor [of x] round_even_floor [of y] by linarith
  qed
qed

definition quantum :: "rat \<Rightarrow> int" where
  "quantum x = max (expo x - 52) (- 1074)"

definition rnd_pos :: "rat \<Rightarrow> rat" where
  "rnd_pos x = of_int (round_even (x / pow2 (quantum x))) * pow2 (quantum x)"

definition rnd :: "rat \<Rightarrow> rat" where
  "rnd x = (if x = 0 then 0 else if 0 < x then rnd_pos x else - rnd_pos (- x))"

lemma rnd_0 [simp]: "rnd 0 = 0"
  by (simp add: rnd_def)

lemma rnd_minus: "rnd (- x) = - rnd x"
  by (auto simp: rnd_def)

lemma rnd_pos_nonneg: "0 < x \<Longrightarrow> 0 \<le> rnd_pos x"
proof -
  assume "0 < x"
  then have "round_even 0 \<le> round_even (x / pow2 (quantum x))"
    by (intro round_even_mono divide_nonneg_pos) simp_all
  then have "0 \<le> round_even (x / pow2 (quantum x))"
    using round_even_int [of 0] by simp
  then show ?thesis by (simp add: rnd_pos_def mult_nonneg_nonneg less_imp_le)
qed

text \<open>Multiples of the quantum are left alone, and so are the binade's two ends.\<close>

lemma rnd_pos_fix: "x = of_int m * pow2 (quantum x) \<Longrightarrow> rnd_pos x = x"
proof -
  assume a: "x = of_int m * pow2 (quantum x)"
  then have "x / pow2 (quantum x) = of_int m" by (simp add: field_simps)
  then show ?thesis using a by (simp add: rnd_pos_def)
qed

lemma rnd_pos_between:
  assumes "0 < x" and a: "of_int a * pow2 (quantum x) \<le> x" and b: "x \<le> of_int b * pow2 (quantum x)"
  shows "of_int a * pow2 (quantum x) \<le> rnd_pos x \<and> rnd_pos x \<le> of_int b * pow2 (quantum x)"
proof -
  have "of_int a \<le> x / pow2 (quantum x)" "x / pow2 (quantum x) \<le> of_int b"
    using a b by (simp_all add: field_simps)
  then have "a \<le> round_even (x / pow2 (quantum x))" "round_even (x / pow2 (quantum x)) \<le> b"
    by (metis round_even_int round_even_mono)+
  then show ?thesis by (simp add: rnd_pos_def)
qed

lemma pow2_multiple: "q \<le> e \<Longrightarrow> \<exists>m. pow2 e = of_int m * pow2 q"
proof -
  assume "q \<le> e"
  then have "pow2 e = pow2 (e - q) * pow2 q" by (simp add: pow2_add [symmetric])
  moreover have "pow2 (e - q) = of_int (2 ^ nat (e - q))" using \<open>q \<le> e\<close> by (intro pow2_nat) simp
  ultimately show ?thesis by metis
qed

lemma rnd_pos_mono:
  assumes "0 < x" "x \<le> y"
  shows "rnd_pos x \<le> rnd_pos y"
proof (cases "quantum x = quantum y")
  case True
  have "round_even (x / pow2 (quantum x)) \<le> round_even (y / pow2 (quantum x))"
    using assms by (intro round_even_mono divide_right_mono) (simp_all add: less_imp_le)
  with True show ?thesis by (simp add: rnd_pos_def)
next
  case False
  have e: "expo x \<le> expo y" using assms by (rule expo_mono)
  with False have lt: "expo x < expo y" and qy: "quantum y = expo y - 52" and "-1074 < expo y - 52"
    by (auto simp: quantum_def)
  have qx: "quantum x \<le> expo y" "quantum y \<le> expo y"
    using lt qy \<open>-1074 < expo y - 52\<close> by (auto simp: quantum_def)
  obtain b where b: "pow2 (expo y) = of_int b * pow2 (quantum x)"
    using pow2_multiple [OF qx(1)] by blast
  obtain a where a: "pow2 (expo y) = of_int a * pow2 (quantum y)"
    using pow2_multiple [OF qx(2)] by blast
  have "x \<le> pow2 (expo y)"
    using expo_bounds(2) [OF assms(1)] pow2_mono [of "expo x + 1" "expo y"] lt by linarith
  then have "rnd_pos x \<le> pow2 (expo y)"
    using rnd_pos_between [OF assms(1), of 0 b] assms(1) b by simp
  moreover have "pow2 (expo y) \<le> rnd_pos y"
  proof -
    have "0 < y" using assms by simp
    moreover have "y \<le> of_int (ceiling (y / pow2 (quantum y))) * pow2 (quantum y)"
      using le_of_int_ceiling [of "y / pow2 (quantum y)"] pow2_pos by (simp only: pos_divide_le_eq)
    ultimately show ?thesis
      using rnd_pos_between [of y a] expo_bounds(1) [of y] a by metis
  qed
  ultimately show ?thesis by linarith
qed

lemma rnd_nonneg: "0 \<le> x \<Longrightarrow> 0 \<le> rnd x"
  using rnd_pos_nonneg [of x] by (simp add: rnd_def)

lemma rnd_mono: "x \<le> y \<Longrightarrow> rnd x \<le> rnd y"
proof -
  assume le: "x \<le> y"
  consider "0 \<le> x" | "x < 0" "0 \<le> y" | "y < 0" using le by linarith
  then show ?thesis
  proof cases
    case 1
    then show ?thesis
      using le rnd_pos_mono [of x y] rnd_pos_nonneg [of y] by (auto simp: rnd_def)
  next
    case 2
    then have "rnd x \<le> 0" using rnd_nonneg [of "- x"] by (simp add: rnd_minus)
    then show ?thesis using rnd_nonneg [OF 2(2)] by linarith
  next
    case 3
    then show ?thesis using le rnd_pos_mono [of "- y" "- x"] by (simp add: rnd_def)
  qed
qed

section \<open>Representable values\<close>

definition representable :: "rat \<Rightarrow> bool" where
  "representable x \<longleftrightarrow> (\<exists>m u. x = of_int m * pow2 u \<and> \<bar>m\<bar> \<le> 2 ^ 53 \<and> - 1074 \<le> u)"

lemma representable_int: "\<bar>n\<bar> \<le> 2 ^ 53 \<Longrightarrow> representable (of_int n)"
  unfolding representable_def by (intro exI [of _ n] exI [of _ 0]) simp

lemma representable_minus: "representable x \<Longrightarrow> representable (- x)"
  unfolding representable_def by (metis abs_minus_cancel mult_minus_left of_int_minus)

lemma rnd_pos_representable:
  assumes "0 < x" "representable x"
  shows "rnd_pos x = x"
proof -
  obtain m u where x: "x = of_int m * pow2 u" and m: "\<bar>m\<bar> \<le> 2 ^ 53" and u: "- 1074 \<le> u"
    using assms(2) by (auto simp: representable_def)
  have mpos: "0 < m" using assms(1) by (simp add: x pow2_mult_pos)
  have "\<exists>k. x = of_int k * pow2 (quantum x)"
  proof (cases "m = 2 ^ 53")
    case True
    then have "x = pow2 (53 + u)" by (simp add: x pow2_add) (simp add: pow2_def)
    then have "pow2 (expo x) < pow2 (53 + u + 1)" "pow2 (53 + u) < pow2 (expo x + 1)"
      using expo_bounds [OF assms(1)] pow2_less_iff [of "53 + u" "53 + u + 1"] by simp_all
    then have "quantum x \<le> 53 + u" using u by (simp add: pow2_less_iff quantum_def)
    then show ?thesis using pow2_multiple [of "quantum x" "53 + u"] \<open>x = pow2 (53 + u)\<close> by auto
  next
    case False
    then have "of_int m < (2 ^ 53 :: rat)"
      using m mpos by (metis abs_of_pos of_int_less_iff of_int_numeral of_int_power order_le_less)
    then have "x < pow2 (53 + u)"
      unfolding x pow2_add by (intro mult_strict_right_mono) (simp_all add: pow2_def)
    then have "pow2 (expo x) < pow2 (53 + u)"
      using expo_bounds(1) [OF assms(1)] by linarith
    then have "quantum x \<le> u" using u by (simp add: pow2_less_iff quantum_def)
    then obtain k where "pow2 u = of_int k * pow2 (quantum x)" using pow2_multiple by blast
    then have "x = of_int (m * k) * pow2 (quantum x)" by (simp add: x)
    then show ?thesis by blast
  qed
  then show ?thesis by (auto dest: rnd_pos_fix)
qed

lemma rnd_representable: "representable x \<Longrightarrow> rnd x = x"
  using rnd_pos_representable [of x] rnd_pos_representable [of "- x"] representable_minus [of x]
  by (auto simp: rnd_def)

lemma representable_rnd_pos:
  assumes "0 < x"
  shows "representable (rnd_pos x)"
proof -
  have "expo x + 1 \<le> 53 + quantum x" by (simp add: quantum_def)
  then have "x < pow2 (53 + quantum x)"
    using expo_bounds(2) [OF assms] pow2_mono by (meson less_le_trans)
  then have "x / pow2 (quantum x) \<le> of_int (2 ^ 53)"
    by (simp add: pow2_add field_simps) (simp add: pow2_def)
  then have "round_even (x / pow2 (quantum x)) \<le> 2 ^ 53"
    using round_even_mono [of "x / pow2 (quantum x)" "of_int (2 ^ 53)"] by (simp only: round_even_int)
  moreover have "round_even 0 \<le> round_even (x / pow2 (quantum x))"
    using assms by (intro round_even_mono divide_nonneg_pos) simp_all
  ultimately have "\<bar>round_even (x / pow2 (quantum x))\<bar> \<le> 2 ^ 53"
    using round_even_int [of 0] by simp
  then show ?thesis
    unfolding representable_def rnd_pos_def
    by (intro exI [of _ "round_even (x / pow2 (quantum x))"] exI [of _ "quantum x"])
      (simp add: quantum_def)
qed

lemma representable_rnd: "representable (rnd x)"
  using representable_rnd_pos [of x] representable_rnd_pos [of "- x"] representable_int [of 0]
  by (auto simp: rnd_def intro: representable_minus)

lemma rnd_idem [simp]: "rnd (rnd x) = rnd x"
  by (rule rnd_representable) (rule representable_rnd)

text \<open>Subtracting 1 from a representable value of at least 1 and at most 2^53 is exact.\<close>

lemma representable_minus_1:
  assumes "representable x" "1 \<le> x" "x \<le> 2 ^ 53"
  shows "representable (x - 1)"
proof -
  obtain m u where x: "x = of_int m * pow2 u" and m: "\<bar>m\<bar> \<le> 2 ^ 53" and u: "- 1074 \<le> u"
    using assms(1) by (auto simp: representable_def)
  have "0 < x" using assms(2) by simp
  then have mpos: "0 < m" by (simp add: x pow2_mult_pos)
  show ?thesis
  proof (cases "0 \<le> u")
    case True
    then have "x = of_int (m * 2 ^ nat u)" by (simp add: x pow2_nat)
    moreover have "0 \<le> m * 2 ^ nat u - 1" "m * 2 ^ nat u - 1 \<le> 2 ^ 53"
    proof -
      have "(1 :: rat) \<le> of_int (m * 2 ^ nat u)" "of_int (m * 2 ^ nat u) \<le> (of_int (2 ^ 53) :: rat)"
        using assms(2,3) \<open>x = of_int (m * 2 ^ nat u)\<close> by simp_all
      then show "0 \<le> m * 2 ^ nat u - 1" "m * 2 ^ nat u - 1 \<le> 2 ^ 53"
        by (simp_all only: of_int_le_iff of_int_1_le_iff)
    qed
    ultimately show ?thesis
      using representable_int [of "m * 2 ^ nat u - 1"] by simp
  next
    case False
    then have one: "(1 :: rat) = of_int (2 ^ nat (- u)) * pow2 u" by (simp add: pow2_def)
    have "x - 1 = of_int (m - 2 ^ nat (- u)) * pow2 u"
      unfolding x using one by (simp only: of_int_diff left_diff_distrib)
    moreover have "2 ^ nat (- u) \<le> m"
    proof -
      have "of_int (2 ^ nat (- u)) * pow2 u \<le> of_int m * pow2 u" using assms(2) x one by simp
      then have "(of_int (2 ^ nat (- u)) :: rat) \<le> of_int m" by (simp add: mult_le_cancel_right)
      then show ?thesis by (simp only: of_int_le_iff)
    qed
    moreover have "0 < (2 :: int) ^ nat (- u)" by simp
    ultimately have "x - 1 = of_int (m - 2 ^ nat (- u)) * pow2 u \<and>
      \<bar>m - 2 ^ nat (- u)\<bar> \<le> 2 ^ 53 \<and> - 1074 \<le> u"
      using m u mpos by linarith
    then show ?thesis unfolding representable_def by blast
  qed
qed

section \<open>Operations and comparisons\<close>

definition fl :: "rat \<Rightarrow> float64" where
  "fl x = (let r = rnd x in
     if 2 ^ 1024 \<le> r then PInf else if r \<le> - (2 ^ 1024) then NInf else Fin r)"

fun f_neg :: "float64 \<Rightarrow> float64" where
  "f_neg (Fin x) = Fin (- x)"
| "f_neg PInf = NInf"
| "f_neg NInf = PInf"
| "f_neg NaN = NaN"

fun f_add :: "float64 \<Rightarrow> float64 \<Rightarrow> float64" where
  "f_add (Fin x) (Fin y) = fl (x + y)"
| "f_add NaN y = NaN"
| "f_add x NaN = NaN"
| "f_add PInf NInf = NaN"
| "f_add NInf PInf = NaN"
| "f_add PInf y = PInf"
| "f_add x PInf = PInf"
| "f_add NInf y = NInf"
| "f_add x NInf = NInf"

definition f_sub :: "float64 \<Rightarrow> float64 \<Rightarrow> float64" where
  "f_sub x y = f_add x (f_neg y)"

fun f_mul :: "float64 \<Rightarrow> float64 \<Rightarrow> float64" where
  "f_mul (Fin x) (Fin y) = fl (x * y)"
| "f_mul NaN y = NaN"
| "f_mul x NaN = NaN"
| "f_mul (Fin x) PInf = (if x = 0 then NaN else if 0 < x then PInf else NInf)"
| "f_mul (Fin x) NInf = (if x = 0 then NaN else if 0 < x then NInf else PInf)"
| "f_mul PInf (Fin x) = (if x = 0 then NaN else if 0 < x then PInf else NInf)"
| "f_mul NInf (Fin x) = (if x = 0 then NaN else if 0 < x then NInf else PInf)"
| "f_mul PInf PInf = PInf"
| "f_mul NInf NInf = PInf"
| "f_mul PInf NInf = NInf"
| "f_mul NInf PInf = NInf"

text \<open>Comparisons are false as soon as an operand is NaN.\<close>

fun f_lt :: "float64 \<Rightarrow> float64 \<Rightarrow> bool" where
  "f_lt (Fin x) (Fin y) \<longleftrightarrow> x < y"
| "f_lt NInf (Fin _) = True"
| "f_lt NInf PInf = True"
| "f_lt (Fin _) PInf = True"
| "f_lt _ _ = False"

fun f_le :: "float64 \<Rightarrow> float64 \<Rightarrow> bool" where
  "f_le NaN y = False"
| "f_le x NaN = False"
| "f_le x y = (\<not> f_lt y x)"

fun f_eq :: "float64 \<Rightarrow> float64 \<Rightarrow> bool" where
  "f_eq NaN y = False"
| "f_eq x y = (x = y)"

text \<open>\<open>float64(n)\<close> for an int64, and \<open>int64(f)\<close>: truncation towards zero; a value outside
  the range of int64 (NaN included) gives the smallest int64, which is what the amd64
  instruction the compiler emits gives (the language leaves it to the implementation).\<close>

definition f_of_int :: "int \<Rightarrow> float64" where
  "f_of_int n = fl (of_int n)"

definition trunc_rat :: "rat \<Rightarrow> int" where
  "trunc_rat x = (if 0 \<le> x then floor x else ceiling x)"

fun f_to_int64 :: "float64 \<Rightarrow> int" where
  "f_to_int64 (Fin x) =
     (let n = trunc_rat x in if - (2 ^ 63) \<le> n \<and> n < 2 ^ 63 then n else - (2 ^ 63))"
| "f_to_int64 _ = - (2 ^ 63)"

lemma fl_small: "\<bar>rnd x\<bar> < 2 ^ 1024 \<Longrightarrow> fl x = Fin (rnd x)"
  by (auto simp: fl_def Let_def abs_less_iff)

lemma fl_cases: "fl x = Fin (rnd x) \<or> fl x = PInf \<and> 2 ^ 1024 \<le> rnd x \<or> fl x = NInf \<and> rnd x \<le> - (2 ^ 1024)"
  by (auto simp: fl_def Let_def)

end
