(* ===== verification/GoNum.thy ===== *)
theory GoNum
  imports Float64
begin

text \<open>
  \<open>strconv.ParseFloat(s, 64)\<close> and \<open>time.ParseDuration\<close>; \<open>None\<close> is their error.
\<close>

section \<open>ParseFloat\<close>

fun f_div :: "float64 \<Rightarrow> float64 \<Rightarrow> float64" where
  "f_div (Fin x) (Fin y) =
     (if y \<noteq> 0 then fl (x / y) else if x = 0 then NaN else if 0 < x then PInf else NInf)"
| "f_div NaN y = NaN"
| "f_div x NaN = NaN"
| "f_div (Fin x) y = Fin 0"
| "f_div PInf (Fin y) = (if y < 0 then NInf else PInf)"
| "f_div NInf (Fin y) = (if y < 0 then PInf else NInf)"
| "f_div x y = NaN"

definition hex_digit :: "char \<Rightarrow> bool" where
  "hex_digit c \<longleftrightarrow> (let l = byte_of (lower_byte c) in 97 \<le> l \<and> l \<le> 102)"

definition digit_value :: "char \<Rightarrow> int" where
  "digit_value c = (if digit c then int (byte_of c) - 48 else int (byte_of (lower_byte c)) - 87)"

text \<open>\<open>strconv.underscoreOK\<close> after the sign; \<open>prev\<close> is what preceded: 0 nothing or another
  character, 1 a digit or the base prefix, 2 an underscore.\<close>

fun underscore_ok :: "bool \<Rightarrow> nat \<Rightarrow> string \<Rightarrow> bool" where
  "underscore_ok hex prev [] \<longleftrightarrow> prev \<noteq> 2"
| "underscore_ok hex prev (c # cs) =
     (if digit c \<or> (hex \<and> hex_digit c) then underscore_ok hex 1 cs
      else if c = CHR ''_'' then prev = 1 \<and> underscore_ok hex 2 cs
      else prev \<noteq> 2 \<and> underscore_ok hex 0 cs)"

text \<open>The mantissa: value, number of digits after the point, whether a digit was seen, rest.\<close>

fun read_mantissa ::
  "bool \<Rightarrow> bool \<Rightarrow> int \<Rightarrow> int \<Rightarrow> bool \<Rightarrow> string \<Rightarrow> int \<times> int \<times> bool \<times> string" where
  "read_mantissa hex dot m k saw [] = (m, k, saw, [])"
| "read_mantissa hex dot m k saw (c # cs) =
     (if c = CHR ''_'' then read_mantissa hex dot m k saw cs
      else if c = CHR ''.'' then
        (if dot then (m, k, saw, c # cs) else read_mantissa hex True m k saw cs)
      else if digit c \<or> (hex \<and> hex_digit c) then
        read_mantissa hex dot ((if hex then 16 else 10) * m + digit_value c)
          (if dot then k + 1 else k) True cs
      else (m, k, saw, c # cs))"

text \<open>The exponent's digits; from 10000 on further digits are read but not used.\<close>

fun read_exponent :: "int \<Rightarrow> string \<Rightarrow> int \<times> string" where
  "read_exponent e [] = (e, [])"
| "read_exponent e (c # cs) =
     (if c = CHR ''_'' then read_exponent e cs
      else if digit c then read_exponent (if e < 10000 then 10 * e + digit_value c else e) cs
      else (e, c # cs))"

definition scale_by :: "nat \<Rightarrow> int \<Rightarrow> rat" where
  "scale_by b e = (if 0 \<le> e then of_nat b ^ nat e else 1 / of_nat b ^ nat (- e))"

definition parse_exponent :: "bool \<Rightarrow> string \<Rightarrow> (int \<times> string) option" where
  "parse_exponent hex s =
     (case s of
        c # cs \<Rightarrow>
          if lower_byte c = (if hex then CHR ''p'' else CHR ''e'') then
            (let (neg, ds) = take_sign cs in
             if ds = [] \<or> \<not> digit (hd ds) then None
             else let (e, rest) = read_exponent 0 ds
                  in Some (if neg then - e else e, rest))
          else if hex then None else Some (0, s)
      | [] \<Rightarrow> if hex then None else Some (0, s))"

definition parse_number :: "string \<Rightarrow> float64 option" where
  "parse_number s0 =
     (let (neg, s) = take_sign s0;
          hex = (2 < length s \<and> s ! 0 = CHR ''0'' \<and> lower_byte (s ! 1) = CHR ''x'');
          (m, k, saw, rest) = read_mantissa hex False 0 0 False (if hex then drop 2 s else s)
      in if \<not> saw then None
         else case parse_exponent hex rest of
           None \<Rightarrow> None
         | Some (e, rest') \<Rightarrow>
             if rest' \<noteq> [] then None
             else if CHR ''_'' \<in> set s \<and>
                     \<not> (if 2 \<le> length s \<and> s ! 0 = CHR ''0'' \<and> lower_byte (s ! 1) \<in> set ''box''
                        then underscore_ok (lower_byte (s ! 1) = CHR ''x'') 1 (drop 2 s)
                        else underscore_ok False 0 s)
             then None
             else
               (let v = of_int m * (if hex then scale_by 2 (e - 4 * k) else scale_by 10 (e - k))
                in case fl (if neg then - v else v) of Fin x \<Rightarrow> Some (Fin x) | _ \<Rightarrow> None))"

definition parse_float :: "string \<Rightarrow> float64 option" where
  "parse_float s =
     (let (neg, t) = take_sign s; l = map lower_byte t in
      if l = ''inf'' \<or> l = ''infinity'' then Some (if neg then NInf else PInf)
      else if map lower_byte s = ''nan'' then Some NaN
      else parse_number s)"

section \<open>ParseDuration\<close>

definition unit_map :: "(string \<times> int) list" where
  "unit_map =
     [(''ns'', 1), (''us'', 1000), ([CHR 0xC2, CHR 0xB5, CHR ''s''], 1000),
      ([CHR 0xCE, CHR 0xBC, CHR ''s''], 1000), (''ms'', 1000000), (''s'', 1000000000),
      (''m'', 60000000000), (''h'', 3600000000000)]"

text \<open>\<open>time.leadingFraction\<close>: value and scale; digits past the overflow are dropped.\<close>

fun leading_fraction :: "int \<Rightarrow> int \<Rightarrow> bool \<Rightarrow> string \<Rightarrow> int \<times> int" where
  "leading_fraction x scale ovf [] = (x, scale)"
| "leading_fraction x scale ovf (c # cs) =
     (if ovf \<or> (2 ^ 63 - 1) div 10 < x then leading_fraction x scale True cs
      else if 2 ^ 63 < 10 * x + digit_value c then leading_fraction x scale True cs
      else leading_fraction (10 * x + digit_value c) (10 * scale) False cs)"

text \<open>One \<open>number unit\<close> term of nanoseconds, with what follows it.\<close>

definition duration_term :: "string \<Rightarrow> (int \<times> string) option" where
  "duration_term s =
     (let ip = takeWhile digit s; s1 = drop (length ip) s;
          dot = (s1 \<noteq> [] \<and> hd s1 = CHR ''.'');
          fp = (if dot then takeWhile digit (tl s1) else []);
          s2 = (if dot then drop (length fp) (tl s1) else s1);
          u = takeWhile (\<lambda>c. c \<noteq> CHR ''.'' \<and> \<not> digit c) s2;
          v = digits_value ip
      in if ip = [] \<and> fp = [] \<or> 2 ^ 63 < v \<or> u = [] then None
         else case map_of unit_map u of
           None \<Rightarrow> None
         | Some unit \<Rightarrow>
             if 2 ^ 63 div unit < v then None
             else
               (let (f, scale) = leading_fraction 0 1 False fp;
                    frac = (if f = 0 then 0 else
                      f_to_int64 (f_mul (f_of_int f) (f_div (f_of_int unit) (f_of_int scale))));
                    w = v * unit + frac
                in if 2 ^ 63 < w then None else Some (w, drop (length u) s2)))"

lemma duration_term_shorter: "duration_term s = Some (w, t) \<Longrightarrow> length t < length s"
proof -
  assume a: "duration_term s = Some (w, t)"
  define s1 where "s1 = drop (length (takeWhile digit s)) s"
  define dot where "dot = (s1 \<noteq> [] \<and> hd s1 = CHR ''.'')"
  define s2 where "s2 = (if dot then drop (length (takeWhile digit (tl s1))) (tl s1) else s1)"
  define u where "u = takeWhile (\<lambda>c. c \<noteq> CHR ''.'' \<and> \<not> digit c) s2"
  have "t = drop (length u) s2" "u \<noteq> []"
    using a unfolding duration_term_def Let_def u_def s2_def dot_def s1_def
    by (auto simp del: drop_drop split: if_splits option.splits prod.splits)
  moreover have "length u \<le> length s2" by (simp add: u_def length_takeWhile_le)
  moreover have "length s2 \<le> length s" by (simp add: s2_def s1_def)
  ultimately show ?thesis by (cases u) auto
qed

function duration_terms :: "int \<Rightarrow> string \<Rightarrow> int option" where
  "duration_terms d s =
     (if s = [] then Some d
      else case duration_term s of
        None \<Rightarrow> None
      | Some (w, t) \<Rightarrow> if 2 ^ 63 < d + w then None else duration_terms (d + w) t)"
  by pat_completeness auto
termination
  by (relation "measure (\<lambda>(d, s). length s)") (auto simp: duration_term_shorter)

declare duration_terms.simps [simp del]

definition parse_duration :: "string \<Rightarrow> int option" where
  "parse_duration s0 =
     (let (neg, s) = take_sign s0 in
      if s = ''0'' then Some 0
      else if s = [] then None
      else case duration_terms 0 s of
        None \<Rightarrow> None
      | Some d \<Rightarrow>
          if neg then Some (- d) else if 2 ^ 63 - 1 < d then None else Some d)"

end
