(* ===== verification/Util.thy ===== *)
theory Util
  imports Http NetIP GoNum
begin

text \<open>
  \<open>gateway/util.go\<close> without the rate limiter: environment variables, secrets, tokens,
  trusted networks, log levels.
\<close>

section \<open>Environment\<close>

text \<open>\<open>os.Getenv\<close> is a function: an unset variable reads as the empty string.\<close>

type_synonym env = "string \<Rightarrow> string"

definition envOr :: "env \<Rightarrow> string \<Rightarrow> string \<Rightarrow> string" where
  "envOr e k def = (if e k \<noteq> [] then e k else def)"

definition envInt :: "env \<Rightarrow> string \<Rightarrow> int \<Rightarrow> int" where
  "envInt e k def = (if e k \<noteq> [] then (case atoi (e k) of Some n \<Rightarrow> n | None \<Rightarrow> def) else def)"

definition envFloat :: "env \<Rightarrow> string \<Rightarrow> float64 \<Rightarrow> float64" where
  "envFloat e k def =
     (if e k \<noteq> [] then (case parse_float (e k) of Some f \<Rightarrow> f | None \<Rightarrow> def) else def)"

definition envDur :: "env \<Rightarrow> string \<Rightarrow> int \<Rightarrow> int" where
  "envDur e k def =
     (if e k \<noteq> [] then (case parse_duration (e k) of Some d \<Rightarrow> d | None \<Rightarrow> def) else def)"

text \<open>\<open>files\<close> is what \<open>os.ReadFile\<close> returns, \<open>None\<close> for an error.\<close>

definition readSecret :: "env \<Rightarrow> (string \<Rightarrow> string option) \<Rightarrow> string \<Rightarrow> string" where
  "readSecret e files name =
     (let path = e (name @ ''_FILE'') in
      if path \<noteq> [] then
        (case files path of Some b \<Rightarrow> trim_space b | None \<Rightarrow> e name)
      else e name)"

section \<open>Tokens\<close>

definition token_sep :: "char \<Rightarrow> bool" where
  "token_sep r \<longleftrightarrow> r = CHR '','' \<or> r = CHR 0x0A \<or> r = CHR 0x0D"

definition splitTokens :: "string \<Rightarrow> string list" where
  "splitTokens s = filter (\<lambda>f. f \<noteq> []) (map trim_space (fields_func token_sep s))"

definition bearer :: "request \<Rightarrow> string" where
  "bearer r =
     (let h = header_get r ''Authorization'' in
      if 7 \<le> length h \<and> equal_fold (take 7 h) ''Bearer '' then trim_space (drop 7 h)
      else trim_space (header_get r ''X-Log-Token''))"

text \<open>\<open>subtle.ConstantTimeCompare\<close>: lengths first, then every byte is looked at.\<close>

definition constant_time_compare :: "string \<Rightarrow> string \<Rightarrow> nat" where
  "constant_time_compare x y =
     (if length x \<noteq> length y then 0
      else if fold (\<lambda>(a, b) v. v OR (byte_of a XOR byte_of b)) (zip x y) 0 = 0 then 1 else 0)"

definition secureEqual :: "string \<Rightarrow> string \<Rightarrow> bool" where
  "secureEqual a b \<longleftrightarrow> constant_time_compare a b = 1"

lemma xor_nat_0: "(a XOR b = 0) = (a = b)" for a b :: nat
  by (metis bit.xor_self xor.assoc xor.left_neutral xor.right_neutral xor_self_eq)

lemma or_nat_0: "(a OR b = 0) = (a = 0 \<and> b = 0)" for a b :: nat
  by (metis or.left_neutral or_eq_0_iff)

lemma ct_fold_0:
  "length x = length y \<Longrightarrow>
   fold (\<lambda>(a, b) v. v OR (byte_of a XOR byte_of b)) (zip x y) v = 0 \<longleftrightarrow> v = 0 \<and> x = y"
  by (induction x y arbitrary: v rule: list_induct2) (auto simp: or_nat_0 xor_nat_0)

lemma secureEqual_iff [simp]: "secureEqual a b \<longleftrightarrow> a = b"
  by (auto simp: secureEqual_def constant_time_compare_def ct_fold_0)

section \<open>Trusted networks\<close>

datatype cidr_error = InvalidIP string | BadCIDR string

definition cidr_sep :: "char \<Rightarrow> bool" where
  "cidr_sep r \<longleftrightarrow> r = CHR '','' \<or> r = CHR '' ''"

definition parseCIDR1 :: "string \<Rightarrow> cidr_error + ipnet" where
  "parseCIDR1 tok =
     (let with_bits =
        (if CHR ''/'' \<in> set tok then Inr tok
         else case parse_ip tok of
           None \<Rightarrow> Inl (InvalidIP tok)
         | Some a \<Rightarrow>
             Inr (tok @ ''/'' @ itoa (if to4 a = None then 128 else 32)))
      in case with_bits of
           Inl e \<Rightarrow> Inl e
         | Inr t \<Rightarrow> (case parse_cidr t of None \<Rightarrow> Inl (BadCIDR t) | Some n \<Rightarrow> Inr n))"

fun parseCIDRs_loop :: "string list \<Rightarrow> ipnet list \<Rightarrow> cidr_error + ipnet list" where
  "parseCIDRs_loop [] nets = Inr nets"
| "parseCIDRs_loop (t # ts) nets =
     (let tok = trim_space t in
      if tok = [] then parseCIDRs_loop ts nets
      else case parseCIDR1 tok of
        Inl e \<Rightarrow> Inl e
      | Inr n \<Rightarrow> parseCIDRs_loop ts (nets @ [n]))"

definition parseCIDRs :: "string \<Rightarrow> cidr_error + ipnet list" where
  "parseCIDRs s = parseCIDRs_loop (fields_func cidr_sep s) []"

definition isTrusted :: "ip option \<Rightarrow> ipnet list \<Rightarrow> bool" where
  "isTrusted a nets = (case a of None \<Rightarrow> False | Some x \<Rightarrow> list_ex (\<lambda>n. contains n x) nets)"

section \<open>Log levels\<close>

datatype slog_level = LevelDebug | LevelInfo | LevelWarn | LevelError

definition parseLevel :: "string \<Rightarrow> slog_level" where
  "parseLevel s =
     (let l = to_lower (trim_space s) in
      if l = ''debug'' then LevelDebug
      else if l = ''warn'' \<or> l = ''warning'' then LevelWarn
      else if l = ''error'' then LevelError
      else LevelInfo)"

text \<open>The levels are \<open>log/slog\<close>'s integers, and ordered as these; a handler prints what reaches its
  own level.\<close>

fun level_value :: "slog_level \<Rightarrow> int" where
  "level_value LevelDebug = -4"
| "level_value LevelInfo = 0"
| "level_value LevelWarn = 4"
| "level_value LevelError = 8"

instantiation slog_level :: linorder
begin

definition less_eq_slog_level :: "slog_level \<Rightarrow> slog_level \<Rightarrow> bool" where
  "less_eq_slog_level a b \<longleftrightarrow> level_value a \<le> level_value b"

definition less_slog_level :: "slog_level \<Rightarrow> slog_level \<Rightarrow> bool" where
  "less_slog_level a b \<longleftrightarrow> level_value a < level_value b"

instance
proof
  fix a b c :: slog_level
  show "a < b \<longleftrightarrow> a \<le> b \<and> \<not> b \<le> a" "a \<le> a" "a \<le> b \<or> b \<le> a"
    by (auto simp: less_eq_slog_level_def less_slog_level_def)
  show "a \<le> b \<Longrightarrow> b \<le> c \<Longrightarrow> a \<le> c" by (simp add: less_eq_slog_level_def)
  show "a \<le> b \<Longrightarrow> b \<le> a \<Longrightarrow> a = b"
    by (cases a; cases b) (simp_all add: less_eq_slog_level_def)
qed

end

definition log_enabled :: "slog_level \<Rightarrow> slog_level \<Rightarrow> bool" where
  "log_enabled handler l \<longleftrightarrow> handler \<le> l"

text \<open>A quieter handler prints a part of what a louder one prints.\<close>

lemma log_enabled_mono: "a \<le> b \<Longrightarrow> log_enabled b l \<Longrightarrow> log_enabled a l"
  by (simp add: log_enabled_def)

lemma log_enabled_values [simp]:
  "log_enabled l LevelError" "log_enabled LevelDebug l" "log_enabled l LevelWarn \<longleftrightarrow> l \<noteq> LevelError"
  by (cases l; simp add: log_enabled_def less_eq_slog_level_def)+

section \<open>Facts\<close>

text \<open>No token is empty or contains a separator; blanks inside a token survive.\<close>

lemma splitTokens_clean:
  "t \<in> set (splitTokens s) \<Longrightarrow> t \<noteq> [] \<and> list_all (\<lambda>c. \<not> token_sep c) t"
proof -
  assume "t \<in> set (splitTokens s)"
  then obtain f where f: "f \<in> set (fields_func token_sep s)" "t = trim_space f" "t \<noteq> []"
    by (auto simp: splitTokens_def)
  then have "list_all (\<lambda>c. \<not> token_sep c) f" using fields_func_clean by blast
  moreover have "set t \<subseteq> set f" using f(2) trim_space_set by simp
  ultimately show ?thesis using f(3) by (auto simp: list_all_iff)
qed

lemma parseCIDRs_loop_ok:
  "parseCIDRs_loop ts nets = Inr res \<Longrightarrow> \<exists>added. res = nets @ added \<and>
     map parseCIDR1 (filter (\<lambda>t. t \<noteq> []) (map trim_space ts)) = map Inr added"
proof (induction ts nets rule: parseCIDRs_loop.induct)
  case (2 t ts nets)
  then show ?case
    by (cases "trim_space t = []"; cases "parseCIDR1 (trim_space t)")
      (fastforce simp: Let_def Cons_eq_map_conv)+
qed simp

section \<open>Properties\<close>

text \<open>The characters an address is written with.\<close>

definition address_char :: "char \<Rightarrow> bool" where
  "address_char c \<longleftrightarrow> hex_value c \<noteq> None \<or> c = CHR ''.'' \<or> c = CHR '':''"

lemma address_char_plain: "address_char c \<Longrightarrow> solid c \<and> \<not> cidr_sep c \<and> c \<noteq> CHR ''/'' \<and> c \<noteq> CHR ''%''"
  by (auto simp: address_char_def hex_value_def Let_def solid_def cidr_sep_def split: if_splits)

lemma fields_func_whole: "s \<noteq> [] \<Longrightarrow> list_all (\<lambda>c. \<not> p c) s \<Longrightarrow> fields_func p s = [s]"
proof -
  have "list_all (\<lambda>c. \<not> p c) s \<Longrightarrow> acc \<noteq> [] \<or> s \<noteq> [] \<Longrightarrow> fields_aux p acc s = [rev acc @ s]" for acc
    by (induction s arbitrary: acc) auto
  then show "s \<noteq> [] \<Longrightarrow> list_all (\<lambda>c. \<not> p c) s \<Longrightarrow> fields_func p s = [s]" by (simp add: fields_func_def)
qed

lemma trim_space_solids: "list_all solid s \<Longrightarrow> 1 < length s \<Longrightarrow> trim_space s = s"
  using trim_space_solid [of "hd s" "last s" "butlast (tl s)"]
  by (cases s rule: rev_cases; cases "butlast s") auto

lemma split_on_covers: "c \<in> set s \<Longrightarrow> c \<noteq> sep \<Longrightarrow> \<exists>w \<in> set (split_on sep s). c \<in> set w"
proof (induction s)
  case (Cons d s)
  then show ?case by (cases "split_on sep s") auto
qed simp

lemma parse_ipv4_no_colon: "parse_ipv4 s = Some a \<Longrightarrow> CHR '':'' \<notin> set s"
proof
  assume s: "parse_ipv4 s = Some a" "CHR '':'' \<in> set s"
  then obtain w where w: "w \<in> set (split_on CHR ''.'' s)" "CHR '':'' \<in> set w"
    using split_on_covers [of "CHR '':''" s "CHR ''.''"] by auto
  have "list_all (\<lambda>w. parse_octet w \<noteq> None) (split_on CHR ''.'' s)"
    using s(1) by (auto simp: parse_ipv4_def map_eq_Cons_conv split: list.splits option.splits)
  then have "decimal w" using w(1) by (auto simp: parse_octet_def list_all_iff split: if_splits)
  then show False using decimal_no_sep w(2) by (fastforce simp: digit_def)
qed

text \<open>An address with a colon is one of 128 bits.\<close>

lemma parse_addr_colon:
  assumes "parse_addr s = Some (a, len)" "CHR '':'' \<in> set s"
  shows "len = 128"
  using assms parse_ipv4_no_colon by (auto simp: parse_addr_def split: option.splits if_splits)

lemma byte_and: "x < 256 \<Longrightarrow> x AND 255 = x" for x :: nat
  using take_bit_nat_eq_self [of x 8] by (simp add: take_bit_eq_mask mask_eq_exp_minus_1)

lemma mask_bytes:
  "list_all (\<lambda>x. x < 256) xs \<Longrightarrow> map2 (\<lambda>x y. x AND y) xs (replicate (length xs) 255) = (xs :: nat list)"
  "map2 (\<lambda>x y. x AND y) ys (replicate (length ys) 0) = replicate (length ys) (0 :: nat)"
  by (induction xs, simp_all add: byte_and) (induction ys, simp_all)

lemma mask_32:
  assumes "length a = 16" "list_all (\<lambda>x. x < 256) (take 4 a)"
  shows "mask_ip a (cidr_mask 32 16) = take 4 a @ replicate 12 0"
proof -
  have "cidr_mask 32 16 = replicate 4 255 @ replicate 12 0" by code_simp
  moreover have "length (take 4 a) = 4" "length (drop 4 a) = 12" using assms(1) by simp_all
  ultimately show ?thesis
    using mask_bytes(1) [OF assms(2)] mask_bytes(2) [of "drop 4 a"]
      zip_append [of "take 4 a" "replicate 4 255" "drop 4 a" "replicate 12 0"]
    unfolding mask_ip_def by (metis append_take_drop_id length_replicate map_append)
qed

text \<open>C27: However an IPv4 address is written in the mapped form \<open>::ffff:a.b.c.d\<close> in
  TRUSTED_PROXIES, without a mask, it becomes a /32 network of the 128-bit form: neither that
  address nor any other IPv4 one is trusted, and every IPv6 address below \<open>::/32\<close> is, \<open>::1\<close>
  among them.\<close>

theorem parseCIDRs_mapped_address:
  assumes "parse_ip t = Some (v4_prefix @ a)" "length a = 4" "list_all address_char t" "CHR '':'' \<in> set t"
  shows "\<exists>n. parseCIDRs t = Inr [n] \<and> \<not> isTrusted (Some (v4_prefix @ a)) [n] \<and>
    (\<forall>b. length b = 16 \<and> list_all (\<lambda>x. x < 256) b \<longrightarrow>
       (isTrusted (Some b) [n] \<longleftrightarrow> to4 b = None \<and> take 4 b = [0, 0, 0, 0]))"
proof -
  let ?a = "v4_prefix @ a"
  have a: "length ?a = 16" "to4 ?a = Some a" "take 4 ?a = [0, 0, 0, 0]"
    using assms(2) by (simp_all add: to4_def v4_prefix_def)
  obtain len where "parse_addr t = Some (?a, len)" using assms(1) by (auto simp: parse_ip_def)
  then have pa: "parse_addr t = Some (?a, 128)" using parse_addr_colon [OF _ assms(4)] by metis
  have len: "1 < length t"
  proof (rule ccontr)
    assume "\<not> 1 < length t"
    then have "t = '':''" using assms(4) by (cases t) auto
    moreover have "parse_addr '':'' = None" by code_simp
    ultimately show False using pa by simp
  qed
  have plain: "list_all solid t" "list_all (\<lambda>c. \<not> cidr_sep c) t" "CHR ''/'' \<notin> set t"
    using assms(3) address_char_plain by (auto simp: list_all_iff)
  define n where "n = \<lparr>net_ip = replicate 16 0, net_mask = cidr_mask 32 16\<rparr>"
  have zeros: "[0, 0, 0, 0] @ replicate 12 0 = replicate 16 (0 :: nat)" by code_simp
  have "list_all (\<lambda>x. x < 256) (take 4 ?a)" unfolding a(3) by simp
  then have masked: "mask_ip ?a (cidr_mask 32 16) = replicate 16 0" by (simp only: mask_32 [OF a(1)] a(3) zeros)
  have "parse_cidr (t @ ''/32'') = Some n"
    using pa plain(3) masked cut_append [of "CHR ''/''" t "''32''"]
    by (simp add: parse_cidr_def n_def decimal_def digit_def digits_value_def)
  moreover have "itoa 32 = ''32''" "itoa 128 = ''128''" by code_simp+
  ultimately have "parseCIDR1 t = Inr n" using plain(3) assms(1) a(2) by (simp add: parseCIDR1_def)
  moreover have "t \<noteq> []" using len by auto
  ultimately have "parseCIDRs t = Inr [n]"
    using fields_func_whole [OF _ plain(2)] trim_space_solids [OF plain(1) len] by (simp add: parseCIDRs_def)
  moreover have z: "to4 (replicate 16 0) = None" by code_simp
  moreover have m: "mask_ip (replicate 16 0) (cidr_mask 32 16) = replicate 16 0" "length (cidr_mask 32 16) = 16"
    by code_simp+
  moreover have "contains n b \<longleftrightarrow> to4 b = None \<and> take 4 b = [0, 0, 0, 0]"
    if b: "length b = 16" "list_all (\<lambda>x. x < 256) b" for b
  proof -
    show ?thesis
    proof (cases "to4 b")
      case None
      have "take 4 b @ replicate 12 0 = replicate 16 0 \<longleftrightarrow> take 4 b = [0, 0, 0, 0]"
        using zeros by (metis append_same_eq)
      moreover have "list_all (\<lambda>x. x < 256) (take 4 b)" using b(2) by (auto simp: list_all_iff dest: in_set_takeD)
      ultimately show ?thesis using None b(1) m mask_32 [OF b(1)] by (auto simp: contains_def n_def z)
    next
      case (Some x)
      then have "length x = 4" by (auto simp: to4_def split: if_splits)
      then show ?thesis using Some m(2) by (simp add: contains_def n_def z)
    qed
  qed
  moreover have "\<not> contains n ?a" using a(2) assms(2) m(2) by (simp add: contains_def n_def z)
  ultimately show ?thesis by (auto simp: isTrusted_def)
qed

lemma parseCIDRs_mapped_address_witness:
  "\<exists>n. parseCIDRs ''::ffff:10.0.0.1'' = Inr [n] \<and> \<not> isTrusted (parse_ip ''10.0.0.1'') [n] \<and>
     isTrusted (parse_ip ''::1'') [n]"
proof -
  have p: "parse_ip ''::ffff:10.0.0.1'' = Some (v4_prefix @ [10, 0, 0, 1])" "list_all address_char ''::ffff:10.0.0.1''"
    "parse_ip ''10.0.0.1'' = Some (v4_prefix @ [10, 0, 0, 1])" "parse_ip ''::1'' = Some (replicate 15 0 @ [1])"
    "to4 (v4_prefix @ [10, 0, 0, 1]) = Some [10, 0, 0, 1]" "to4 (replicate 15 0 @ [1]) = None"
    by code_simp+
  have "list_all (\<lambda>x. x < 256) (replicate 15 0 @ [1 :: nat])" "length (replicate 15 0 @ [1 :: nat]) = 16"
    "take 4 (replicate 15 0 @ [1]) = [0, 0, 0, 0 :: nat]" "length [10, 0, 0, 1 :: nat] = 4"
    by code_simp+
  with parseCIDRs_mapped_address [OF p(1) _ p(2)] p(3-6) show ?thesis by fastforce
qed

end
