(* ===== verification/ClientIP.thy ===== *)
theory ClientIP
  imports Util
begin

text \<open>
  The sender's address, \<open>clientIP\<close>, \<open>forwardedFor\<close> and \<open>parseForwardedEntry\<close> of
  \<open>gateway/server.go\<close>: the X-Forwarded-For chain is walked from right to left.
\<close>

definition maxForwardedHops :: nat where
  "maxForwardedHops = 16"

definition parseForwardedEntry :: "string \<Rightarrow> (ip \<times> string) option" where
  "parseForwardedEntry entry =
     (case parse_ip entry of
        Some a \<Rightarrow> Some (a, entry)
      | None \<Rightarrow>
          (case split_host_port entry of
             Some (host, _) \<Rightarrow> map_option (\<lambda>a. (a, host)) (parse_ip host)
           | None \<Rightarrow> None))"

text \<open>
  The inner loop over one header line. \<open>Stop t\<close> is the function's return of \<open>t\<close>,
  \<open>Continue left h\<close> leaves the loop with \<open>leftmost = left\<close> and \<open>h\<close> hops to go.
\<close>

datatype walk = Stop string | Continue string nat

fun walk_line :: "ipnet list \<Rightarrow> nat \<Rightarrow> string \<Rightarrow> string \<Rightarrow> walk" where
  "walk_line trusted 0 rest leftmost = Continue leftmost 0"
| "walk_line trusted (Suc hops) rest leftmost =
     (let (entry, rest') =
        (case cut_last CHR '','' rest of Some (a, b) \<Rightarrow> (b, a) | None \<Rightarrow> (rest, []))
      in case parseForwardedEntry (trim_space entry) of
           None \<Rightarrow> Stop []
         | Some (a, addr) \<Rightarrow>
             if \<not> isTrusted (Some a) trusted then Stop addr
             else if rest' = [] then Continue addr hops
             else walk_line trusted hops rest' addr)"

text \<open>The outer loop, over the lines from the last to the first.\<close>

fun walk_lines :: "ipnet list \<Rightarrow> nat \<Rightarrow> string list \<Rightarrow> string \<Rightarrow> string" where
  "walk_lines trusted hops [] leftmost = leftmost"
| "walk_lines trusted hops (v # vs) leftmost =
     (if hops = 0 then leftmost
      else case walk_line trusted hops v leftmost of
        Stop t \<Rightarrow> t
      | Continue l h \<Rightarrow> walk_lines trusted h vs l)"

definition forwardedFor :: "string list \<Rightarrow> ipnet list \<Rightarrow> string" where
  "forwardedFor values trusted = walk_lines trusted maxForwardedHops (rev values) []"

definition clientIP :: "ipnet list \<Rightarrow> request \<Rightarrow> string" where
  "clientIP trustedProxies r =
     (let host = (case split_host_port (remoteAddr r) of Some (h, _) \<Rightarrow> h | None \<Rightarrow> remoteAddr r) in
      if trustedProxies = [] \<or> \<not> isTrusted (parse_ip host) trustedProxies then host
      else let a = forwardedFor (header_values r ''X-Forwarded-For'') trustedProxies
           in if a \<noteq> [] then a else host)"

section \<open>Specification\<close>

text \<open>
  The chain is one list of entries across all lines (an empty first field of a line is
  skipped); the answer is found on the reversed list of its last 16 entries.
\<close>

fun line_entries :: "string \<Rightarrow> string list" where
  "line_entries [] = [[]]"
| "line_entries (c # cs) = (if c = CHR '','' then split_on CHR '','' cs else split_on CHR '','' (c # cs))"

fun nearest_untrusted :: "ipnet list \<Rightarrow> string list \<Rightarrow> string \<Rightarrow> string" where
  "nearest_untrusted trusted [] left = left"
| "nearest_untrusted trusted (e # es) left =
     (case parseForwardedEntry (trim_space e) of
        None \<Rightarrow> []
      | Some (a, addr) \<Rightarrow>
          if isTrusted (Some a) trusted then nearest_untrusted trusted es addr else addr)"

lemma split_on_no_sep: "sep \<notin> set s \<Longrightarrow> split_on sep s = [s]"
  by (induction s) auto

lemma split_on_nonempty [simp]: "split_on sep s \<noteq> []"
  by (cases s) (auto split: list.splits)

lemma split_on_append_sep:
  "sep \<notin> set b \<Longrightarrow> split_on sep (a @ sep # b) = split_on sep a @ [b]"
proof (induction a)
  case Nil
  then show ?case by (simp add: split_on_no_sep)
next
  case (Cons c a)
  then show ?case
    by (cases "c = sep"; cases "split_on sep a") (simp_all add: split_on_no_sep)
qed

lemma line_entries_append_sep:
  "CHR '','' \<notin> set b \<Longrightarrow> a \<noteq> [] \<Longrightarrow>
   line_entries (a @ CHR '','' # b) = line_entries a @ [b]"
  using split_on_append_sep [of "CHR '',''" b a] split_on_append_sep [of "CHR '',''" b "tl a"]
  by (cases a) (simp_all del: split_on.simps)

lemma line_entries_no_sep: "CHR '','' \<notin> set s \<Longrightarrow> line_entries s = [s]"
  by (cases s) (auto simp: split_on_no_sep simp del: split_on.simps)

lemma line_entries_lead: "CHR '','' \<notin> set s \<Longrightarrow> line_entries (CHR '','' # s) = [s]"
  by (simp add: split_on_no_sep del: split_on.simps)

declare line_entries.simps [simp del]

definition last_entry :: "string \<Rightarrow> string \<times> string" where
  "last_entry rest = (case cut_last CHR '','' rest of Some (a, b) \<Rightarrow> (b, a) | None \<Rightarrow> (rest, []))"

lemma rev_line_entries:
  assumes "last_entry rest = (entry, rest')"
  shows "rev (line_entries rest) = entry # (if rest' = [] then [] else rev (line_entries rest'))"
proof (cases "cut_last CHR '','' rest")
  case None
  with assms show ?thesis by (simp add: last_entry_def cut_last_None line_entries_no_sep)
next
  case (Some ab)
  then have "cut_last CHR '','' rest = Some (rest', entry)"
    using assms by (cases ab) (simp add: last_entry_def)
  then have "rest = rest' @ CHR '','' # entry" and "CHR '','' \<notin> set entry"
    using cut_last_Some by blast+
  then show ?thesis
    by (cases "rest' = []") (simp_all add: line_entries_lead line_entries_append_sep)
qed

text \<open>One line: the walk is the specification on the line's entries, and the hops left are
  what the specification has not used.\<close>

lemma walk_line_spec:
  "0 < hops \<Longrightarrow>
   (case walk_line trusted hops v left of
      Stop t \<Rightarrow> t | Continue l h \<Rightarrow> nearest_untrusted trusted (take h es) l) =
   nearest_untrusted trusted (take hops (rev (line_entries v) @ es)) left"
proof (induction hops arbitrary: v left)
  case 0
  then show ?case by simp
next
  case (Suc hops)
  obtain entry rest' where e: "last_entry v = (entry, rest')" by (cases "last_entry v")
  note rev = rev_line_entries [OF e]
  show ?case
  proof (cases "parseForwardedEntry (trim_space entry)")
    case None
    then show ?thesis using e by (simp add: rev last_entry_def)
  next
    case (Some q)
    obtain x addr where q: "q = (x, addr)" by (cases q)
    have step: "walk_line trusted (Suc hops) v left =
        (if \<not> isTrusted (Some x) trusted then Stop addr
         else if rest' = [] then Continue addr hops else walk_line trusted hops rest' addr)"
      using e Some q by (simp add: last_entry_def)
    have spec: "nearest_untrusted trusted (take (Suc hops) (rev (line_entries v) @ es)) left =
        (if isTrusted (Some x) trusted
         then nearest_untrusted trusted
           (take hops ((if rest' = [] then [] else rev (line_entries rest')) @ es)) addr
         else addr)"
      using Some q by (simp add: rev del: take_append)
    show ?thesis
    proof (cases "isTrusted (Some x) trusted \<and> rest' \<noteq> []")
      case False
      then show ?thesis unfolding step spec by auto
    next
      case True
      show ?thesis
      proof (cases "hops = 0")
        case True
        then show ?thesis unfolding step spec using \<open>isTrusted (Some x) trusted \<and> rest' \<noteq> []\<close> by simp
      next
        case False
        then show ?thesis
          unfolding step spec using True Suc.IH [of rest' addr] by (simp del: take_append)
      qed
    qed
  qed
qed

lemma walk_lines_spec:
  "walk_lines trusted hops vs left =
   nearest_untrusted trusted (take hops (concat (map (rev \<circ> line_entries) vs))) left"
proof (induction vs arbitrary: hops left)
  case Nil
  then show ?case by simp
next
  case (Cons v vs)
  show ?case
  proof (cases "hops = 0")
    case True
    then show ?thesis by simp
  next
    case False
    have "walk_lines trusted hops (v # vs) left =
        (case walk_line trusted hops v left of Stop t \<Rightarrow> t
         | Continue l h \<Rightarrow>
             nearest_untrusted trusted (take h (concat (map (rev \<circ> line_entries) vs))) l)"
      using False by (simp add: Cons.IH comp_def del: take_append split: walk.split)
    also have "\<dots> = nearest_untrusted trusted
        (take hops (rev (line_entries v) @ concat (map (rev \<circ> line_entries) vs))) left"
      using False by (intro walk_line_spec) simp
    finally show ?thesis by (simp add: comp_def del: take_append)
  qed
qed

lemma forwardedFor_spec:
  "forwardedFor values trusted =
   nearest_untrusted trusted (take maxForwardedHops (rev (concat (map line_entries values)))) []"
  by (simp add: forwardedFor_def walk_lines_spec rev_concat rev_map comp_def del: take_append)

lemma strip_blank: "strip space_seqs (CHR '' '' # s) = strip space_seqs s"
  by (subst strip.simps) (simp add: space_seqs_def)

lemma trim_space_blank [simp]: "trim_space (CHR '' '' # s) = trim_space s"
  by (simp add: trim_space_def strip_blank)

lemma parseForwardedEntry_ip: "parse_ip e = Some a \<Longrightarrow> parseForwardedEntry e = Some (a, e)"
  by (simp add: parseForwardedEntry_def)

lemma parseForwardedEntry_address: "parseForwardedEntry e = Some (a, t) \<Longrightarrow> parse_ip t = Some a"
  by (auto simp: parseForwardedEntry_def split: option.splits)

lemma nearest_untrusted_address:
  "nearest_untrusted trusted es left \<noteq> [] \<Longrightarrow> left = [] \<or> parse_ip left \<noteq> None \<Longrightarrow>
   parse_ip (nearest_untrusted trusted es left) \<noteq> None"
  by (induction trusted es left rule: nearest_untrusted.induct)
    (auto split: option.splits if_splits dest: parseForwardedEntry_address)

text \<open>The entries after a comma are the last entries of the line, whatever precedes it.\<close>

lemma join_snoc: "es \<noteq> [] \<Longrightarrow> join sep (es @ [e]) = join sep es @ sep @ e"
proof (induction es)
  case (Cons x es)
  then show ?case by (cases es) simp_all
qed simp

lemma line_entries_tail:
  assumes "es \<noteq> []" "list_all (\<lambda>e. CHR '','' \<notin> set e) es"
  shows "\<exists>xs. line_entries (att @ CHR '','' # join '','' es) = xs @ es"
  using assms
proof (induction es rule: rev_nonempty_induct)
  case (single e)
  then show ?case
    by (cases "att = []") (auto simp: line_entries_lead line_entries_append_sep)
next
  case (snoc e es)
  then obtain xs where "line_entries (att @ CHR '','' # join '','' es) = xs @ es" by auto
  moreover have "line_entries ((att @ CHR '','' # join '','' es) @ CHR '','' # e) =
      line_entries (att @ CHR '','' # join '','' es) @ [e]"
    using snoc.prems by (intro line_entries_append_sep) auto
  ultimately show ?case using snoc.hyps by (simp add: join_snoc)
qed

definition trusted_entry :: "ipnet list \<Rightarrow> string \<Rightarrow> bool" where
  "trusted_entry trusted e \<longleftrightarrow>
     (case parseForwardedEntry (trim_space e) of
        None \<Rightarrow> False | Some (a, _) \<Rightarrow> isTrusted (Some a) trusted)"

lemma nearest_untrusted_skip:
  "list_all (trusted_entry trusted) hs \<Longrightarrow> parseForwardedEntry (trim_space c) = Some (a, t) \<Longrightarrow>
   \<not> isTrusted (Some a) trusted \<Longrightarrow> nearest_untrusted trusted (hs @ c # es) left = t"
  by (induction hs arbitrary: left) (auto simp: trusted_entry_def split: option.splits)

section \<open>Properties\<close>

text \<open>C24: \<open>clientIP\<close> is its specification: the peer, unless the peer is a trusted proxy and
  the last 16 entries of the whole X-Forwarded-For chain, read from right to left, lead
  through trusted addresses to an untrusted one (or are all trusted, then the furthest).\<close>

theorem clientIP_spec:
  "clientIP trusted r =
   (let host = (case split_host_port (remoteAddr r) of Some (h, _) \<Rightarrow> h | None \<Rightarrow> remoteAddr r);
        chain = concat (map line_entries (header_values r ''X-Forwarded-For''));
        found = nearest_untrusted trusted (take 16 (rev chain)) []
    in if trusted \<noteq> [] \<and> isTrusted (parse_ip host) trusted \<and> found \<noteq> [] then found else host)"
  by (simp add: clientIP_def forwardedFor_spec maxForwardedHops_def Let_def)

text \<open>C22: A sender cannot choose its recorded address: when the trusted proxies appended the
  peer \<open>c\<close> they saw and then at most 15 trusted hops, the answer is the address in \<open>c\<close>,
  whatever header lines \<open>vs\<close> and whatever text \<open>att\<close> the sender put before them.\<close>

theorem clientIP_unforgeable:
  assumes peer: "split_host_port (remoteAddr r) = Some (host, port)"
    "isTrusted (parse_ip host) trusted"
    and chain: "header_values r ''X-Forwarded-For'' = vs @ [att @ CHR '','' # join '','' (c # hops)]"
    and commas: "list_all (\<lambda>e. CHR '','' \<notin> set e) (c # hops)"
    and hops: "list_all (trusted_entry trusted) hops" "length hops \<le> 15"
    and c: "parseForwardedEntry (trim_space c) = Some (a, t)" "\<not> isTrusted (Some a) trusted"
  shows "clientIP trusted r = t"
proof -
  obtain xs where xs: "line_entries (att @ CHR '','' # join '','' (c # hops)) = xs @ c # hops"
    using line_entries_tail [of "c # hops"] commas by auto
  have "take 16 (rev hops @ c # ys) = rev hops @ c # take (15 - length hops) ys" for ys :: "string list"
    using hops(2) by (simp add: take_Cons' Suc_diff_le)
  then have "forwardedFor (header_values r ''X-Forwarded-For'') trusted = t"
    using nearest_untrusted_skip [of trusted "rev hops" c a t] hops(1) c
    by (simp add: forwardedFor_spec chain xs maxForwardedHops_def)
  moreover have "parse_ip t \<noteq> None" using c(1) parseForwardedEntry_address by auto
  then have "t \<noteq> []" by (auto simp: parse_ip_def parse_addr_def)
  moreover have "trusted \<noteq> []" using peer(2) by (auto simp: isTrusted_def split: option.splits)
  ultimately show ?thesis by (simp add: clientIP_def peer)
qed

lemma clientIP_unforgeable_witness:
  "clientIP [\<lparr>net_ip = [10, 0, 0, 0], net_mask = [255, 0, 0, 0]\<rparr>]
     \<lparr>req_method = ''POST'', req_path = ''/logs'',
      req_headers = [(''X-Forwarded-For'', [''1.1.1.1'', ''6.6.6.6, 10.9.9.9, 9.9.9.9, 10.0.0.7''])],
      remoteAddr = ''10.0.0.8:4000'', req_body = []\<rparr> = ''9.9.9.9''"
  by (rule clientIP_unforgeable [where host = "''10.0.0.8''" and port = "''4000''" and
        vs = "[''1.1.1.1'']" and att = "''6.6.6.6, 10.9.9.9''" and c = "'' 9.9.9.9''" and
        hops = "['' 10.0.0.7'']" and a = "v4_prefix @ [9, 9, 9, 9]"]) code_simp+

end
