(* ===== verification/RateLimiter.thy ===== *)
theory RateLimiter
  imports Float64
begin

text \<open>
  The token bucket of \<open>gateway/util.go\<close>. Times are nanoseconds of the monotonic clock;
  \<open>now.Sub(last)\<close> saturates at the range of int64.
\<close>

section \<open>Model\<close>

record rateLimiter =
  rl_tokens :: float64
  rl_max :: float64
  rl_refill :: float64
  rl_last :: int

definition newRateLimiter :: "float64 \<Rightarrow> float64 \<Rightarrow> int \<Rightarrow> rateLimiter" where
  "newRateLimiter rps burst now =
     (let b1 = (if f_le burst (Fin 0) then rps else burst);
          b2 = (if f_lt b1 (Fin 1) then Fin 1 else b1)
      in \<lparr>rl_tokens = b2, rl_max = b2, rl_refill = rps, rl_last = now\<rparr>)"

definition time_sub :: "int \<Rightarrow> int \<Rightarrow> int" where
  "time_sub t u = max (- (2 ^ 63)) (min (2 ^ 63 - 1) (t - u))"

text \<open>\<open>Duration.Seconds\<close>: whole seconds plus the rest over 1e9, each truncated division.\<close>

definition trunc_div :: "int \<Rightarrow> int \<Rightarrow> int" where
  "trunc_div a b = sgn a * (\<bar>a\<bar> div b)"

definition seconds :: "int \<Rightarrow> float64" where
  "seconds d =
     (let sec = trunc_div d 1000000000; nsec = d - sec * 1000000000
      in f_add (f_of_int sec)
           (case f_of_int nsec of Fin x \<Rightarrow> fl (x / 1000000000) | y \<Rightarrow> y))"

definition allow :: "int \<Rightarrow> rateLimiter \<Rightarrow> bool \<times> rateLimiter" where
  "allow now rl =
     (let t0 = f_add (rl_tokens rl) (f_mul (seconds (time_sub now (rl_last rl))) (rl_refill rl));
          t1 = (if f_lt (rl_max rl) t0 then rl_max rl else t0)
      in if f_le (Fin 1) t1
         then (True, rl\<lparr>rl_tokens := f_sub t1 (Fin 1), rl_last := now\<rparr>)
         else (False, rl\<lparr>rl_tokens := t1, rl_last := now\<rparr>))"

text \<open>A run of calls at the given times: the answers and the bucket after them.\<close>

fun allow_all :: "int list \<Rightarrow> rateLimiter \<Rightarrow> bool list \<times> rateLimiter" where
  "allow_all [] rl = ([], rl)"
| "allow_all (t # ts) rl =
     (let (b, rl') = allow t rl; (bs, rl'') = allow_all ts rl' in (b # bs, rl''))"

section \<open>The bucket's invariant\<close>

text \<open>
  A bucket with finite settings: a representable level between 0 and the ceiling, a
  ceiling of at least one token (below 2^1024, so it is a float64), a refill rate that is
  not negative.
\<close>

definition bucket_ok :: "rateLimiter \<Rightarrow> bool" where
  "bucket_ok rl \<longleftrightarrow>
     (\<exists>t m r. rl_tokens rl = Fin t \<and> rl_max rl = Fin m \<and> rl_refill rl = Fin r \<and>
        representable t \<and> representable m \<and> 0 \<le> t \<and> t \<le> m \<and> 1 \<le> m \<and> m < 2 ^ 1024 \<and> 0 \<le> r)"

lemma bucket_okI:
  "rl_tokens rl = Fin t \<Longrightarrow> rl_max rl = Fin m \<Longrightarrow> rl_refill rl = Fin r \<Longrightarrow>
   representable t \<Longrightarrow> representable m \<Longrightarrow> 0 \<le> t \<Longrightarrow> t \<le> m \<Longrightarrow> 1 \<le> m \<Longrightarrow> m < 2 ^ 1024 \<Longrightarrow> 0 \<le> r \<Longrightarrow> bucket_ok rl"
  unfolding bucket_ok_def by blast

lemma newRateLimiter_ok:
  assumes "0 < r" "r < 2 ^ 1024" "0 \<le> b" "b < 2 ^ 1024" "representable r" "representable b"
  shows "bucket_ok (newRateLimiter (Fin r) (Fin b) now)"
proof -
  define m where "m = (if b \<le> 0 then r else b)"
  have "representable m" "m < 2 ^ 1024" using assms by (auto simp: m_def)
  moreover have "representable 1" using representable_int [of 1] by simp
  ultimately show ?thesis
    using assms(1)
    by (intro bucket_okI [where t = "max 1 m" and m = "max 1 m" and r = r])
      (auto simp: newRateLimiter_def m_def max_def Let_def)
qed

lemma trunc_div_nonneg: "0 \<le> d \<Longrightarrow> trunc_div d b = d div b"
  by (cases "d = 0") (simp_all add: trunc_div_def)

lemma f_of_int_small: "\<bar>n\<bar> \<le> 2 ^ 53 \<Longrightarrow> f_of_int n = Fin (of_int n)"
proof -
  assume n: "\<bar>n\<bar> \<le> 2 ^ 53"
  then have r: "rnd (of_int n) = of_int n" by (intro rnd_representable representable_int)
  have "\<bar>of_int n :: rat\<bar> \<le> of_int (2 ^ 53)"
    using n by (simp only: of_int_le_iff flip: of_int_abs)
  then have "\<bar>of_int n :: rat\<bar> < 2 ^ 1024" by (rule le_less_trans) simp
  then show ?thesis unfolding f_of_int_def using r by (subst fl_small) simp_all
qed

text \<open>An int64 number of nanoseconds is less than 2^34 seconds, so \<open>Seconds\<close> stays finite.\<close>

lemma seconds_nonneg:
  assumes "0 \<le> d" "d < 2 ^ 63"
  shows "\<exists>q. seconds d = Fin q \<and> 0 \<le> q \<and> representable q"
proof -
  have s: "trunc_div d 1000000000 = d div 1000000000" using assms(1) by (rule trunc_div_nonneg)
  have d: "d - d div 1000000000 * 1000000000 = d mod 1000000000" by (rule minus_div_mult_eq_mod)
  have b: "0 \<le> d div 1000000000" "d div 1000000000 \<le> 2 ^ 34"
    "0 \<le> d mod 1000000000" "d mod 1000000000 < 1000000000"
    using assms by (auto simp: pos_imp_zdiv_nonneg_iff)
  have si: "f_of_int (d div 1000000000) = Fin (of_int (d div 1000000000))"
    "f_of_int (d mod 1000000000) = Fin (of_int (d mod 1000000000))"
    using b by (auto intro!: f_of_int_small)
  define x where "x = (of_int (d mod 1000000000) :: rat) / 1000000000"
  define y where "y = (of_int (d div 1000000000) :: rat)"
  have x: "0 \<le> x" "x \<le> 1" using b by (auto simp: x_def)
  have rx: "0 \<le> rnd x" "rnd x \<le> 1"
    using x rnd_nonneg [of x] rnd_mono [of x 1] rnd_representable [of 1] representable_int [of 1] by auto
  have "(y :: rat) \<le> of_int (2 ^ 34)" unfolding y_def using b(2) by (simp only: of_int_le_iff)
  then have y: "0 \<le> y" "y \<le> 2 ^ 34" using b by (auto simp: y_def)
  have rxy: "0 \<le> rnd (y + rnd x)" "rnd (y + rnd x) \<le> 2 ^ 35"
  proof -
    show "0 \<le> rnd (y + rnd x)" using y rx by (intro rnd_nonneg) simp
    have "rnd (y + rnd x) \<le> rnd (of_int (2 ^ 35))" using y rx by (intro rnd_mono) simp
    also have "\<dots> = of_int (2 ^ 35)" by (intro rnd_representable representable_int) simp
    finally show "rnd (y + rnd x) \<le> 2 ^ 35" by simp
  qed
  have "fl x = Fin (rnd x)" using rx by (intro fl_small) simp
  moreover have "fl (y + rnd x) = Fin (rnd (y + rnd x))"
  proof (rule fl_small)
    have "\<bar>rnd (y + rnd x)\<bar> \<le> 2 ^ 35" using rxy by simp
    also have "\<dots> < (2 ^ 1024 :: rat)" by simp
    finally show "\<bar>rnd (y + rnd x)\<bar> < 2 ^ 1024" .
  qed
  ultimately have "seconds d = Fin (rnd (y + rnd x))"
    by (simp add: seconds_def Let_def s d si x_def y_def)
  with rxy representable_rnd show ?thesis by blast
qed

lemma time_sub_nonneg: "u \<le> t \<Longrightarrow> 0 \<le> time_sub t u \<and> time_sub t u < 2 ^ 63"
  by (auto simp: time_sub_def)

text \<open>The level before the spend: it has not dropped, and it is still within the ceiling.\<close>

definition refilled :: "int \<Rightarrow> rateLimiter \<Rightarrow> float64" where
  "refilled now rl =
     (let t0 = f_add (rl_tokens rl) (f_mul (seconds (time_sub now (rl_last rl))) (rl_refill rl))
      in if f_lt (rl_max rl) t0 then rl_max rl else t0)"

lemma allow_refilled:
  "allow now rl =
     (if f_le (Fin 1) (refilled now rl)
      then (True, rl\<lparr>rl_tokens := f_sub (refilled now rl) (Fin 1), rl_last := now\<rparr>)
      else (False, rl\<lparr>rl_tokens := refilled now rl, rl_last := now\<rparr>))"
  by (simp add: allow_def refilled_def Let_def)

lemma refilled_ok:
  assumes "bucket_ok rl" "rl_last rl \<le> now" "rl_tokens rl = Fin t" "rl_max rl = Fin m"
  shows "\<exists>u. refilled now rl = Fin u \<and> t \<le> u \<and> u \<le> m \<and> representable u"
proof -
  obtain r where r: "rl_refill rl = Fin r" "0 \<le> r" "0 \<le> t" "t \<le> m" "m < 2 ^ 1024" "representable t" "representable m"
    using assms(1,3,4) by (auto simp: bucket_ok_def)
  obtain q where q: "seconds (time_sub now (rl_last rl)) = Fin q" "0 \<le> q"
    using seconds_nonneg time_sub_nonneg [OF assms(2)] by blast
  have qr: "0 \<le> q * r" using q r by simp
  define p where "p = f_mul (Fin q) (Fin r)"
  have p: "p = PInf \<or> p = Fin (rnd (q * r)) \<and> 0 \<le> rnd (q * r)"
    using fl_cases [of "q * r"] rnd_nonneg [OF qr] by (auto simp: p_def)
  define s where "s = f_add (Fin t) p"
  have "s = PInf \<or> (\<exists>u. s = Fin u \<and> t \<le> u \<and> representable u)"
    using p
  proof
    assume "p = PInf"
    then show ?thesis by (simp add: s_def)
  next
    assume a: "p = Fin (rnd (q * r)) \<and> 0 \<le> rnd (q * r)"
    then have "t \<le> rnd (t + rnd (q * r))"
      using rnd_mono [of t "t + rnd (q * r)"] rnd_representable [OF r(6)] by simp
    moreover have "rnd (t + rnd (q * r)) \<le> - (2 ^ 1024) \<Longrightarrow> False"
      using \<open>t \<le> rnd (t + rnd (q * r))\<close> r(3) by simp
    ultimately show ?thesis
      using a fl_cases [of "t + rnd (q * r)"] representable_rnd by (auto simp: s_def)
  qed
  moreover have "refilled now rl = (if f_lt (Fin m) s then Fin m else s)"
    using assms(3,4) r(1) q(1) by (simp add: refilled_def Let_def s_def p_def)
  ultimately show ?thesis using r(4,7) by auto
qed

lemma f_sub_1:
  assumes "representable u" "1 \<le> u" "u < 2 ^ 1024"
  shows "f_sub (Fin u) (Fin 1) = Fin (rnd (u - 1))" "0 \<le> rnd (u - 1)" "rnd (u - 1) \<le> u"
proof -
  show lo: "0 \<le> rnd (u - 1)" using assms(2) by (intro rnd_nonneg) simp
  show hi: "rnd (u - 1) \<le> u"
    using rnd_mono [of "u - 1" u] rnd_representable [OF assms(1)] by simp
  show "f_sub (Fin u) (Fin 1) = Fin (rnd (u - 1))"
    using lo hi assms(3) fl_small [of "u - 1"] by (simp add: f_sub_def)
qed

lemma allow_ok:
  assumes "bucket_ok rl" "rl_last rl \<le> now" "rl_max rl = Fin m"
  shows "bucket_ok (snd (allow now rl)) \<and> rl_max (snd (allow now rl)) = Fin m \<and>
    rl_refill (snd (allow now rl)) = rl_refill rl \<and> rl_last (snd (allow now rl)) = now"
proof -
  obtain t r where b: "rl_tokens rl = Fin t" "rl_refill rl = Fin r"
    "0 \<le> t" "t \<le> m" "1 \<le> m" "m < 2 ^ 1024" "0 \<le> r" "representable m"
    using assms(1,3) by (auto simp: bucket_ok_def)
  obtain u where u: "refilled now rl = Fin u" "t \<le> u" "u \<le> m" "representable u"
    using refilled_ok [OF assms(1,2) b(1) assms(3)] by blast
  show ?thesis
  proof (cases "1 \<le> u")
    case True
    then have s: "f_sub (Fin u) (Fin 1) = Fin (rnd (u - 1))" "0 \<le> rnd (u - 1)" "rnd (u - 1) \<le> u"
      using f_sub_1 [OF u(4)] u(3) b(6) by auto
    have "allow now rl = (True, rl\<lparr>rl_tokens := Fin (rnd (u - 1)), rl_last := now\<rparr>)"
      using True by (simp add: allow_refilled u(1) s(1) not_less)
    then show ?thesis
      using s u(3) b assms(3) representable_rnd
      by (auto intro!: bucket_okI [where t = "rnd (u - 1)" and m = m and r = r])
  next
    case False
    have "allow now rl = (False, rl\<lparr>rl_tokens := Fin u, rl_last := now\<rparr>)"
      using False by (simp add: allow_refilled u(1))
    then show ?thesis
      using u b assms(3)
      by (auto intro!: bucket_okI [where t = u and m = m and r = r])
  qed
qed

section \<open>Bursts\<close>

lemma time_sub_self: "time_sub t t = 0"
  by (simp add: time_sub_def)

lemma seconds_0: "seconds 0 = Fin 0"
proof -
  have "fl 0 = Fin 0" by (subst fl_small) simp_all
  then show ?thesis by (simp add: seconds_def trunc_div_def f_of_int_def)
qed

lemma refilled_same_time:
  assumes "rl_tokens rl = Fin t" "rl_max rl = Fin m" "rl_refill rl = Fin r" "rl_last rl = now"
    "representable t" "t \<le> m" "m < 2 ^ 1024" "0 \<le> t"
  shows "refilled now rl = Fin t"
proof -
  have z: "fl 0 = Fin 0" by (subst fl_small) simp_all
  have "fl t = Fin t"
    using assms(5-8) by (subst fl_small) (simp_all add: rnd_representable)
  then show ?thesis using assms z by (simp add: refilled_def time_sub_self seconds_0)
qed

text \<open>
  With no time passing, a bucket at level \<open>t\<close> (at most 2^53) grants exactly the first
  \<open>\<lfloor>t\<rfloor>\<close> of \<open>n\<close> calls: each grant takes exactly one token.
\<close>

lemma burst_grants:
  "rl_tokens rl = Fin t \<Longrightarrow> rl_max rl = Fin m \<Longrightarrow> rl_refill rl = Fin r \<Longrightarrow> rl_last rl = now \<Longrightarrow>
   representable t \<Longrightarrow> 0 \<le> t \<Longrightarrow> t \<le> 2 ^ 53 \<Longrightarrow> t \<le> m \<Longrightarrow> m < 2 ^ 1024 \<Longrightarrow>
   fst (allow_all (replicate n now) rl) = map (\<lambda>i. of_nat i + 1 \<le> t) [0..<n]"
proof (induction n arbitrary: rl t)
  case 0
  then show ?case by simp
next
  case (Suc n)
  have ref: "refilled now rl = Fin t"
    using Suc.prems by (intro refilled_same_time) auto
  have upt: "[0..<Suc n] = 0 # map Suc [0..<n]" by (simp only: map_Suc_upt upt_conv_Cons)
  show ?case
  proof (cases "1 \<le> t")
    case True
    have "representable (t - 1)" using True Suc.prems by (intro representable_minus_1) auto
    then have "f_sub (Fin t) (Fin 1) = Fin (t - 1)"
      using f_sub_1(1) [of t] True Suc.prems by (simp add: rnd_representable)
    then have step: "allow now rl = (True, rl\<lparr>rl_tokens := Fin (t - 1), rl_last := now\<rparr>)"
      using True by (simp add: allow_refilled ref)
    have "fst (allow_all (replicate n now) (rl\<lparr>rl_tokens := Fin (t - 1), rl_last := now\<rparr>)) =
        map (\<lambda>i. of_nat i + 1 \<le> t - 1) [0..<n]"
      using Suc.prems True \<open>representable (t - 1)\<close>
      by (intro Suc.IH) auto
    then show ?thesis
      unfolding upt using step True by (simp add: split_beta comp_def algebra_simps)
  next
    case False
    then have step: "allow now rl = (False, rl\<lparr>rl_tokens := Fin t, rl_last := now\<rparr>)"
      by (simp add: allow_refilled ref)
    have "fst (allow_all (replicate n now) (rl\<lparr>rl_tokens := Fin t, rl_last := now\<rparr>)) =
        map (\<lambda>i. of_nat i + 1 \<le> t) [0..<n]"
      using Suc.prems by (intro Suc.IH) auto
    moreover have "\<not> of_nat i + 1 \<le> t" for i using False by (simp add: not_le add_strict_increasing2)
    ultimately show ?thesis
      unfolding upt using step False by (simp add: split_beta comp_def)
  qed
qed

section \<open>Properties\<close>

text \<open>C26: The limiter keeps its bucket between empty and full: a new limiter with finite
  settings does, and every run of calls at times that never go back keeps the level
  between 0 and the ceiling, with the ceiling and the rate unchanged.\<close>

theorem limiter_bounds:
  assumes "0 < r" "r < 2 ^ 1024" "0 \<le> b" "b < 2 ^ 1024" "representable r" "representable b"
    and "sorted (now # ts)"
  shows "bucket_ok (snd (allow_all ts (newRateLimiter (Fin r) (Fin b) now))) \<and>
    rl_max (snd (allow_all ts (newRateLimiter (Fin r) (Fin b) now))) =
      Fin (max 1 (if b = 0 then r else b))"
proof -
  have run: "bucket_ok rl \<Longrightarrow> rl_max rl = Fin m \<Longrightarrow> sorted (rl_last rl # ts) \<Longrightarrow>
      bucket_ok (snd (allow_all ts rl)) \<and> rl_max (snd (allow_all ts rl)) = Fin m" for rl m ts
  proof (induction ts arbitrary: rl)
    case (Cons t ts)
    have "bucket_ok (snd (allow t rl)) \<and> rl_max (snd (allow t rl)) = Fin m \<and> rl_last (snd (allow t rl)) = t"
      using allow_ok [of rl t m] Cons.prems by simp
    then show ?case using Cons.IH [of "snd (allow t rl)"] Cons.prems(3)
      by (auto split: prod.split)
  qed simp
  have "rl_max (newRateLimiter (Fin r) (Fin b) now) = Fin (max 1 (if b = 0 then r else b))"
    "rl_last (newRateLimiter (Fin r) (Fin b) now) = now"
    using assms(1,3) by (auto simp: newRateLimiter_def Let_def)
  then show ?thesis using run newRateLimiter_ok assms by presburger
qed

lemma limiter_bounds_witness:
  "bucket_ok (snd (allow_all [5, 1000000005] (newRateLimiter (Fin 10) (Fin 20) 5)))"
  using limiter_bounds [of 10 20 5 "[5, 1000000005]"] representable_int [of 10] representable_int [of 20]
  by simp

text \<open>With no time passing, a new limiter grants exactly the first calls up to its burst
  (the rate when no burst is set, and at least one) and refuses the rest.\<close>

theorem limiter_burst:
  assumes "0 < r" "r \<le> 2 ^ 53" "0 \<le> b" "b \<le> 2 ^ 53" "representable r" "representable b"
  shows "fst (allow_all (replicate n now) (newRateLimiter (Fin r) (Fin b) now)) =
    map (\<lambda>i. of_nat i + 1 \<le> max 1 (if b = 0 then r else b)) [0..<n]"
proof -
  define t where "t = max 1 (if b = 0 then r else b)"
  have t: "rl_tokens (newRateLimiter (Fin r) (Fin b) now) = Fin t"
    "rl_max (newRateLimiter (Fin r) (Fin b) now) = Fin t"
    "rl_refill (newRateLimiter (Fin r) (Fin b) now) = Fin r"
    "rl_last (newRateLimiter (Fin r) (Fin b) now) = now"
    using assms(1,3) by (auto simp: newRateLimiter_def Let_def t_def)
  have "representable t" "0 \<le> t" "t \<le> 2 ^ 53" "t < 2 ^ 1024"
    using assms representable_int [of 1] by (auto simp: t_def max_def)
  then show ?thesis using burst_grants [OF t] by (simp add: t_def)
qed

lemma limiter_burst_witness:
  "fst (allow_all (replicate 4 7) (newRateLimiter (Fin 10) (Fin 2) 7)) = [True, True, False, False]"
  using limiter_burst [of 10 2 4 7] representable_int [of 10] representable_int [of 2]
  by (simp add: upt_rec)

text \<open>A burst of NaN, which \<open>strconv.ParseFloat\<close> accepts and \<open>validate\<close> does not look
  at, makes a limiter that refuses every request, although \<open>newRateLimiter\<close> sets out to
  rule such a bucket out.\<close>

theorem limiter_nan_burst:
  "fst (allow_all ts (newRateLimiter rps NaN now)) = replicate (length ts) False"
proof -
  have "rl_tokens rl = NaN \<Longrightarrow> fst (allow_all ts rl) = replicate (length ts) False" for rl
  proof (induction ts arbitrary: rl)
    case (Cons t ts)
    have "f_add NaN y = NaN" for y by (cases y) simp_all
    then have "allow t rl = (False, rl\<lparr>rl_tokens := NaN, rl_last := t\<rparr>)"
      using Cons.prems by (cases "rl_max rl") (simp_all add: allow_def Let_def)
    then show ?case using Cons.IH [of "rl\<lparr>rl_tokens := NaN, rl_last := t\<rparr>"]
      by (simp add: case_prod_beta)
  qed simp
  then show ?thesis by (simp add: newRateLimiter_def Let_def)
qed

end
