(* ===== verification/Json.thy ===== *)
theory Json
  imports GoStrings
begin

text \<open>
  What the program uses of \<open>encoding/json\<close>: the scanner (the state machine of
  \<open>scanner.go\<close>), \<open>Valid\<close>, the streaming \<open>Decoder\<close> on raw values, string literals in both
  directions, and the members of an object.
\<close>

section \<open>The scanner\<close>

datatype pstate = ParseObjectKey | ParseObjectValue | ParseArrayValue

text \<open>\<open>Lit cs\<close> expects the rest of \<open>true\<close>, \<open>false\<close> or \<open>null\<close>; \<open>InEscU n\<close> expects \<open>n\<close> more
  hexadecimal digits; \<open>Failed\<close> is \<open>stateError\<close>.\<close>

datatype sstate =
    BeginValue | BeginValueOrEmpty | BeginString | BeginStringOrEmpty | EndValue | EndTop
  | InString | InEsc | InEscU nat | Neg | Num1 | Num0 | Dot | Dot0 | Exp | ExpSign | Exp0
  | Lit string | Failed

type_synonym scanner = "sstate \<times> pstate list"

datatype sop =
    ScanContinue | ScanBeginLiteral | ScanBeginObject | ScanObjectKey | ScanObjectValue
  | ScanEndObject | ScanBeginArray | ScanArrayValue | ScanEndArray | ScanSkipSpace
  | ScanEnd | ScanError

definition maxNestingDepth :: nat where
  "maxNestingDepth = 10000"

definition is_space :: "char \<Rightarrow> bool" where
  "is_space c \<longleftrightarrow> c = CHR '' '' \<or> c = CHR 0x09 \<or> c = CHR 0x0D \<or> c = CHR 0x0A"

definition is_hex :: "char \<Rightarrow> bool" where
  "is_hex c \<longleftrightarrow> digit c \<or> c \<in> set ''abcdefABCDEF''"

abbreviation failed :: "sop \<times> scanner" where
  "failed \<equiv> (ScanError, (Failed, []))"

definition push :: "pstate \<Rightarrow> sop \<Rightarrow> sstate \<Rightarrow> pstate list \<Rightarrow> sop \<times> scanner" where
  "push p op st ps = (if length ps < maxNestingDepth then (op, (st, p # ps)) else failed)"

definition pop :: "sop \<Rightarrow> pstate list \<Rightarrow> sop \<times> scanner" where
  "pop op ps = (op, (if ps = [] then EndTop else EndValue, ps))"

fun end_value :: "char \<Rightarrow> pstate list \<Rightarrow> sop \<times> scanner" where
  "end_value c [] = (ScanEnd, (if is_space c then EndTop else Failed, []))"
| "end_value c (p # ps) =
     (if is_space c then (ScanSkipSpace, (EndValue, p # ps))
      else case p of
        ParseObjectKey \<Rightarrow>
          if c = CHR '':'' then (ScanObjectKey, (BeginValue, ParseObjectValue # ps)) else failed
      | ParseObjectValue \<Rightarrow>
          if c = CHR '','' then (ScanObjectValue, (BeginString, ParseObjectKey # ps))
          else if c = CHR ''}'' then pop ScanEndObject ps else failed
      | ParseArrayValue \<Rightarrow>
          if c = CHR '','' then (ScanArrayValue, (BeginValue, ParseArrayValue # ps))
          else if c = CHR '']'' then pop ScanEndArray ps else failed)"

definition begin_value :: "char \<Rightarrow> pstate list \<Rightarrow> sop \<times> scanner" where
  "begin_value c ps =
     (if is_space c then (ScanSkipSpace, (BeginValue, ps))
      else if c = CHR ''{'' then push ParseObjectKey ScanBeginObject BeginStringOrEmpty ps
      else if c = CHR ''['' then push ParseArrayValue ScanBeginArray BeginValueOrEmpty ps
      else if c = CHR 0x22 then (ScanBeginLiteral, (InString, ps))
      else if c = CHR ''-'' then (ScanBeginLiteral, (Neg, ps))
      else if c = CHR ''0'' then (ScanBeginLiteral, (Num0, ps))
      else if c = CHR ''t'' then (ScanBeginLiteral, (Lit ''rue'', ps))
      else if c = CHR ''f'' then (ScanBeginLiteral, (Lit ''alse'', ps))
      else if c = CHR ''n'' then (ScanBeginLiteral, (Lit ''ull'', ps))
      else if digit c then (ScanBeginLiteral, (Num1, ps))
      else failed)"

definition begin_string :: "sstate \<Rightarrow> char \<Rightarrow> pstate list \<Rightarrow> sop \<times> scanner" where
  "begin_string self c ps =
     (if is_space c then (ScanSkipSpace, (self, ps))
      else if c = CHR 0x22 then (ScanBeginLiteral, (InString, ps))
      else failed)"

definition state0 :: "char \<Rightarrow> pstate list \<Rightarrow> sop \<times> scanner" where
  "state0 c ps =
     (if c = CHR ''.'' then (ScanContinue, (Dot, ps))
      else if c = CHR ''e'' \<or> c = CHR ''E'' then (ScanContinue, (Exp, ps))
      else end_value c ps)"

fun scan_step :: "char \<Rightarrow> scanner \<Rightarrow> sop \<times> scanner" where
  "scan_step c (BeginValue, ps) = begin_value c ps"
| "scan_step c (BeginValueOrEmpty, ps) =
     (if is_space c then (ScanSkipSpace, (BeginValueOrEmpty, ps))
      else if c = CHR '']'' then end_value c ps
      else begin_value c ps)"
| "scan_step c (BeginString, ps) = begin_string BeginString c ps"
| "scan_step c (BeginStringOrEmpty, ps) =
     (if c = CHR ''}'' then
        (case ps of [] \<Rightarrow> failed | _ # qs \<Rightarrow> end_value c (ParseObjectValue # qs))
      else begin_string BeginStringOrEmpty c ps)"
| "scan_step c (EndValue, ps) = end_value c ps"
| "scan_step c (EndTop, ps) = (ScanEnd, (if is_space c then EndTop else Failed, []))"
| "scan_step c (InString, ps) =
     (if c = CHR 0x22 then (ScanContinue, (EndValue, ps))
      else if c = CHR 0x5C then (ScanContinue, (InEsc, ps))
      else if byte_of c < 0x20 then failed
      else (ScanContinue, (InString, ps)))"
| "scan_step c (InEsc, ps) =
     (if c \<in> set ''bfnrt/'' \<or> c = CHR 0x5C \<or> c = CHR 0x22 then (ScanContinue, (InString, ps))
      else if c = CHR ''u'' then (ScanContinue, (InEscU 4, ps))
      else failed)"
| "scan_step c (InEscU n, ps) =
     (if is_hex c then (ScanContinue, (if n \<le> 1 then InString else InEscU (n - 1), ps)) else failed)"
| "scan_step c (Neg, ps) =
     (if c = CHR ''0'' then (ScanContinue, (Num0, ps))
      else if digit c then (ScanContinue, (Num1, ps))
      else failed)"
| "scan_step c (Num1, ps) =
     (if digit c then (ScanContinue, (Num1, ps)) else state0 c ps)"
| "scan_step c (Num0, ps) = state0 c ps"
| "scan_step c (Dot, ps) = (if digit c then (ScanContinue, (Dot0, ps)) else failed)"
| "scan_step c (Dot0, ps) =
     (if digit c then (ScanContinue, (Dot0, ps))
      else if c = CHR ''e'' \<or> c = CHR ''E'' then (ScanContinue, (Exp, ps))
      else end_value c ps)"
| "scan_step c (Exp, ps) =
     (if c = CHR ''+'' \<or> c = CHR ''-'' then (ScanContinue, (ExpSign, ps))
      else if digit c then (ScanContinue, (Exp0, ps)) else failed)"
| "scan_step c (ExpSign, ps) = (if digit c then (ScanContinue, (Exp0, ps)) else failed)"
| "scan_step c (Exp0, ps) =
     (if digit c then (ScanContinue, (Exp0, ps)) else end_value c ps)"
| "scan_step c (Lit cs, ps) =
     (case cs of
        [] \<Rightarrow> end_value c ps
      | d # ds \<Rightarrow>
          if c = d then (ScanContinue, (if ds = [] then EndValue else Lit ds, ps)) else failed)"
| "scan_step c (Failed, ps) = failed"

abbreviation scan_start :: scanner where
  "scan_start \<equiv> (BeginValue, [])"

text \<open>\<open>scanner.eof\<close>: a complete top-level value has been read.\<close>

definition scan_eof :: "scanner \<Rightarrow> bool" where
  "scan_eof sc \<longleftrightarrow> fst sc = EndTop \<or> fst (snd (scan_step CHR '' '' sc)) = EndTop"

fun scan_all :: "scanner \<Rightarrow> string \<Rightarrow> scanner option" where
  "scan_all sc [] = Some sc"
| "scan_all sc (c # cs) =
     (case scan_step c sc of (ScanError, _) \<Rightarrow> None | (_, sc') \<Rightarrow> scan_all sc' cs)"

definition json_valid :: "string \<Rightarrow> bool" where
  "json_valid s \<longleftrightarrow> (case scan_all scan_start s of None \<Rightarrow> False | Some sc \<Rightarrow> scan_eof sc)"

section \<open>Decoder: one raw value from a stream\<close>

text \<open>\<open>Decoder.readValue\<close>: the value (with leading blanks) and what follows it; \<open>ReadEOF\<close>
  is \<open>io.EOF\<close>, \<open>ReadBad\<close> any other error.\<close>

datatype read_value = ReadOk string string | ReadEOF | ReadBad

fun read_value_aux :: "scanner \<Rightarrow> string \<Rightarrow> string \<Rightarrow> read_value" where
  "read_value_aux sc acc [] =
     (if fst (scan_step CHR '' '' sc) = ScanEnd then ReadOk (rev acc) []
      else if list_all is_space acc then ReadEOF else ReadBad)"
| "read_value_aux sc acc (c # cs) =
     (case scan_step c sc of (op, sc') \<Rightarrow>
        if op = ScanEnd then ReadOk (rev acc) (c # cs)
        else if (op = ScanEndObject \<or> op = ScanEndArray) \<and> snd sc' = [] then ReadOk (rev (c # acc)) cs
        else if op = ScanError then ReadBad
        else read_value_aux sc' (c # acc) cs)"

definition read_raw :: "string \<Rightarrow> read_value" where
  "read_raw s =
     (case read_value_aux scan_start [] s of
        ReadOk v rest \<Rightarrow> ReadOk (dropWhile is_space v) rest | r \<Rightarrow> r)"

section \<open>String literals\<close>

definition encode_rune :: "nat \<Rightarrow> string" where
  "encode_rune n =
     (if n < 0x80 then [char_of n]
      else if n < 0x800 then [char_of (0xC0 + n div 64), char_of (0x80 + n mod 64)]
      else if 0xD800 \<le> n \<and> n < 0xE000 then replacement_char
      else if n < 0x10000 then
        [char_of (0xE0 + n div 4096), char_of (0x80 + n div 64 mod 64), char_of (0x80 + n mod 64)]
      else
        [char_of (0xF0 + n div 262144), char_of (0x80 + n div 4096 mod 64),
         char_of (0x80 + n div 64 mod 64), char_of (0x80 + n mod 64)])"

definition hex_val :: "char \<Rightarrow> nat" where
  "hex_val c = (if digit c then byte_of c - 48 else byte_of (lower_byte c) - 87)"

fun get_u4 :: "string \<Rightarrow> nat option" where
  "get_u4 (b # u # c1 # c2 # c3 # c4 # _) =
     (if b = CHR 0x5C \<and> u = CHR ''u'' \<and> is_hex c1 \<and> is_hex c2 \<and> is_hex c3 \<and> is_hex c4
      then Some (((hex_val c1 * 16 + hex_val c2) * 16 + hex_val c3) * 16 + hex_val c4)
      else None)"
| "get_u4 _ = None"

definition simple_escape :: "char \<Rightarrow> char option" where
  "simple_escape c =
     (if c = CHR 0x22 \<or> c = CHR 0x5C \<or> c = CHR ''/'' \<or> c = CHR 0x27 then Some c
      else if c = CHR ''b'' then Some (CHR 0x08)
      else if c = CHR ''f'' then Some (CHR 0x0C)
      else if c = CHR ''n'' then Some (CHR 0x0A)
      else if c = CHR ''r'' then Some (CHR 0x0D)
      else if c = CHR ''t'' then Some (CHR 0x09)
      else None)"

text \<open>A \<open>\\u\<close> escape at the head: the bytes it stands for and how many bytes it takes,
  12 for a surrogate pair.\<close>

definition u_escape :: "string \<Rightarrow> (string \<times> nat) option" where
  "u_escape s =
     (case get_u4 s of
        None \<Rightarrow> None
      | Some r \<Rightarrow>
          if 0xD800 \<le> r \<and> r < 0xE000 then
            (case get_u4 (drop 6 s) of
               Some r1 \<Rightarrow>
                 if r < 0xDC00 \<and> 0xDC00 \<le> r1 \<and> r1 < 0xE000
                 then Some (encode_rune ((r - 0xD800) * 1024 + (r1 - 0xDC00) + 0x10000), 12)
                 else Some (replacement_char, 6)
             | None \<Rightarrow> Some (replacement_char, 6))
          else Some (encode_rune r, 6))"

function unquote_body :: "string \<Rightarrow> string option" where
  "unquote_body [] = Some []"
| "unquote_body (c # cs) =
     (if c = CHR 0x5C then
        (case cs of
           [] \<Rightarrow> None
         | e # r \<Rightarrow>
             if e = CHR ''u'' then
               (case u_escape (c # cs) of
                  None \<Rightarrow> None
                | Some (out, n) \<Rightarrow> map_option ((@) out) (unquote_body (drop (n - 1) cs)))
             else
               (case simple_escape e of
                  None \<Rightarrow> None | Some b \<Rightarrow> map_option ((#) b) (unquote_body r)))
      else if c = CHR 0x22 \<or> byte_of c < 0x20 then None
      else if byte_of c < 0x80 then map_option ((#) c) (unquote_body cs)
      else
        (let n = rune_len (c # cs) in
         if n = 0 then map_option ((@) replacement_char) (unquote_body cs)
         else map_option ((@) (take n (c # cs))) (unquote_body (drop (n - 1) cs))))"
  by pat_completeness auto
termination
  by (relation "measure length") auto

text \<open>A whole literal, quotes included.\<close>

definition unquote :: "string \<Rightarrow> string option" where
  "unquote s =
     (if 2 \<le> length s \<and> hd s = CHR 0x22 \<and> last s = CHR 0x22 then unquote_body (butlast (tl s))
      else None)"

definition hex_char :: "nat \<Rightarrow> char" where
  "hex_char n = (if n < 10 then char_of (48 + n) else char_of (87 + n))"

definition escape_u00 :: "char \<Rightarrow> string" where
  "escape_u00 b = [CHR 0x5C, CHR ''u'', CHR ''0'', CHR ''0'', hex_char (byte_of b div 16), hex_char (byte_of b mod 16)]"

text \<open>\<open>appendString\<close>: one ASCII byte, then one token of the string; \<open>html\<close> is the
  encoder's \<open>escapeHTML\<close>.\<close>

definition escape_byte :: "bool \<Rightarrow> char \<Rightarrow> string" where
  "escape_byte html b =
     (if b = CHR 0x22 \<or> b = CHR 0x5C then [CHR 0x5C, b]
      else if b = CHR 0x08 then [CHR 0x5C, CHR ''b'']
      else if b = CHR 0x0C then [CHR 0x5C, CHR ''f'']
      else if b = CHR 0x0A then [CHR 0x5C, CHR ''n'']
      else if b = CHR 0x0D then [CHR 0x5C, CHR ''r'']
      else if b = CHR 0x09 then [CHR 0x5C, CHR ''t'']
      else if byte_of b < 0x20 \<or> (html \<and> b \<in> set ''<>&'') then escape_u00 b
      else [b])"

fun escape_tok :: "bool \<Rightarrow> utok \<Rightarrow> string" where
  "escape_tok html (Rune r) =
     (if length r = 1 then escape_byte html (hd r)
      else if r = [CHR 0xE2, CHR 0x80, CHR 0xA8] then [CHR 0x5C] @ ''u2028''
      else if r = [CHR 0xE2, CHR 0x80, CHR 0xA9] then [CHR 0x5C] @ ''u2029''
      else r)"
| "escape_tok html (Stray b) = [CHR 0x5C] @ ''ufffd''"

definition quote_body :: "bool \<Rightarrow> string \<Rightarrow> string" where
  "quote_body html s = concat (map (escape_tok html) (scan_utf8 s))"

definition quote :: "bool \<Rightarrow> string \<Rightarrow> string" where
  "quote html s = CHR 0x22 # quote_body html s @ [CHR 0x22]"

section \<open>The members of an object\<close>

text \<open>\<open>Unmarshal\<close> of an object: the raw key and value of every member, in order; \<open>fuel\<close> is
  the text's length.\<close>

fun skip_spaces :: "string \<Rightarrow> string" where
  "skip_spaces s = dropWhile is_space s"

fun object_members :: "nat \<Rightarrow> string \<Rightarrow> (string \<times> string) list option" where
  "object_members 0 s = None"
| "object_members (Suc fuel) s =
     (case read_raw s of
        ReadOk k r1 \<Rightarrow>
          (case skip_spaces r1 of
             c # r2 \<Rightarrow>
               if c \<noteq> CHR '':'' then None
               else (case read_raw r2 of
                 ReadOk v r3 \<Rightarrow>
                   (case skip_spaces r3 of
                      d # r4 \<Rightarrow>
                        if d = CHR '','' then map_option ((#) (k, v)) (object_members fuel r4)
                        else if d = CHR ''}'' then Some [(k, v)] else None
                    | [] \<Rightarrow> None)
               | _ \<Rightarrow> None)
           | [] \<Rightarrow> None)
      | _ \<Rightarrow> None)"

definition members :: "string \<Rightarrow> (string \<times> string) list option" where
  "members s =
     (case s of
        [] \<Rightarrow> None
      | c # cs \<Rightarrow>
          if c \<noteq> CHR ''{'' then None
          else (case skip_spaces cs of
                  [] \<Rightarrow> None
                | d # _ \<Rightarrow> if d = CHR ''}'' then Some [] else object_members (length s) cs))"

text \<open>\<open>foldName\<close>: ASCII letters in upper case, and the two non-ASCII code points that fold
  to one (U+017F to S, U+212A to K).\<close>

definition upper_byte :: "char \<Rightarrow> char" where
  "upper_byte c = (if 97 \<le> byte_of c \<and> byte_of c \<le> 122 then char_of (byte_of c - 32) else c)"

fun fold_name :: "string \<Rightarrow> string" where
  "fold_name [] = []"
| "fold_name (c # cs) =
     (if prefix [CHR 0xC5, CHR 0xBF] (c # cs) then CHR ''S'' # fold_name (drop 1 cs)
      else if prefix [CHR 0xE2, CHR 0x84, CHR 0xAA] (c # cs) then CHR ''K'' # fold_name (drop 2 cs)
      else upper_byte c # fold_name cs)"

end
