(* ===== verification/Row.thy ===== *)
theory Row
  imports Json
begin

text \<open>
  \<open>row\<close> of \<open>gateway/validate.go\<close> and its encoding by \<open>json.Encoder\<close> with
  \<open>SetEscapeHTML(false)\<close>, as \<open>enqueue\<close> uses it (the newline \<open>Encode\<close> appends is cut off there).
\<close>

record row =
  row_timestamp :: string
  row_project :: string
  row_level :: string
  row_message :: string
  row_context :: string
  row_source_ip :: string

definition json_member :: "string \<Rightarrow> string \<Rightarrow> string" where
  "json_member k v = quote False k @ '':'' @ quote False v"

definition row_members :: "row \<Rightarrow> (string \<times> string) list" where
  "row_members r =
     (if row_timestamp r = [] then [] else [(''timestamp'', row_timestamp r)]) @
     [(''project'', row_project r), (''level'', row_level r), (''message'', row_message r),
      (''context'', row_context r), (''source_ip'', row_source_ip r)]"

definition encode_row :: "row \<Rightarrow> string" where
  "encode_row r = ''{'' @ join '','' (map (\<lambda>(k, v). json_member k v) (row_members r)) @ ''}''"

end
