(* ===== verification/JsonFacts.thy ===== *)
theory JsonFacts
  imports Row
begin

text \<open>
  Facts about the JSON layer: what the encoder writes (no control byte, at most six bytes
  for one, one string literal for the scanner), that decoding a literal gives the string
  back, that an encoded row is one valid JSON value with the row's members, and that
  sanitising invalid UTF-8 keeps a text valid JSON.
\<close>

section \<open>Scanning a concatenation\<close>

lemma scan_all_append:
  "scan_all sc (s @ t) = (case scan_all sc s of None \<Rightarrow> None | Some sc' \<Rightarrow> scan_all sc' t)"
  by (induction s arbitrary: sc) (auto split: prod.splits sop.splits)

definition scans :: "scanner \<Rightarrow> string \<Rightarrow> scanner \<Rightarrow> bool" where
  "scans sc s sc' \<longleftrightarrow> scan_all sc s = Some sc'"

lemma scans_Nil [json_simps]: "scans sc [] sc' \<longleftrightarrow> sc = sc'"
  by (simp add: scans_def)

lemma scans_append: "scans a s b \<Longrightarrow> scans b t c \<Longrightarrow> scans a (s @ t) c"
  by (simp add: scans_def scan_all_append)

lemma scans_Cons: "scan_step c a = (op, b) \<Longrightarrow> op \<noteq> ScanError \<Longrightarrow> scans b s d \<Longrightarrow> scans a (c # s) d"
  by (cases op) (simp_all add: scans_def)

lemma scans_concat: "(\<And>x. x \<in> set xs \<Longrightarrow> scans a x a) \<Longrightarrow> scans a (concat xs) a"
  by (induction xs) (auto simp: scans_Nil intro: scans_append)

section \<open>Tokens\<close>

lemma tok_cases:
  assumes "tok_ok t"
  obtains (ascii) b where "t = Rune [b]" "byte_of b < 0x80"
  | (multi) r where "t = Rune r" "2 \<le> length r" "rune_len r = length r" "\<And>c. c \<in> set r \<Longrightarrow> 0x80 \<le> byte_of c"
  | (stray) b where "t = Stray b" "0x80 \<le> byte_of b"
proof (cases t)
  case (Stray b)
  then show ?thesis using assms stray by simp
next
  case (Rune r)
  then have r: "r \<noteq> []" "rune_len r = length r" using assms by auto
  show ?thesis
  proof (cases "length r = 1")
    case True
    then obtain b where b: "r = [b]" by (cases r) auto
    then have "byte_of b < 0x80" using r(2) by (auto simp: Let_def split: if_splits)
    then show ?thesis using ascii b Rune by blast
  next
    case False
    moreover have "0 < length r" using r(1) by simp
    ultimately have len: "2 \<le> length r" by linarith
    then have "0x80 \<le> byte_of c" if "c \<in> set r" for c
      using rune_len_multi [OF r(2), of c] that by simp
    then show ?thesis using multi Rune r(2) len by blast
  qed
qed

lemma hex_char_byte [simp]: "n < 16 \<Longrightarrow> byte_of (hex_char n) = (if n < 10 then 48 + n else 87 + n)"
  by (auto simp: hex_char_def)

lemma hex_char_hex [simp]:
  assumes "n < 16"
  shows "is_hex (hex_char n)" "hex_val (hex_char n) = n"
proof -
  have "n < 10 \<or> n \<in> {10, 11, 12, 13, 14, 15}" using assms by auto
  then show "is_hex (hex_char n)" "hex_val (hex_char n) = n"
    by (auto simp: is_hex_def hex_val_def hex_char_def digit_def lower_byte_def char_of_eq_iff)
qed

lemma byte_div16 [simp]: "byte_of b div 16 < 16"
  using byte_of_less [of b] by linarith

section \<open>What the encoder writes\<close>

lemma hex_char_printable: "n < 16 \<Longrightarrow> 0x20 \<le> byte_of (hex_char n)"
  by simp

lemma escape_byte_printable: "c \<in> set (escape_byte html b) \<Longrightarrow> 0x20 \<le> byte_of c"
proof -
  have "list_all (\<lambda>c. 0x20 \<le> byte_of c) (escape_byte html b)"
    by (simp add: escape_byte_def escape_u00_def hex_char_printable del: hex_char_byte)
  then show "c \<in> set (escape_byte html b) \<Longrightarrow> 0x20 \<le> byte_of c" by (simp add: list_all_iff)
qed

lemma escape_tok_printable:
  "tok_ok t \<Longrightarrow> c \<in> set (escape_tok html t) \<Longrightarrow> 0x20 \<le> byte_of c"
  by (erule tok_cases) (fastforce simp: escape_byte_printable split: if_splits)+

lemma quote_body_printable: "c \<in> set (quote_body html s) \<Longrightarrow> 0x20 \<le> byte_of c"
  using scan_utf8_ok [of s] by (auto simp: quote_body_def list_all_iff intro: escape_tok_printable)

lemma quote_printable: "c \<in> set (quote html s) \<Longrightarrow> 0x20 \<le> byte_of c"
  by (auto simp: quote_def quote_body_printable)

lemma escape_tok_length: "tok_ok t \<Longrightarrow> length (escape_tok html t) \<le> 6 * length (tok_bytes t)"
  by (erule tok_cases) (auto simp: escape_byte_def escape_u00_def)

lemma quote_length: "length (quote html s) \<le> 6 * length s + 2"
proof -
  have "length (concat (map (escape_tok html) ts)) \<le> 6 * length (concat (map tok_bytes ts))"
    if "list_all tok_ok ts" for ts
    using that
  proof (induction ts)
    case (Cons t ts)
    then show ?case using escape_tok_length [of t html] by simp
  qed simp
  from this [OF scan_utf8_ok [of s]] show ?thesis by (simp add: quote_def quote_body_def scan_utf8_bytes)
qed

section \<open>The scanner accepts what the encoder writes\<close>

lemma hex_lits [simp]:
  "is_hex CHR ''0''" "is_hex CHR ''2''" "is_hex CHR ''8''" "is_hex CHR ''9''"
  "is_hex CHR ''d''" "is_hex CHR ''f''"
  "hex_val CHR ''0'' = 0" "hex_val CHR ''2'' = 2" "hex_val CHR ''8'' = 8" "hex_val CHR ''9'' = 9"
  "hex_val CHR ''d'' = 13" "hex_val CHR ''f'' = 15"
  by (simp_all add: is_hex_def hex_val_def digit_def lower_byte_def)

lemma byte_ge_neq: "0x80 \<le> byte_of c \<Longrightarrow> byte_of d < 0x80 \<Longrightarrow> c \<noteq> d"
  by auto

lemma scans_high:
  "(\<And>c. c \<in> set s \<Longrightarrow> 0x80 \<le> byte_of c) \<Longrightarrow> scans (InString, ps) s (InString, ps)"
proof (induction s)
  case (Cons c s)
  then have "0x80 \<le> byte_of c" by simp
  then have "scan_step c (InString, ps) = (ScanContinue, (InString, ps))" by auto
  then show ?case using Cons scans_Cons by auto
qed (simp add: scans_def)

lemma scans_escape_byte: "byte_of b < 0x80 \<Longrightarrow> scans (InString, ps) (escape_byte html b) (InString, ps)"
  by (simp add: escape_byte_def escape_u00_def scans_def)

lemma scans_escape_tok: "tok_ok t \<Longrightarrow> scans (InString, ps) (escape_tok html t) (InString, ps)"
proof (erule tok_cases)
  fix b assume "t = Rune [b]" "byte_of b < 0x80"
  then show ?thesis by (simp add: scans_escape_byte)
next
  fix r assume "t = Rune r" "2 \<le> length r" and high: "\<And>c. c \<in> set r \<Longrightarrow> 0x80 \<le> byte_of c"
  moreover have "scans (InString, ps) r (InString, ps)" by (rule scans_high) (rule high)
  ultimately show ?thesis by (simp add: scans_def)
next
  fix b assume "t = Stray b"
  then show ?thesis by (simp add: scans_def)
qed

lemma scans_quote_body: "scans (InString, ps) (quote_body html s) (InString, ps)"
  unfolding quote_body_def
  using scan_utf8_ok [of s] by (intro scans_concat) (auto simp: list_all_iff intro: scans_escape_tok)

lemma scans_string:
  assumes "scan_step CHR 0x22 a = (ScanBeginLiteral, (InString, ps))"
  shows "scans a (quote html s) (EndValue, ps)"
  unfolding quote_def
  by (rule scans_Cons [OF assms], simp, rule scans_append [OF scans_quote_body]) (simp add: scans_def)

section \<open>Decoding a literal gives the string back\<close>

fun tok_text :: "utok \<Rightarrow> string" where
  "tok_text (Rune r) = r"
| "tok_text (Stray b) = replacement_char"

lemma unquote_u00:
  assumes "byte_of b < 0x80"
  shows "unquote_body (escape_u00 b @ rest) = map_option ((#) b) (unquote_body rest)"
proof -
  have "(byte_of b div 16) * 16 + byte_of b mod 16 = byte_of b" by simp
  then have "u_escape (escape_u00 b @ rest) = Some ([b], 6)"
    using assms by (simp add: escape_u00_def u_escape_def encode_rune_def)
  then show ?thesis by (simp add: escape_u00_def) (metis append_Cons append_Nil)
qed

lemma unquote_byte:
  assumes "byte_of b < 0x80"
  shows "unquote_body (escape_byte html b @ rest) = map_option ((#) b) (unquote_body rest)"
proof (cases "escape_byte html b = escape_u00 b")
  case True
  then show ?thesis by (simp only: unquote_u00 [OF assms])
next
  case False
  then show ?thesis using assms
    by (auto simp: escape_byte_def simple_escape_def Let_def split: if_splits)
qed

lemma unquote_rune:
  assumes "2 \<le> length r" "rune_len r = length r" "\<And>c. c \<in> set r \<Longrightarrow> 0x80 \<le> byte_of c"
  shows "unquote_body (r @ rest) = map_option ((@) r) (unquote_body rest)"
proof -
  obtain c cs where r: "r = c # cs" using assms(1) by (cases r) auto
  then have c: "0x80 \<le> byte_of c" using assms(3) by simp
  then have "c \<noteq> CHR 0x5C" "c \<noteq> CHR 0x22" "\<not> byte_of c < 0x20" by auto
  moreover have "rune_len (c # cs @ rest) = length r"
    using rune_len_append [of r rest] assms(1,2) r by auto
  ultimately show ?thesis
    using c r by (simp add: Let_def del: rune_len.simps)
qed

lemma unquote_tok:
  assumes "tok_ok t"
  shows "unquote_body (escape_tok html t @ rest) = map_option ((@) (tok_text t)) (unquote_body rest)"
  using assms
proof (cases rule: tok_cases)
  case (ascii b)
  moreover have "((#) b) = ((@) [b])" by (rule ext) simp
  ultimately show ?thesis by (simp add: unquote_byte)
next
  case (multi r)
  have chars: "char_of (226 :: nat) = CHR 0xE2" "char_of (128 :: nat) = CHR 0x80"
    "char_of (168 :: nat) = CHR 0xA8" "char_of (169 :: nat) = CHR 0xA9"
    by (simp_all add: char_of_eq_iff)
  have "unquote_body ([CHR 0x5C] @ ''u2028'' @ rest) =
      map_option ((@) [CHR 0xE2, CHR 0x80, CHR 0xA8]) (unquote_body rest)"
    "unquote_body ([CHR 0x5C] @ ''u2029'' @ rest) =
      map_option ((@) [CHR 0xE2, CHR 0x80, CHR 0xA9]) (unquote_body rest)"
    by (simp_all add: u_escape_def encode_rune_def chars)
  then show ?thesis using multi unquote_rune [OF multi(2-4)] by simp
next
  case (stray b)
  have "char_of (239 :: nat) = CHR 0xEF" "char_of (191 :: nat) = CHR 0xBF" "char_of (189 :: nat) = CHR 0xBD"
    by (simp_all add: char_of_eq_iff)
  then show ?thesis using stray
    by (simp add: u_escape_def encode_rune_def replacement_char_def)
qed

lemma unquote_quote_body:
  "unquote_body (quote_body html s) = Some (concat (map tok_text (scan_utf8 s)))"
proof -
  have "unquote_body (concat (map (escape_tok html) ts)) = Some (concat (map tok_text ts))"
    if "list_all tok_ok ts" for ts
    using that by (induction ts) (simp_all add: unquote_tok)
  then show ?thesis by (simp add: quote_body_def scan_utf8_ok)
qed

lemma unquote_quote_gen: "unquote (quote html s) = Some (concat (map tok_text (scan_utf8 s)))"
  by (simp add: unquote_def quote_def unquote_quote_body butlast_append)

lemma unquote_quote [json_simps]:
  assumes "utf8_valid s"
  shows "unquote (quote html s) = Some s"
proof -
  have "map tok_text (scan_utf8 s) = map tok_bytes (scan_utf8 s)"
    using assms by (auto simp: utf8_valid_def list_all_iff elim!: is_rune.elims(2))
  then show ?thesis by (simp only: unquote_quote_gen scan_utf8_bytes)
qed

section \<open>An encoded row\<close>

lemma scans_member:
  assumes "st = BeginString \<or> st = BeginStringOrEmpty"
  shows "scans (st, ParseObjectKey # ps) (json_member k v) (EndValue, ParseObjectValue # ps)"
  unfolding json_member_def
proof (rule scans_append, rule scans_string)
  show "scan_step CHR 0x22 (st, ParseObjectKey # ps) =
      (ScanBeginLiteral, (InString, ParseObjectKey # ps))"
    using assms by (auto simp: begin_string_def is_space_def)
  show "scans (EndValue, ParseObjectKey # ps) ('':'' @ quote False v) (EndValue, ParseObjectValue # ps)"
  proof (rule scans_append)
    show "scans (EndValue, ParseObjectKey # ps) '':'' (BeginValue, ParseObjectValue # ps)"
      by (simp add: scans_def is_space_def)
    show "scans (BeginValue, ParseObjectValue # ps) (quote False v) (EndValue, ParseObjectValue # ps)"
      by (rule scans_string) (simp add: begin_value_def is_space_def)
  qed
qed

lemma scans_members:
  "ms \<noteq> [] \<Longrightarrow> st = BeginString \<or> st = BeginStringOrEmpty \<Longrightarrow>
   scans (st, ParseObjectKey # ps) (join '','' (map (\<lambda>(k, v). json_member k v) ms)) (EndValue, ParseObjectValue # ps)"
proof (induction ms arbitrary: st rule: induct_list012)
  case (2 m)
  then show ?case by (cases m) (auto intro: scans_member)
next
  case (3 m n ms)
  let ?rest = "join '','' (map (\<lambda>(k, v). json_member k v) (n # ms))"
  have "scans (EndValue, ParseObjectValue # ps) (CHR '','' # ?rest) (EndValue, ParseObjectValue # ps)"
    by (rule scans_Cons [of _ _ ScanObjectValue "(BeginString, ParseObjectKey # ps)"])
      (simp_all add: is_space_def 3(2) del: list.map)
  moreover obtain k v where m: "m = (k, v)" by (cases m)
  ultimately show ?case
    using scans_append [OF scans_member [OF 3(4), of ps k v]] by (simp add: m)
qed simp

lemma scans_object:
  assumes "ms \<noteq> []"
  shows "scans scan_start (''{'' @ join '','' (map (\<lambda>(k, v). json_member k v) ms) @ ''}'') (EndTop, [])"
proof (rule scans_append)
  show "scans scan_start ''{'' (BeginStringOrEmpty, [ParseObjectKey])"
    by (simp add: scans_def begin_value_def is_space_def push_def maxNestingDepth_def)
  show "scans (BeginStringOrEmpty, [ParseObjectKey])
      (join '','' (map (\<lambda>(k, v). json_member k v) ms) @ ''}'') (EndTop, [])"
    by (rule scans_append, rule scans_members [OF assms])
      (simp_all add: scans_def is_space_def pop_def)
qed

lemma row_members_nonempty [simp]: "row_members r \<noteq> []"
  by (simp add: row_members_def)

lemma encode_row_valid: "json_valid (encode_row r)"
  using scans_object [OF row_members_nonempty, of r]
  by (simp add: json_valid_def encode_row_def scans_def scan_eof_def)

text \<open>A literal read by the \<open>Decoder\<close>: once a top-level value is over, the scanner does not
  come back into a string.\<close>

lemma scan_all_over:
  "scan_all sc s = Some sc' \<Longrightarrow> fst sc \<in> {EndValue, EndTop, Failed} \<Longrightarrow> snd sc = [] \<Longrightarrow>
   fst sc' \<in> {EndValue, EndTop, Failed}"
proof (induction s arbitrary: sc)
  case (Cons c s)
  obtain st ps where sc: "sc = (st, ps)" by (cases sc)
  have "fst (snd (scan_step c sc)) \<in> {EndTop, Failed} \<and> snd (snd (scan_step c sc)) = []"
    using Cons.prems(2,3) by (auto simp: sc split: if_splits)
  then show ?case
    using Cons.prems(1) Cons.IH [of "snd (scan_step c sc)"]
    by (cases "scan_step c sc") (auto split: sop.splits)
qed auto

lemma read_value_string:
  "st \<in> {InString, InEsc} \<union> range InEscU \<Longrightarrow> scan_all (st, []) s = Some (InString, []) \<Longrightarrow>
   read_value_aux (st, []) acc (s @ rest) = read_value_aux (InString, []) (rev s @ acc) rest"
proof (induction s arbitrary: st acc)
  case (Cons c s)
  obtain op st' ps' where step: "scan_step c (st, []) = (op, (st', ps'))"
    by (cases "scan_step c (st, [])") auto
  have op: "op \<noteq> ScanError" using Cons.prems(2) step by (auto split: sop.splits)
  then have s: "scan_all (st', ps') s = Some (InString, [])"
    using Cons.prems(2) step by (cases op) auto
  have "op = ScanContinue \<and> ps' = [] \<and> (st' \<in> {InString, InEsc} \<union> range InEscU \<or> st' = EndValue)"
    using Cons.prems(1) step op by (auto split: if_splits)
  moreover have "st' \<noteq> EndValue" if "ps' = []"
    using scan_all_over [OF s] that by auto
  ultimately show ?case using Cons.IH [of st' "c # acc"] s step by auto
qed auto

lemma read_raw_string: "read_raw (quote html s @ c # rest) = ReadOk (quote html s) (c # rest)"
proof -
  have "scan_all (InString, []) (quote_body html s) = Some (InString, [])"
    using scans_quote_body [of "[]"] by (simp add: scans_def)
  then have "read_value_aux (InString, []) [CHR 0x22] (quote_body html s @ CHR 0x22 # c # rest) =
      ReadOk (CHR 0x22 # quote_body html s @ [CHR 0x22]) (c # rest)"
    by (subst read_value_string) (simp_all add: begin_value_def is_space_def)
  then show ?thesis
    by (simp add: read_raw_def quote_def begin_value_def is_space_def)
qed

lemma object_members_step:
  "\<not> is_space d \<Longrightarrow> object_members (Suc f) (json_member k v @ d # rest) =
     (if d = CHR '','' then map_option ((#) (quote False k, quote False v)) (object_members f rest)
      else if d = CHR ''}'' then Some [(quote False k, quote False v)] else None)"
proof -
  assume d: "\<not> is_space d"
  have "json_member k v @ d # rest = quote False k @ CHR '':'' # (quote False v @ d # rest)"
    by (simp add: json_member_def)
  then show ?thesis using d by (simp add: read_raw_string is_space_def)
qed

lemma object_members_quoted:
  "ms \<noteq> [] \<Longrightarrow> length ms \<le> fuel \<Longrightarrow>
   object_members fuel (join '','' (map (\<lambda>(k, v). json_member k v) ms) @ ''}'' @ rest) =
   Some (map (\<lambda>(k, v). (quote False k, quote False v)) ms)"
proof (induction ms arbitrary: fuel rule: induct_list012)
  case (2 m)
  then show ?case
    by (cases fuel; cases m) (simp_all add: object_members_step is_space_def del: object_members.simps(2))
next
  case (3 m n ms)
  then obtain f where "fuel = Suc f" by (cases fuel) auto
  then show ?case
    using 3(2) [of f] 3(4)
    by (cases m) (simp add: object_members_step is_space_def del: object_members.simps(2))
qed simp

lemma join_length: "list_all (\<lambda>m. m \<noteq> []) ms \<Longrightarrow> length ms \<le> length (join sep ms)"
proof (induction sep ms rule: join.induct)
  case (2 sep x)
  then show ?case by (cases x) simp_all
next
  case (3 sep x y xs)
  then show ?case by (cases x) simp_all
qed simp

lemma members_encode_row:
  "members (encode_row r) = Some (map (\<lambda>(k, v). (quote False k, quote False v)) (row_members r))"
proof -
  let ?b = "join '','' (map (\<lambda>(k, v). json_member k v) (row_members r))"
  have "list_all (\<lambda>m. m \<noteq> []) (map (\<lambda>(k, v). json_member k v) (row_members r))"
    by (auto simp: list_all_iff json_member_def)
  then have "length (row_members r) \<le> length ?b"
    using join_length [of "map (\<lambda>(k, v). json_member k v) (row_members r)" "'',''"] by simp
  then have m: "object_members (length (encode_row r)) (?b @ ''}'' @ []) =
      Some (map (\<lambda>(k, v). (quote False k, quote False v)) (row_members r))"
    by (intro object_members_quoted) (simp_all add: encode_row_def)
  obtain k v ms where km: "row_members r = (k, v) # ms"
    by (cases "row_members r") auto
  have "\<exists>t. ?b @ ''}'' = CHR 0x22 # t"
    by (cases ms) (simp_all add: km json_member_def quote_def)
  then obtain t where "?b @ ''}'' = CHR 0x22 # t" ..
  then show ?thesis using m by (simp add: members_def encode_row_def is_space_def)
qed

lemma encode_row_printable: "c \<in> set (encode_row r) \<Longrightarrow> 0x20 \<le> byte_of c"
proof -
  have j: "c \<in> set (join '','' ms) \<Longrightarrow> c = CHR '','' \<or> (\<exists>m \<in> set ms. c \<in> set m)" for ms
    by (induction "'',''" ms rule: join.induct) auto
  assume "c \<in> set (encode_row r)"
  then show ?thesis
    by (auto simp: encode_row_def json_member_def quote_printable dest!: j)
qed

section \<open>Sanitising keeps JSON valid\<close>

text \<open>The rest of a literal name is ASCII, so outside a string literal no byte of 0x80 and
  above is accepted.\<close>

fun lit_ok :: "scanner \<Rightarrow> bool" where
  "lit_ok (Lit cs, ps) \<longleftrightarrow> list_all (\<lambda>c. byte_of c < 0x80) cs"
| "lit_ok _ \<longleftrightarrow> True"

lemma lit_ok_end_value [simp]: "lit_ok (snd (end_value c ps))"
  by (cases ps) (auto simp: pop_def split: pstate.split)

lemma lit_ok_begin_value [simp]: "lit_ok (snd (begin_value c ps))"
  by (simp add: begin_value_def push_def)

lemma lit_ok_step: "lit_ok sc \<Longrightarrow> lit_ok (snd (scan_step c sc))"
  by (cases "(c, sc)" rule: scan_step.cases)
    (auto simp: begin_string_def state0_def pop_def split: list.split)

lemma lit_ok_scan_all: "lit_ok sc \<Longrightarrow> scan_all sc s = Some sc' \<Longrightarrow> lit_ok sc'"
proof (induction s arbitrary: sc)
  case (Cons c s)
  then show ?case
    using lit_ok_step [of sc c] by (auto split: prod.splits sop.splits)
qed simp

lemma scan_step_high:
  assumes "0x80 \<le> byte_of c" and "lit_ok sc"
  shows "(\<exists>ps. sc = (InString, ps) \<and> scan_step c sc = (ScanContinue, sc)) \<or>
    fst (scan_step c sc) = ScanError \<or> scan_step c sc = (ScanEnd, (Failed, []))"
proof -
  have c: "c \<noteq> d" if "byte_of d < 0x80" for d using assms that by auto
  have n: "\<not> digit c" "\<not> is_hex c" "\<not> is_space c"
    using assms by (auto simp: digit_def is_hex_def is_space_def)
  have ev: "fst (end_value c ps) = ScanError \<or> end_value c ps = (ScanEnd, (Failed, []))" for ps
    using n(3) by (cases ps) (auto simp: c split: pstate.split)
  have bv: "fst (begin_value c ps) = ScanError" for ps
    using n by (simp add: begin_value_def c)
  obtain st ps where sc: "sc = (st, ps)" by (cases sc)
  show ?thesis
  proof (cases st)
    case (Lit cs)
    then show ?thesis
      using ev [of ps] assms by (cases cs) (auto simp: sc)
  qed (use ev n assms bv c in \<open>auto simp: sc state0_def begin_string_def\<close>)
qed

lemma scan_repair:
  "list_all tok_ok ts \<Longrightarrow> lit_ok sc \<Longrightarrow> scan_all sc (concat (map tok_bytes ts)) = Some sc' \<Longrightarrow>
   fst sc' \<noteq> Failed \<Longrightarrow> scan_all sc (repair replacement_char bad ts) = Some sc'"
proof (induction "replacement_char" bad ts arbitrary: sc rule: repair.induct)
  case (2 bad r ts)
  then obtain sc1 where "scan_all sc r = Some sc1" "scan_all sc1 (concat (map tok_bytes ts)) = Some sc'"
    by (auto simp: scan_all_append split: option.splits)
  then show ?case using 2 lit_ok_scan_all [of sc r sc1] by (simp add: scan_all_append)
next
  case (3 bad b ts)
  then have b: "0x80 \<le> byte_of b" by simp
  have "\<not> scan_step b sc = (ScanEnd, (Failed, []))"
  proof
    assume f: "scan_step b sc = (ScanEnd, (Failed, []))"
    then have "scan_all (Failed, []) (concat (map tok_bytes ts)) = Some sc'" using 3(4) by simp
    then show False using 3(5) by (cases "concat (map tok_bytes ts)") auto
  qed
  then obtain ps where ps: "sc = (InString, ps)" "scan_step b sc = (ScanContinue, sc)"
    using scan_step_high [OF b 3(3)] 3(4) by (auto split: prod.splits sop.splits)
  have rep: "scan_all sc replacement_char = Some sc"
    using scans_high [of replacement_char ps] by (auto simp: ps scans_def replacement_char_def)
  show ?case using 3(1) [of sc] 3(2-5) ps(2) rep by (simp add: scan_all_append)
qed simp

lemma json_valid_sanitise [json_simps]:
  "json_valid s \<Longrightarrow> json_valid (to_valid_utf8 replacement_char s)"
proof -
  assume "json_valid s"
  then obtain sc where sc: "scan_all scan_start s = Some sc" "scan_eof sc"
    by (auto simp: json_valid_def split: option.splits)
  moreover have "fst sc \<noteq> Failed" using sc(2) by (cases sc) (auto simp: scan_eof_def)
  ultimately have "scan_all scan_start (to_valid_utf8 replacement_char s) = Some sc"
    unfolding to_valid_utf8_def
    by (intro scan_repair) (simp_all add: scan_utf8_ok scan_utf8_bytes)
  then show ?thesis using sc(2) by (simp add: json_valid_def)
qed

section \<open>Decoded strings are valid UTF-8\<close>

lemma hex_val_less: "is_hex c \<Longrightarrow> hex_val c < 16"
  by (auto simp: is_hex_def hex_val_def digit_def lower_byte_def)

lemma get_u4_less: "get_u4 s = Some n \<Longrightarrow> n < 0x10000"
proof (cases s rule: get_u4.cases)
  case (1 b u c1 c2 c3 c4 r)
  assume "get_u4 s = Some n"
  then have "is_hex c1" "is_hex c2" "is_hex c3" "is_hex c4"
    and n: "n = ((hex_val c1 * 16 + hex_val c2) * 16 + hex_val c3) * 16 + hex_val c4"
    using 1 by (auto split: if_splits)
  then have "hex_val c1 < 16" "hex_val c2 < 16" "hex_val c3 < 16" "hex_val c4 < 16"
    by (simp_all add: hex_val_less)
  moreover have "x < m \<Longrightarrow> y < 16 \<Longrightarrow> x * 16 + y < m * 16" for x y m :: nat by linarith
  ultimately have "n < ((16 * 16) * 16) * 16" unfolding n by blast
  then show ?thesis by simp
qed simp_all

lemma one_rune: "r \<noteq> [] \<Longrightarrow> rune_len r = length r \<Longrightarrow> utf8_valid r"
  using utf8_valid_runes [of "[r]"] by simp

lemma byte_char_of: "n < 256 \<Longrightarrow> byte_of (char_of n) = n"
  by simp

lemma encode_rune2:
  fixes n :: nat
  assumes "0x80 \<le> n" "n < 0x800"
  shows "utf8_valid [char_of (0xC0 + n div 64), char_of (0x80 + n mod 64)]"
proof (rule one_rune)
  have "n div 64 < 32" "2 \<le> n div 64" "n mod 64 < 64" using assms by auto
  then show "rune_len [char_of (0xC0 + n div 64), char_of (0x80 + n mod 64)] =
      length [char_of (0xC0 + n div 64), char_of (0x80 + n mod 64) :: char]"
    by (simp add: in_range_def Let_def)
qed simp

lemma encode_rune3:
  fixes n :: nat
  assumes "0x800 \<le> n" "n < 0x10000" "\<not> (0xD800 \<le> n \<and> n < 0xE000)"
  shows "utf8_valid [char_of (0xE0 + n div 4096), char_of (0x80 + n div 64 mod 64), char_of (0x80 + n mod 64)]"
proof (rule one_rune)
  define a where "a = n div 4096"
  define b where "b = n div 64 mod 64"
  define c where "c = n mod 64"
  have n: "n = 4096 * a + 64 * b + c"
  proof -
    have "n = 64 * (n div 64) + c" by (simp add: c_def)
    moreover have "n div 64 = 64 * a + b"
      by (simp add: a_def b_def div_mult2_eq [of n 64 64, simplified])
    ultimately show ?thesis by linarith
  qed
  have bc: "b < 64" "c < 64" by (simp_all add: b_def c_def)
  have "a < 16" "a = 0 \<longrightarrow> 32 \<le> b" "a = 13 \<longrightarrow> b \<le> 31" using assms n bc by auto
  then show "rune_len [char_of (0xE0 + n div 4096), char_of (0x80 + n div 64 mod 64), char_of (0x80 + n mod 64)] =
      length [char_of (0xE0 + n div 4096), char_of (0x80 + n div 64 mod 64), char_of (0x80 + n mod 64) :: char]"
    unfolding a_def [symmetric] b_def [symmetric] c_def [symmetric]
    using bc by (simp add: in_range_def Let_def)
qed simp

lemma encode_rune4:
  fixes n :: nat
  assumes "0x10000 \<le> n" "n < 0x110000"
  shows "utf8_valid [char_of (0xF0 + n div 262144), char_of (0x80 + n div 4096 mod 64),
    char_of (0x80 + n div 64 mod 64), char_of (0x80 + n mod 64)]"
proof (rule one_rune)
  define a where "a = n div 262144"
  define b where "b = n div 4096 mod 64"
  define c where "c = n div 64 mod 64"
  define d where "d = n mod 64"
  have n: "n = 262144 * a + 4096 * b + 64 * c + d"
  proof -
    have "n = 64 * (n div 64) + d" by (simp add: d_def)
    moreover have "n div 64 = 64 * (n div 4096) + c"
      by (simp add: c_def div_mult2_eq [of n 64 64, simplified])
    moreover have "n div 4096 = 64 * a + b"
      by (simp add: a_def b_def div_mult2_eq [of n 4096 64, simplified])
    ultimately show ?thesis by linarith
  qed
  have bcd: "b < 64" "c < 64" "d < 64" by (simp_all add: b_def c_def d_def)
  have "a \<le> 4" "a = 0 \<longrightarrow> 16 \<le> b" "a = 4 \<longrightarrow> b \<le> 15" using assms n bcd by auto
  then show "rune_len [char_of (0xF0 + n div 262144), char_of (0x80 + n div 4096 mod 64),
      char_of (0x80 + n div 64 mod 64), char_of (0x80 + n mod 64)] =
      length [char_of (0xF0 + n div 262144), char_of (0x80 + n div 4096 mod 64),
      char_of (0x80 + n div 64 mod 64), char_of (0x80 + n mod 64) :: char]"
    unfolding a_def [symmetric] b_def [symmetric] c_def [symmetric] d_def [symmetric]
    using bcd by (simp add: in_range_def Let_def)
qed simp

lemma encode_rune_valid: "n < 0x110000 \<Longrightarrow> utf8_valid (encode_rune n)"
  using encode_rune2 [of n] encode_rune3 [of n] encode_rune4 [of n]
  by (auto simp: encode_rune_def intro!: utf8_valid_ascii)

lemma u_escape_valid: "u_escape s = Some (out, k) \<Longrightarrow> utf8_valid out"
  by (auto simp: u_escape_def Let_def intro!: encode_rune_valid dest!: get_u4_less
      split: option.splits if_splits)

lemma utf8_valid_Cons: "byte_of c < 0x80 \<Longrightarrow> utf8_valid s \<Longrightarrow> utf8_valid (c # s)"
  using utf8_valid_append [of "[c]" s] utf8_valid_ascii [of "[c]"] by simp

lemma simple_escape_ascii: "simple_escape c = Some b \<Longrightarrow> byte_of b < 0x80"
  by (auto simp: simple_escape_def split: if_splits)

lemma unquote_body_utf8: "unquote_body s = Some t \<Longrightarrow> utf8_valid t"
proof (induction s arbitrary: t rule: unquote_body.induct)
  case (2 c cs)
  consider (esc) "c = CHR 0x5C" | (low) "c \<noteq> CHR 0x5C" "byte_of c < 0x80" | (high) "\<not> byte_of c < 0x80"
    by blast
  then show ?case
  proof cases
    case esc
    then obtain e r where cs: "cs = e # r" using 2(6) by (cases cs) auto
    show ?thesis
    proof (cases "e = CHR ''u''")
      case True
      then obtain out n where u: "u_escape (c # cs) = Some (out, n)"
        using 2(6) esc cs by (auto split: option.splits)
      then obtain t' where t': "unquote_body (drop (n - 1) cs) = Some t'" "t = out @ t'"
        using 2(6) esc cs True by auto
      then show ?thesis
        using 2(1) [OF esc cs True u refl] u_escape_valid [OF u] by (auto intro: utf8_valid_append)
    next
      case False
      then obtain b where b: "simple_escape e = Some b"
        using 2(6) esc cs by (auto split: option.splits)
      then obtain t' where t': "unquote_body r = Some t'" "t = b # t'"
        using 2(6) esc cs False by auto
      then show ?thesis
        using 2(2) [OF esc cs False b] simple_escape_ascii [OF b] by (auto intro: utf8_valid_Cons)
    qed
  next
    case low
    then obtain t' where "unquote_body cs = Some t'" "t = c # t'" "\<not> (c = CHR 0x22 \<or> byte_of c < 0x20)"
      using 2(6) by (auto split: if_splits)
    then show ?thesis using 2(3) low by (auto intro: utf8_valid_Cons)
  next
    case high
    then have nc: "c \<noteq> CHR 0x5C" "\<not> (c = CHR 0x22 \<or> byte_of c < 0x20)" by auto
    show ?thesis
    proof (cases "rune_len (c # cs) = 0")
      case True
      then obtain t' where "unquote_body cs = Some t'" "t = replacement_char @ t'"
        using 2(6) nc high by (auto simp del: rune_len.simps)
      then show ?thesis using 2(4) [OF nc high refl True] by (auto intro: utf8_valid_append)
    next
      case False
      then obtain t' where t': "unquote_body (drop (rune_len (c # cs) - 1) cs) = Some t'"
        "t = take (rune_len (c # cs)) (c # cs) @ t'"
        using 2(6) nc high by (auto simp: Let_def simp del: rune_len.simps)
      moreover have "utf8_valid (take (rune_len (c # cs)) (c # cs))"
        using False rune_len_take [of "c # cs"] rune_len_le [of "c # cs"]
        by (intro one_rune) (auto simp: min_def simp del: rune_len.simps)
      ultimately show ?thesis
        using 2(5) [OF nc high refl False t'(1)] by (auto intro: utf8_valid_append)
    qed
  qed
qed simp

lemma unquote_utf8: "unquote s = Some t \<Longrightarrow> utf8_valid t"
  by (auto simp: unquote_def unquote_body_utf8 split: if_splits)
section \<open>Properties\<close>

definition row_utf8 :: "row \<Rightarrow> bool" where
  "row_utf8 r \<longleftrightarrow> list_all (\<lambda>(k, v). utf8_valid v) (row_members r)"

lemma row_keys_utf8: "(k, v) \<in> set (row_members r) \<Longrightarrow> utf8_valid k"
  by (auto simp: row_members_def intro!: utf8_valid_ascii split: if_splits)

text \<open>C19: An encoded row is one line holding one valid JSON value, an object whose members,
  read back by the decoder, are exactly the row's columns and their values: nothing a
  sender puts into a field can end the line, add a column or change another one.\<close>

theorem encode_row_roundtrip:
  assumes "row_utf8 r"
  shows "json_valid (encode_row r) \<and> CHR 0x0A \<notin> set (encode_row r) \<and>
    map_option (map (\<lambda>(k, v). (unquote k, unquote v))) (members (encode_row r)) =
    Some (map (\<lambda>(k, v). (Some k, Some v)) (row_members r))"
proof -
  have "CHR 0x0A \<notin> set (encode_row r)" using encode_row_printable [of "CHR 0x0A" r] by auto
  moreover have "map (\<lambda>(k, v). (unquote (quote False k), unquote (quote False v))) (row_members r) =
      map (\<lambda>(k, v). (Some k, Some v)) (row_members r)"
    using assms row_keys_utf8 [of _ _ r] by (auto simp: row_utf8_def list_all_iff unquote_quote)
  ultimately show ?thesis
    using encode_row_valid [of r] by (simp add: members_encode_row comp_def case_prod_beta)
qed

lemma encode_row_roundtrip_witness:
  "json_valid (encode_row \<lparr>row_timestamp = [], row_project = ''shop'', row_level = ''info'',
     row_message = [CHR 0x22, CHR 0x0A, CHR 0xC3, CHR 0xA9], row_context = ''{}'', row_source_ip = ''10.0.0.1''\<rparr>)"
proof -
  have "row_utf8 \<lparr>row_timestamp = [], row_project = ''shop'', row_level = ''info'',
     row_message = [CHR 0x22, CHR 0x0A, CHR 0xC3, CHR 0xA9], row_context = ''{}'', row_source_ip = ''10.0.0.1''\<rparr>"
    by code_simp
  then show ?thesis using encode_row_roundtrip by blast
qed

end
