(* ===== verification/Config.thy ===== *)
theory Config
  imports Util
begin

text \<open>
  \<open>config\<close> and \<open>loadConfig\<close> of \<open>gateway/main.go\<close>, \<open>validate\<close> of \<open>gateway/config.go\<close>, the
  container health probe and the start of \<open>main\<close>. The environment, the readable files and
  \<open>net/url\<close>'s parser are arguments.
\<close>

section \<open>The configuration\<close>

record config =
  listenAddr :: string
  tokens :: "string list"
  chBaseURL :: string
  chUser :: string
  chKey :: string
  chDatabase :: string
  chTable :: string
  bufferSize :: int
  bufferMaxBytes :: int
  batchSize :: int
  flushInterval :: int
  maxRetries :: int
  spoolDir :: string
  spoolMaxFiles :: int
  spoolMaxBytes :: int
  replayInterval :: int
  rateLimit :: float64
  rateBurst :: float64
  metricsToken :: string
  maxBodyBytes :: int
  maxInflightBytes :: int
  maxMessageBytes :: int
  maxContextBytes :: int
  maxBatchEvents :: int
  retention :: int
  trustedProxies :: "ipnet list"
  logLevel :: slog_level

text \<open>What \<open>validate\<close> reads of a parsed URL; \<open>None\<close> from the parser is an error.\<close>

record url =
  url_scheme :: string
  url_host :: string
  url_path :: string
  url_query :: string
  url_force_query :: bool
  url_fragment :: string
  url_user :: "string option"

definition times_sign :: string where
  "times_sign = [CHR 0xC3, CHR 0x97]"

section \<open>validate\<close>

definition add_err :: "bool \<Rightarrow> string \<Rightarrow> string list \<Rightarrow> string list" where
  "add_err cond msg errs = (if cond then errs @ [msg] else errs)"

definition range_errs :: "config \<Rightarrow> string list" where
  "range_errs c =
     (add_err (0 < maxInflightBytes c \<and> maxInflightBytes c < maxBodyBytes c)
        ''MAX_INFLIGHT_BODY_BYTES must be >= MAX_BODY_BYTES (one max-size request must fit)''
     \<circ> add_err (0 < bufferMaxBytes c \<and> bufferMaxBytes c < i64 (2 * maxBodyBytes c))
        (''BUFFER_MAX_BYTES must be >= 2'' @ times_sign @
         '' MAX_BODY_BYTES (serialized rows are larger than the raw body)'')
     \<circ> add_err (maxInflightBytes c < 0) ''MAX_INFLIGHT_BODY_BYTES must be >= 0 (0 = unlimited)''
     \<circ> add_err (spoolMaxBytes c < 0) ''SPOOL_MAX_BYTES must be >= 0 (0 = unlimited)''
     \<circ> add_err (bufferMaxBytes c < 0) ''BUFFER_MAX_BYTES must be >= 0 (0 = unlimited)''
     \<circ> add_err (spoolDir c \<noteq> [] \<and> spoolMaxFiles c \<le> 0)
        ''SPOOL_MAX_FILES must be > 0 when SPOOL_DIR is set''
     \<circ> add_err (f_lt (rateLimit c) (Fin 0)) ''RATE_LIMIT_RPS must be >= 0''
     \<circ> add_err (retention c \<le> 0) ''RETENTION must be > 0''
     \<circ> add_err (maxBatchEvents c \<le> 0) ''MAX_BATCH_EVENTS must be > 0''
     \<circ> add_err (maxContextBytes c \<le> 0) ''MAX_CONTEXT_BYTES must be > 0''
     \<circ> add_err (maxMessageBytes c < 16) ''MAX_MESSAGE_BYTES must be >= 16''
     \<circ> add_err (maxBodyBytes c \<le> 0) ''MAX_BODY_BYTES must be > 0''
     \<circ> add_err (maxRetries c < 0) ''MAX_RETRIES must be >= 0''
     \<circ> add_err (replayInterval c \<le> 0) ''REPLAY_INTERVAL must be > 0''
     \<circ> add_err (flushInterval c \<le> 0) ''FLUSH_INTERVAL must be > 0''
     \<circ> add_err (batchSize c \<le> 0) ''BATCH_SIZE must be > 0''
     \<circ> add_err (bufferSize c \<le> 0) ''BUFFER_SIZE must be > 0''
     \<circ> add_err (listenAddr c = []) ''LISTEN_ADDR must not be empty'') []"

definition url_errs :: "(string \<Rightarrow> url option) \<Rightarrow> string \<Rightarrow> string list" where
  "url_errs url_parse s =
     (case url_parse s of
        None \<Rightarrow> [''CLICKHOUSE_URL must be a valid http(s) URL'']
      | Some u \<Rightarrow>
          if url_host u = [] \<or> url_scheme u \<noteq> ''http'' \<and> url_scheme u \<noteq> ''https''
          then [''CLICKHOUSE_URL must be a valid http(s) URL'']
          else if url_path u \<noteq> [] \<and> url_path u \<noteq> ''/''
          then [''CLICKHOUSE_URL must not contain a path'']
          else if url_query u \<noteq> [] \<or> url_force_query u \<or> url_fragment u \<noteq> [] \<or> url_user u \<noteq> None
          then [''CLICKHOUSE_URL must be scheme://host[:port] only - no query, fragment or credentials'']
          else [])"

definition validate :: "(string \<Rightarrow> url option) \<Rightarrow> config \<Rightarrow> string option" where
  "validate url_parse c =
     (let errs = range_errs c @ url_errs url_parse (chBaseURL c) in
      if errs \<noteq> [] then Some (''invalid config: '' @ join ''; '' errs) else None)"

section \<open>loadConfig\<close>

datatype config_error = TokenRequired | BadTrustedProxies cidr_error | InvalidConfig string

definition env_config :: "env \<Rightarrow> (string \<Rightarrow> string option) \<Rightarrow> config" where
  "env_config e files =
     \<lparr>listenAddr = envOr e ''LISTEN_ADDR'' '':8080'',
      tokens = splitTokens (readSecret e files ''LOG_TOKEN''),
      chBaseURL = trim_right ''/'' (envOr e ''CLICKHOUSE_URL'' ''http://127.0.0.1:8123''),
      chUser = envOr e ''CLICKHOUSE_USER'' ''writer'',
      chKey = readSecret e files ''CLICKHOUSE_PASSWORD'',
      chDatabase = envOr e ''CLICKHOUSE_DB'' ''logs'',
      chTable = envOr e ''CLICKHOUSE_TABLE'' ''logs'',
      bufferSize = envInt e ''BUFFER_SIZE'' 2000,
      bufferMaxBytes = envInt e ''BUFFER_MAX_BYTES'' (32 * 2 ^ 20),
      batchSize = envInt e ''BATCH_SIZE'' 500,
      flushInterval = envDur e ''FLUSH_INTERVAL'' 1000000000,
      maxRetries = envInt e ''MAX_RETRIES'' 3,
      spoolDir = e ''SPOOL_DIR'',
      spoolMaxFiles = envInt e ''SPOOL_MAX_FILES'' 1000,
      spoolMaxBytes = envInt e ''SPOOL_MAX_BYTES'' (256 * 2 ^ 20),
      replayInterval = envDur e ''REPLAY_INTERVAL'' (30 * 1000000000),
      rateLimit = envFloat e ''RATE_LIMIT_RPS'' (Fin 0),
      rateBurst = envFloat e ''RATE_BURST'' (Fin 0),
      metricsToken = readSecret e files ''METRICS_TOKEN'',
      maxBodyBytes = envInt e ''MAX_BODY_BYTES'' (4 * 2 ^ 20),
      maxInflightBytes = envInt e ''MAX_INFLIGHT_BODY_BYTES'' (16 * 2 ^ 20),
      maxMessageBytes = envInt e ''MAX_MESSAGE_BYTES'' (64 * 2 ^ 10),
      maxContextBytes = envInt e ''MAX_CONTEXT_BYTES'' (64 * 2 ^ 10),
      maxBatchEvents = envInt e ''MAX_BATCH_EVENTS'' 1000,
      retention = envDur e ''RETENTION'' (30 * 24 * 3600 * 1000000000),
      trustedProxies = [],
      logLevel = parseLevel (envOr e ''LOG_LEVEL'' ''info'')\<rparr>"

definition loadConfig ::
  "(string \<Rightarrow> url option) \<Rightarrow> env \<Rightarrow> (string \<Rightarrow> string option) \<Rightarrow> config_error + config" where
  "loadConfig url_parse e files =
     (let cfg = env_config e files in
      if tokens cfg = [] then Inl TokenRequired
      else case parseCIDRs (e ''TRUSTED_PROXIES'') of
        Inl err \<Rightarrow> Inl (BadTrustedProxies err)
      | Inr tp \<Rightarrow>
          (let cfg1 = cfg\<lparr>trustedProxies := tp\<rparr>;
               cfg2 = (if f_eq (rateBurst cfg1) (Fin 0) then cfg1\<lparr>rateBurst := rateLimit cfg1\<rparr>
                       else cfg1)
           in case validate url_parse cfg2 of
                Some err \<Rightarrow> Inl (InvalidConfig err)
              | None \<Rightarrow> Inr cfg2))"

section \<open>The health probe and the start of the process\<close>

text \<open>\<open>get\<close> is the HTTP client: the status of the answer, or \<open>None\<close> for an error.\<close>

definition healthcheckProbe :: "env \<Rightarrow> (string \<Rightarrow> nat option) \<Rightarrow> nat" where
  "healthcheckProbe e get =
     (let (host, port) =
        (case split_host_port (envOr e ''LISTEN_ADDR'' '':8080'') of
           Some hp \<Rightarrow> hp | None \<Rightarrow> (''127.0.0.1'', ''8080''));
          host' = (if host = [] \<or> host = ''0.0.0.0'' \<or> host = ''::'' then ''127.0.0.1'' else host)
      in case get (''http://'' @ join_host_port host' port @ ''/healthz'') of
           None \<Rightarrow> 1
         | Some code \<Rightarrow> if code = 200 then 0 else 1)"

datatype startup = Exit nat | Serve config

definition main_start ::
  "(string \<Rightarrow> url option) \<Rightarrow> (string \<Rightarrow> nat option) \<Rightarrow> string list \<Rightarrow> env \<Rightarrow>
   (string \<Rightarrow> string option) \<Rightarrow> startup" where
  "main_start url_parse get args e files =
     (if 1 < length args \<and> args ! 1 = ''-healthcheck'' then Exit (healthcheckProbe e get)
      else case loadConfig url_parse e files of
        Inl _ \<Rightarrow> Exit 2
      | Inr cfg \<Rightarrow> Serve cfg)"

section \<open>What a validated configuration guarantees\<close>

definition ranges_ok :: "config \<Rightarrow> bool" where
  "ranges_ok c \<longleftrightarrow>
     listenAddr c \<noteq> [] \<and> 0 < bufferSize c \<and> 0 < batchSize c \<and> 0 < flushInterval c \<and>
     0 < replayInterval c \<and> 0 \<le> maxRetries c \<and> 0 < maxBodyBytes c \<and> 16 \<le> maxMessageBytes c \<and>
     0 < maxContextBytes c \<and> 0 < maxBatchEvents c \<and> 0 < retention c \<and>
     \<not> f_lt (rateLimit c) (Fin 0) \<and> (spoolDir c = [] \<or> 0 < spoolMaxFiles c) \<and>
     0 \<le> bufferMaxBytes c \<and> 0 \<le> spoolMaxBytes c \<and> 0 \<le> maxInflightBytes c \<and>
     (0 < bufferMaxBytes c \<longrightarrow> i64 (2 * maxBodyBytes c) \<le> bufferMaxBytes c) \<and>
     (0 < maxInflightBytes c \<longrightarrow> maxBodyBytes c \<le> maxInflightBytes c)"

lemma add_err_Nil: "add_err b m errs = [] \<longleftrightarrow> \<not> b \<and> errs = []"
  by (simp add: add_err_def)

lemma range_errs_Nil: "range_errs c = [] \<longleftrightarrow> ranges_ok c"
  unfolding range_errs_def ranges_ok_def comp_def add_err_Nil not_less not_le de_Morgan_conj
    imp_conv_disj simp_thms
  by (simp only: conj_ac disj_ac)

definition url_ok :: "(string \<Rightarrow> url option) \<Rightarrow> string \<Rightarrow> bool" where
  "url_ok url_parse s \<longleftrightarrow>
     (\<exists>u. url_parse s = Some u \<and> url_host u \<noteq> [] \<and> url_scheme u \<in> {''http'', ''https''} \<and>
        url_path u \<in> {[], ''/''} \<and> url_query u = [] \<and> \<not> url_force_query u \<and>
        url_fragment u = [] \<and> url_user u = None)"

lemma url_errs_Nil: "url_errs url_parse s = [] \<longleftrightarrow> url_ok url_parse s"
  by (auto simp: url_errs_def url_ok_def split: option.splits)

lemma validate_None: "validate url_parse c = None \<longleftrightarrow> ranges_ok c \<and> url_ok url_parse (chBaseURL c)"
  by (simp add: validate_def range_errs_Nil url_errs_Nil)

lemma ranges_ok_burst: "ranges_ok (c\<lparr>rateBurst := b\<rparr>) = ranges_ok c"
  by (simp add: ranges_ok_def)

lemma loadConfig_ok:
  assumes "loadConfig url_parse e files = Inr cfg"
  shows "ranges_ok cfg \<and> url_ok url_parse (chBaseURL cfg) \<and> tokens cfg \<noteq> [] \<and>
    tokens cfg = splitTokens (readSecret e files ''LOG_TOKEN'') \<and>
    chBaseURL cfg = trim_right ''/'' (envOr e ''CLICKHOUSE_URL'' ''http://127.0.0.1:8123'')"
  using assms
  by (auto simp: loadConfig_def Let_def validate_None ranges_ok_burst env_config_def
      split: sum.splits if_splits option.splits)

lemma trim_right_last: "trim_right cs s \<noteq> [] \<Longrightarrow> last (trim_right cs s) \<notin> set cs"
  using hd_dropWhile [of "\<lambda>c. c \<in> set cs" "rev s"] by (simp add: trim_right_def last_rev)

section \<open>Properties\<close>

text \<open>C25: Whatever the environment, a configuration that \<open>loadConfig\<close> returns passes every
  range check, has at least one token, only tokens without a separator, and a ClickHouse
  URL that is scheme and host only, with no slash at its end.\<close>

theorem loadConfig_valid:
  assumes "loadConfig url_parse e files = Inr cfg"
  shows "ranges_ok cfg \<and> url_ok url_parse (chBaseURL cfg) \<and> tokens cfg \<noteq> [] \<and>
    list_all (\<lambda>t. t \<noteq> [] \<and> list_all (\<lambda>c. \<not> token_sep c) t) (tokens cfg) \<and>
    (chBaseURL cfg \<noteq> [] \<longrightarrow> last (chBaseURL cfg) \<noteq> CHR ''/'')"
  using loadConfig_ok [OF assms] splitTokens_clean trim_right_last [of "''/''"]
  by (auto simp: list_all_iff)

definition demo_url :: "string \<Rightarrow> url option" where
  "demo_url s =
     (if s = ''http://127.0.0.1:8123'' then
        Some \<lparr>url_scheme = ''http'', url_host = ''127.0.0.1:8123'', url_path = [], url_query = [],
          url_force_query = False, url_fragment = [], url_user = None\<rparr>
      else None)"

lemma loadConfig_valid_witness:
  "\<exists>cfg. loadConfig demo_url ((\<lambda>_. [])(''LOG_TOKEN'' := ''s3cret'')) (\<lambda>_. None) = Inr cfg \<and> ranges_ok cfg"
proof -
  have "case loadConfig demo_url ((\<lambda>_. [])(''LOG_TOKEN'' := ''s3cret'')) (\<lambda>_. None) of
      Inr c \<Rightarrow> True | _ \<Rightarrow> False"
    by code_simp
  then show ?thesis
    using loadConfig_valid [of demo_url "(\<lambda>_. [])(''LOG_TOKEN'' := ''s3cret'')" "\<lambda>_. None"]
    by (auto split: sum.splits)
qed

text \<open>A configuration with small limits, for the witnesses of the components.\<close>

definition demo_config :: config where
  "demo_config =
     \<lparr>listenAddr = '':8080'', tokens = [''s3cret''], chBaseURL = ''http://127.0.0.1:8123'', chUser = ''writer'',
      chKey = [], chDatabase = ''logs'', chTable = ''logs'', bufferSize = 4, bufferMaxBytes = 2000,
      batchSize = 2, flushInterval = 1000000000, maxRetries = 1, spoolDir = ''/spool'', spoolMaxFiles = 3,
      spoolMaxBytes = 4000, replayInterval = 30000000000, rateLimit = Fin 0, rateBurst = Fin 0,
      metricsToken = [], maxBodyBytes = 300, maxInflightBytes = 400, maxMessageBytes = 16,
      maxContextBytes = 64, maxBatchEvents = 3, retention = 2592000000000000, trustedProxies = [],
      logLevel = LevelInfo\<rparr>"

lemma demo_config_ok: "ranges_ok demo_config"
  by (simp add: ranges_ok_def demo_config_def)

text \<open>Twice the body limit is an int64: above 2^62 - 1 it wraps, and a buffer too small for any
  batch passes the check.\<close>

lemma double_body_wraps:
  "ranges_ok (demo_config\<lparr>maxBodyBytes := 2 ^ 62, maxInflightBytes := 0, bufferMaxBytes := 1\<rparr>)"
  by (simp add: ranges_ok_def demo_config_def i64_def)
end
