(* ===== verification/Metrics.thy ===== *)
theory Metrics
  imports Row GoNum
begin

text \<open>
  \<open>gateway/metrics.go\<close>: the counters, the labelled counters, the capped per-project
  counters, the histogram, and their text exposition. An atomic \<open>int64\<close> is an integer: a
  counter would have to count 2^63 events to wrap.
\<close>

section \<open>Labelled counters\<close>

type_synonym labeledCounter = table

definition newLabeledCounter :: labeledCounter where
  "newLabeledCounter = []"

definition labels_inc :: "string \<Rightarrow> labeledCounter \<Rightarrow> labeledCounter" where
  "labels_inc labels c = bump labels c"

definition render_line :: "string \<Rightarrow> string \<Rightarrow> int \<Rightarrow> string" where
  "render_line name labels v = name @ ''{'' @ labels @ ''} '' @ itoa v @ [CHR 0x0A]"

definition labels_render :: "string \<Rightarrow> labeledCounter \<Rightarrow> string" where
  "labels_render name c =
     concat (map (\<lambda>k. render_line name k (reading c k)) (sort_strings (map fst c)))"

section \<open>Per-project counters\<close>

definition maxProjectLabels :: nat where
  "maxProjectLabels = 64"

definition overflowProject :: string where
  "overflowProject = ''<overflow>''"

record projectCounters =
  pc_received :: table
  pc_dropped :: table
  pc_tracked :: "(string \<times> string) list"

definition newProjectCounters :: projectCounters where
  "newProjectCounters = \<lparr>pc_received = [], pc_dropped = [], pc_tracked = []\<rparr>"

definition labelLocked :: "string \<Rightarrow> projectCounters \<Rightarrow> string \<times> projectCounters" where
  "labelLocked project p =
     (case map_of (pc_tracked p) project of
        Some key \<Rightarrow> (key, p)
      | None \<Rightarrow>
          if maxProjectLabels \<le> length (pc_tracked p) then (overflowProject, p)
          else (project, p\<lparr>pc_tracked := (project, project) # pc_tracked p\<rparr>))"

text \<open>The loop of \<open>observe\<close>, from row number \<open>i\<close>.\<close>

definition observe_row :: "int \<Rightarrow> int \<Rightarrow> string \<Rightarrow> projectCounters \<Rightarrow> projectCounters" where
  "observe_row accepted i project p =
     (case labelLocked project p of (label, q) \<Rightarrow>
        if i < accepted then q\<lparr>pc_received := bump label (pc_received q)\<rparr>
        else q\<lparr>pc_dropped := bump label (pc_dropped q)\<rparr>)"

fun observe_rows :: "int \<Rightarrow> int \<Rightarrow> row list \<Rightarrow> projectCounters \<Rightarrow> projectCounters" where
  "observe_rows accepted i [] p = p"
| "observe_rows accepted i (r # rs) p =
     observe_rows accepted (i + 1) rs (observe_row accepted i (row_project r) p)"

definition projects_observe :: "row list \<Rightarrow> int \<Rightarrow> projectCounters \<Rightarrow> projectCounters" where
  "projects_observe rows accepted p = (if rows = [] then p else observe_rows accepted 0 rows p)"

definition renderProjectMap :: "string \<Rightarrow> string \<Rightarrow> table \<Rightarrow> string" where
  "renderProjectMap name help vals =
     ''# HELP '' @ name @ '' '' @ help @ [CHR 0x0A] @ ''# TYPE '' @ name @ '' counter'' @ [CHR 0x0A] @
     concat (map (\<lambda>k. name @ ''{project='' @ [CHR 0x22] @ k @ [CHR 0x22] @ ''} '' @
       itoa (reading vals k) @ [CHR 0x0A]) (sort_strings (map fst vals)))"

definition projects_render :: "projectCounters \<Rightarrow> string" where
  "projects_render p =
     renderProjectMap ''logden_project_logs_received_total''
       ''Log events accepted into the buffer, by project (bounded label set).'' (pc_received p) @
     renderProjectMap ''logden_project_logs_dropped_total''
       ''Log events dropped instead of buffered, by project (bounded label set).'' (pc_dropped p) @
     ''# HELP logden_project_labels_tracked Distinct project labels held by the per-project counters.'' @
     [CHR 0x0A] @ ''# TYPE logden_project_labels_tracked gauge'' @ [CHR 0x0A] @
     ''logden_project_labels_tracked '' @ itoa (int (length (pc_tracked p))) @ [CHR 0x0A] @
     ''# HELP logden_project_labels_capacity Label cap; past it projects fold into project='' @
     [CHR 0x22] @ overflowProject @ [CHR 0x22] @ ''.'' @ [CHR 0x0A] @
     ''# TYPE logden_project_labels_capacity gauge'' @ [CHR 0x0A] @
     ''logden_project_labels_capacity '' @ itoa (int maxProjectLabels) @ [CHR 0x0A]"

section \<open>The histogram\<close>

definition insertBuckets :: "float64 list" where
  "insertBuckets = map fl [5/1000, 1/100, 25/1000, 5/100, 1/10, 25/100, 5/10, 1, 25/10, 5, 10]"

record histogram =
  h_buckets :: "float64 list"
  h_counts :: "int list"
  h_sum :: float64
  h_count :: int

definition newHistogram :: "float64 list \<Rightarrow> histogram" where
  "newHistogram bs = \<lparr>h_buckets = bs, h_counts = replicate (length bs) 0, h_sum = Fin 0, h_count = 0\<rparr>"

definition hist_observe :: "float64 \<Rightarrow> histogram \<Rightarrow> histogram" where
  "hist_observe v h =
     h\<lparr>h_sum := f_add (h_sum h) v,
       h_count := h_count h + 1,
       h_counts := map2 (\<lambda>ub c. if f_le v ub then c + 1 else c) (h_buckets h) (h_counts h)\<rparr>"

section \<open>Numbers and strings in the exposition\<close>

text \<open>\<open>strconv.FormatFloat(f, 'g', -1, 64)\<close>: the fewest digits that read back as \<open>f\<close>, the
  nearest such number; \<open>(ds, dp)\<close> is 0.\<open>ds\<close> times 10 to the \<open>dp\<close>.\<close>

definition pow10 :: "int \<Rightarrow> rat" where
  "pow10 e = (if 0 \<le> e then 10 ^ nat e else 1 / 10 ^ nat (- e))"

definition decimal_point :: "rat \<Rightarrow> int" where
  "decimal_point x = (case find (\<lambda>e. x < pow10 e) [-330..310] of Some e \<Rightarrow> e | None \<Rightarrow> 310)"

definition closest_digits :: "rat \<Rightarrow> int \<Rightarrow> nat \<Rightarrow> int option" where
  "closest_digits x dp n =
     (let s = x * pow10 (int n - dp);
          lo = \<lfloor>s\<rfloor>;
          back = (\<lambda>m. rnd (of_int m * pow10 (dp - int n)) = x)
      in if back lo \<and> (s - of_int lo \<le> 1 / 2 \<or> \<not> back (lo + 1)) then Some lo
         else if back (lo + 1) then Some (lo + 1) else None)"

definition shortest_digits :: "rat \<Rightarrow> string \<times> int" where
  "shortest_digits x =
     (let dp = decimal_point x in
      case List.map_filter (\<lambda>n. map_option (\<lambda>m. (m, n)) (closest_digits x dp n)) [1..<18] of
        [] \<Rightarrow> ([], 0)
      | (m, n) # _ \<Rightarrow> (trim_right ''0'' (dec m), dp - int n + int (length (dec m))))"

definition format_e :: "string \<Rightarrow> int \<Rightarrow> string" where
  "format_e ds dp =
     take 1 ds @ (if 1 < length ds then ''.'' @ drop 1 ds else []) @ ''e'' @
     (if dp - 1 < 0 then ''-'' else ''+'') @ pad_zeros 2 \<bar>dp - 1\<bar>"

definition format_f :: "string \<Rightarrow> int \<Rightarrow> string" where
  "format_f ds dp =
     (if 0 < dp then take (nat dp) ds @ replicate (nat dp - length ds) CHR ''0'' else ''0'') @
     (if int (length ds) \<le> dp then []
      else ''.'' @ replicate (nat (- dp)) CHR ''0'' @ drop (nat dp) ds)"

definition format_pos :: "rat \<Rightarrow> string" where
  "format_pos x =
     (case shortest_digits x of (ds, dp) \<Rightarrow>
        if dp - 1 < - 4 \<or> 6 \<le> dp - 1 then format_e ds dp else format_f ds dp)"

fun formatFloat :: "float64 \<Rightarrow> string" where
  "formatFloat (Fin x) =
     (if x = 0 then ''0'' else if x < 0 then ''-'' @ format_pos (- x) else format_pos x)"
| "formatFloat PInf = ''+Inf''"
| "formatFloat NInf = ''-Inf''"
| "formatFloat NaN = ''NaN''"

text \<open>The verb \<open>%q\<close>; \<open>printable\<close> is \<open>unicode.IsPrint\<close> on the multi-byte sequences.\<close>

definition hex_pad :: "nat \<Rightarrow> nat \<Rightarrow> string" where
  "hex_pad w n = map (\<lambda>i. hex_char (n div 16 ^ (w - 1 - i) mod 16)) [0..<w]"

definition rune_value :: "string \<Rightarrow> nat" where
  "rune_value r =
     (let bs = map byte_of r; tail = foldl (\<lambda>a b. a * 64 + (b - 0x80)) in
      if length r = 2 then tail (bs ! 0 - 0xC0) (tl bs)
      else if length r = 3 then tail (bs ! 0 - 0xE0) (tl bs)
      else tail (bs ! 0 - 0xF0) (tl bs))"

fun quote_tok :: "(string \<Rightarrow> bool) \<Rightarrow> utok \<Rightarrow> string" where
  "quote_tok printable (Stray b) = [CHR 0x5C, CHR ''x''] @ hex_pad 2 (byte_of b)"
| "quote_tok printable (Rune r) =
     (if length r = 1 then
        (let b = hd r in
         if b = CHR 0x22 \<or> b = CHR 0x5C then [CHR 0x5C, b]
         else if 0x20 \<le> byte_of b \<and> byte_of b < 0x7F then [b]
         else if b = CHR 0x07 then [CHR 0x5C, CHR ''a'']
         else if b = CHR 0x08 then [CHR 0x5C, CHR ''b'']
         else if b = CHR 0x0C then [CHR 0x5C, CHR ''f'']
         else if b = CHR 0x0A then [CHR 0x5C, CHR ''n'']
         else if b = CHR 0x0D then [CHR 0x5C, CHR ''r'']
         else if b = CHR 0x09 then [CHR 0x5C, CHR ''t'']
         else if b = CHR 0x0B then [CHR 0x5C, CHR ''v'']
         else [CHR 0x5C, CHR ''x''] @ hex_pad 2 (byte_of b))
      else if printable r then r
      else if rune_value r < 0x10000 then [CHR 0x5C, CHR ''u''] @ hex_pad 4 (rune_value r)
      else [CHR 0x5C, CHR ''U''] @ hex_pad 8 (rune_value r))"

definition go_quote :: "(string \<Rightarrow> bool) \<Rightarrow> string \<Rightarrow> string" where
  "go_quote printable s =
     [CHR 0x22] @ concat (map (quote_tok printable) (scan_utf8 s)) @ [CHR 0x22]"

section \<open>The registry\<close>

definition hist_render :: "string \<Rightarrow> histogram \<Rightarrow> string" where
  "hist_render name h =
     ''# HELP '' @ name @ '' ClickHouse batch insert duration in seconds.'' @ [CHR 0x0A] @
     ''# TYPE '' @ name @ '' histogram'' @ [CHR 0x0A] @
     concat (map (\<lambda>(ub, c). name @ ''_bucket{le='' @ [CHR 0x22] @ formatFloat ub @ [CHR 0x22] @ ''} '' @
       itoa c @ [CHR 0x0A]) (zip (h_buckets h) (h_counts h))) @
     name @ ''_bucket{le='' @ [CHR 0x22] @ ''+Inf'' @ [CHR 0x22] @ ''} '' @ itoa (h_count h) @ [CHR 0x0A] @
     name @ ''_sum '' @ formatFloat (h_sum h) @ [CHR 0x0A] @
     name @ ''_count '' @ itoa (h_count h) @ [CHR 0x0A]"

record metrics =
  m_received :: int
  m_inserted :: int
  m_dropped :: int
  m_insertFailed :: int
  m_insertRetries :: int
  m_spoolFiles :: int
  m_spoolBytes :: int
  m_spoolQuarantined :: int
  m_chReachable :: int
  m_rejected :: labeledCounter
  m_truncated :: labeledCounter
  m_restamped :: labeledCounter
  m_httpReqs :: labeledCounter
  m_insertDur :: histogram
  m_projects :: projectCounters
  m_bufferCapBytes :: int
  m_inflightCapBytes :: int
  m_spoolCapBytes :: int
  m_startTime :: int
  m_version :: string
  m_commit :: string

definition newMetrics :: "string \<Rightarrow> string \<Rightarrow> int \<Rightarrow> metrics" where
  "newMetrics version commit now =
     \<lparr>m_received = 0, m_inserted = 0, m_dropped = 0, m_insertFailed = 0, m_insertRetries = 0,
      m_spoolFiles = 0, m_spoolBytes = 0, m_spoolQuarantined = 0, m_chReachable = 0,
      m_rejected = newLabeledCounter, m_truncated = newLabeledCounter,
      m_restamped = newLabeledCounter, m_httpReqs = newLabeledCounter,
      m_insertDur = newHistogram insertBuckets, m_projects = newProjectCounters,
      m_bufferCapBytes = 0, m_inflightCapBytes = 0, m_spoolCapBytes = 0,
      m_startTime = now, m_version = version, m_commit = commit\<rparr>"

text \<open>The four closures \<open>bufferDepth\<close>, \<open>bufferCap\<close>, \<open>bufferBytes\<close>, \<open>inflightBytes\<close>, as read
  by one scrape.\<close>

record gauges =
  g_bufferDepth :: int
  g_bufferCap :: int
  g_bufferBytes :: int
  g_inflightBytes :: int

definition sample :: "string \<Rightarrow> string \<Rightarrow> string \<Rightarrow> int \<Rightarrow> string" where
  "sample kind name help v =
     ''# HELP '' @ name @ '' '' @ help @ [CHR 0x0A] @ ''# TYPE '' @ name @ '' '' @ kind @ [CHR 0x0A] @
     name @ '' '' @ itoa v @ [CHR 0x0A]"

definition scalar_samples :: "metrics \<Rightarrow> gauges \<Rightarrow> (string \<times> string \<times> string \<times> int) list" where
  "scalar_samples m g =
     [(''counter'', ''logden_logs_received_total'', ''Valid log events accepted into the buffer.'', m_received m),
      (''counter'', ''logden_logs_inserted_total'', ''Log events successfully inserted into ClickHouse.'', m_inserted m),
      (''counter'', ''logden_logs_dropped_total'', ''Log events dropped (buffer or spool full).'', m_dropped m),
      (''counter'', ''logden_clickhouse_insert_failed_total'', ''Batch inserts that failed after all retries.'', m_insertFailed m),
      (''counter'', ''logden_clickhouse_insert_retries_total'', ''Batch insert retry attempts.'', m_insertRetries m),
      (''gauge'', ''logden_clickhouse_reachable'', ''ClickHouse passed the last readiness probe (1/0).'', m_chReachable m),
      (''counter'', ''logden_spool_quarantined_total'', ''Spool batches rejected by ClickHouse and quarantined as .bad files.'', m_spoolQuarantined m),
      (''gauge'', ''logden_spool_files'', ''Batches currently spooled to disk awaiting replay.'', m_spoolFiles m),
      (''gauge'', ''logden_spool_bytes'', ''Bytes on disk in the spool directory (including .bad and .tmp files).'', m_spoolBytes m),
      (''gauge'', ''logden_spool_capacity_bytes'', ''Configured SPOOL_MAX_BYTES (0 = unlimited).'', m_spoolCapBytes m),
      (''gauge'', ''logden_buffer_events'', ''Events currently waiting in the in-memory buffer.'', g_bufferDepth g),
      (''gauge'', ''logden_buffer_capacity'', ''Configured in-memory buffer capacity.'', g_bufferCap g),
      (''gauge'', ''logden_buffer_bytes'', ''Bytes held by the in-memory buffer and the in-flight batch.'', g_bufferBytes g),
      (''gauge'', ''logden_buffer_capacity_bytes'', ''Configured BUFFER_MAX_BYTES (0 = unlimited).'', m_bufferCapBytes m),
      (''gauge'', ''logden_inflight_body_bytes'', ''Estimated bytes of request bodies being processed right now.'', g_inflightBytes g),
      (''gauge'', ''logden_inflight_body_capacity_bytes'', ''Configured MAX_INFLIGHT_BODY_BYTES (0 = unlimited).'', m_inflightCapBytes m),
      (''gauge'', ''logden_process_start_time_seconds'', ''Unix time the gateway process started.'', m_startTime m)]"

definition labeled_section :: "string \<Rightarrow> string \<Rightarrow> labeledCounter \<Rightarrow> string" where
  "labeled_section name help c =
     ''# HELP '' @ name @ '' '' @ help @ [CHR 0x0A] @ ''# TYPE '' @ name @ '' counter'' @ [CHR 0x0A] @
     labels_render name c"

definition render :: "(string \<Rightarrow> bool) \<Rightarrow> string \<Rightarrow> metrics \<Rightarrow> gauges \<Rightarrow> string" where
  "render printable go_version m g =
     concat (map (\<lambda>(kind, name, help, v). sample kind name help v) (scalar_samples m g)) @
     labeled_section ''logden_logs_rejected_total''
       ''Requests/events rejected before buffering.'' (m_rejected m) @
     labeled_section ''logden_logs_truncated_total''
       ''Events whose message or context exceeded its size cap.'' (m_truncated m) @
     labeled_section ''logden_logs_restamped_total''
       ''Events whose client timestamp was out of range and replaced with the ingest time.'' (m_restamped m) @
     projects_render (m_projects m) @
     labeled_section ''logden_http_requests_total''
       ''HTTP responses by path and status code.'' (m_httpReqs m) @
     hist_render ''logden_clickhouse_insert_duration_seconds'' (m_insertDur m) @
     ''# HELP logden_build_info Build metadata.'' @ [CHR 0x0A] @ ''# TYPE logden_build_info gauge'' @ [CHR 0x0A] @
     ''logden_build_info{version='' @ go_quote printable (m_version m) @ '',commit='' @
     go_quote printable (m_commit m) @ '',go='' @ go_quote printable go_version @ ''} 1'' @ [CHR 0x0A]"

section \<open>Per-project counters: the label cap and exact counts\<close>

definition labels_of :: "projectCounters \<Rightarrow> string set" where
  "labels_of p = fst ` set (pc_tracked p)"

definition pc_ok :: "projectCounters \<Rightarrow> bool" where
  "pc_ok p \<longleftrightarrow>
     distinct (map fst (pc_tracked p)) \<and> length (pc_tracked p) \<le> maxProjectLabels \<and>
     list_all (\<lambda>(k, v). v = k) (pc_tracked p) \<and> table_ok (pc_received p) \<and> table_ok (pc_dropped p) \<and>
     fst ` set (pc_received p) \<union> fst ` set (pc_dropped p) \<subseteq> insert overflowProject (labels_of p)"

text \<open>What a row's project and its fate add; a request is its events, and a history the
  events of all its requests.\<close>

definition observe_event :: "string \<times> bool \<Rightarrow> projectCounters \<Rightarrow> projectCounters" where
  "observe_event e p = observe_row (if snd e then 1 else 0) 0 (fst e) p"

fun row_events :: "int \<Rightarrow> int \<Rightarrow> row list \<Rightarrow> (string \<times> bool) list" where
  "row_events accepted i [] = []"
| "row_events accepted i (r # rs) = (row_project r, i < accepted) # row_events accepted (i + 1) rs"

definition history_events :: "(row list \<times> int) list \<Rightarrow> (string \<times> bool) list" where
  "history_events h = concat (map (\<lambda>(rows, accepted). row_events accepted 0 rows) h)"

definition observe_history :: "(row list \<times> int) list \<Rightarrow> projectCounters" where
  "observe_history h = fold (\<lambda>(rows, accepted). projects_observe rows accepted) h newProjectCounters"

definition final_label :: "projectCounters \<Rightarrow> string \<Rightarrow> string" where
  "final_label p q = (if q \<in> labels_of p then q else overflowProject)"

definition label_count :: "projectCounters \<Rightarrow> bool \<Rightarrow> string \<Rightarrow> (string \<times> bool) list \<Rightarrow> int" where
  "label_count p b l evs = int (length (filter (\<lambda>(q, a). a = b \<and> final_label p q = l) evs))"

definition counts_exact :: "projectCounters \<Rightarrow> (string \<times> bool) list \<Rightarrow> bool" where
  "counts_exact p evs \<longleftrightarrow>
     (length (pc_tracked p) < maxProjectLabels \<longrightarrow> fst ` set evs \<subseteq> labels_of p) \<and>
     labels_of p \<subseteq> fst ` set evs \<and>
     (\<forall>l. reading (pc_received p) l = label_count p True l evs \<and>
          reading (pc_dropped p) l = label_count p False l evs)"

lemma observe_row_event: "observe_row accepted i q p = observe_event (q, i < accepted) p"
  by (simp add: observe_event_def observe_row_def)

lemma observe_rows_events: "observe_rows accepted i rows p = fold observe_event (row_events accepted i rows) p"
  by (induction rows arbitrary: i p) (auto simp: observe_row_event)

lemma observe_history_events: "observe_history h = fold observe_event (history_events h) newProjectCounters"
proof -
  have "fold (\<lambda>(rows, accepted). projects_observe rows accepted) h p =
      fold observe_event (history_events h) p" for p
    by (induction h arbitrary: p)
      (auto simp: history_events_def projects_observe_def observe_rows_events)
  then show ?thesis by (simp add: observe_history_def)
qed

lemma labelLocked_cases:
  assumes "pc_ok p"
  obtains (known) "project \<in> labels_of p" "labelLocked project p = (project, p)"
  | (full) "project \<notin> labels_of p" "maxProjectLabels \<le> length (pc_tracked p)"
      "labelLocked project p = (overflowProject, p)"
  | (admitted) "project \<notin> labels_of p" "length (pc_tracked p) < maxProjectLabels"
      "labelLocked project p = (project, p\<lparr>pc_tracked := (project, project) # pc_tracked p\<rparr>)"
proof (cases "map_of (pc_tracked p) project")
  case None
  then have "project \<notin> labels_of p" by (simp add: map_of_eq_None_iff labels_of_def)
  then show ?thesis
    using None full admitted
    by (cases "maxProjectLabels \<le> length (pc_tracked p)") (simp_all add: labelLocked_def)
next
  case (Some key)
  then have "(project, key) \<in> set (pc_tracked p)" by (rule map_of_SomeD)
  moreover from this have "key = project" using assms by (force simp: pc_ok_def list_all_iff)
  ultimately show ?thesis
    using Some known by (force simp: labelLocked_def labels_of_def)
qed

lemma observe_event_ok: "pc_ok p \<Longrightarrow> pc_ok (observe_event e p)"
  by (cases e; rule labelLocked_cases [of p "fst e"])
    (auto simp: observe_event_def observe_row_def pc_ok_def labels_of_def)

lemma labels_of_update [simp]:
  "labels_of (p\<lparr>pc_received := r\<rparr>) = labels_of p"
  "labels_of (p\<lparr>pc_dropped := r\<rparr>) = labels_of p"
  "labels_of (p\<lparr>pc_tracked := (q, k) # t\<rparr>) = insert q (fst ` set t)"
  by (simp_all add: labels_of_def)

lemma label_count_update [simp]:
  "label_count (p\<lparr>pc_received := r\<rparr>) b l evs = label_count p b l evs"
  "label_count (p\<lparr>pc_dropped := r\<rparr>) b l evs = label_count p b l evs"
  by (simp_all add: label_count_def final_label_def)

lemma label_count_snoc [simp]:
  "label_count p b l (evs @ [(q, a)]) =
   label_count p b l evs + (if a = b \<and> final_label p q = l then 1 else 0)"
  by (simp add: label_count_def)

text \<open>Admitting a project that no event so far belongs to changes no count.\<close>

lemma label_count_admit:
  assumes "fst ` set evs \<subseteq> labels_of p"
  shows "label_count (p\<lparr>pc_tracked := (q, q) # pc_tracked p\<rparr>) b l evs = label_count p b l evs"
proof -
  have "final_label (p\<lparr>pc_tracked := (q, q) # pc_tracked p\<rparr>) (fst x) = final_label p (fst x)"
    if "x \<in> set evs" for x
    using that assms by (auto simp: final_label_def labels_of_def)
  then show ?thesis
    unfolding label_count_def by (intro arg_cong [of _ _ int] arg_cong [of _ _ length] filter_cong) auto
qed

lemma observe_event_exact:
  assumes "pc_ok p" and "counts_exact p evs"
  shows "counts_exact (observe_event e p) (evs @ [e])"
proof -
  obtain q a where e: "e = (q, a)" by (cases e)
  show ?thesis
    using assms(1)
  proof (cases rule: labelLocked_cases [of p q])
    case known
    then show ?thesis using assms(2)
      by (cases a) (auto simp: e counts_exact_def observe_event_def observe_row_def final_label_def)
  next
    case full
    then show ?thesis using assms(2)
      by (cases a) (auto simp: e counts_exact_def observe_event_def observe_row_def final_label_def)
  next
    case admitted
    let ?p = "p\<lparr>pc_tracked := (q, q) # pc_tracked p\<rparr>"
    have all: "fst ` set evs \<subseteq> labels_of p" using admitted(2) assms(2) by (simp add: counts_exact_def)
    show ?thesis using admitted assms(2) all label_count_admit [OF all, of q]
      by (cases a) (auto simp: e counts_exact_def observe_event_def observe_row_def final_label_def
          labels_of_def [of p])
  qed
qed

lemma fold_observe_event:
  assumes "pc_ok p" and "counts_exact p evs"
  shows "pc_ok (fold observe_event es p) \<and> counts_exact (fold observe_event es p) (evs @ es)"
  using assms
proof (induction es arbitrary: p evs)
  case (Cons e es)
  then show ?case
    using Cons.IH [of "observe_event e p" "evs @ [e]"] observe_event_ok observe_event_exact by simp
qed simp

lemma newProjectCounters_ok: "pc_ok newProjectCounters \<and> counts_exact newProjectCounters []"
  by (simp add: pc_ok_def counts_exact_def newProjectCounters_def labels_of_def label_count_def)

lemma observe_history_ok:
  "pc_ok (observe_history h) \<and> counts_exact (observe_history h) (history_events h)"
  using fold_observe_event [of newProjectCounters "[]" "history_events h"] newProjectCounters_ok
  by (simp add: observe_history_events)

section \<open>The histogram counts cumulatively\<close>

lemma f_le_trans: "f_le x y \<Longrightarrow> f_le y z \<Longrightarrow> f_le x z"
  by (cases x; cases y; cases z) auto

lemma hist_fold:
  "h_counts (fold hist_observe vs (newHistogram bs)) =
     map (\<lambda>ub. int (length (filter (\<lambda>v. f_le v ub) vs))) bs \<and>
   h_count (fold hist_observe vs (newHistogram bs)) = int (length vs) \<and>
   h_buckets (fold hist_observe vs (newHistogram bs)) = bs"
proof (induction vs rule: rev_induct)
  case Nil
  then show ?case by (simp add: newHistogram_def map_replicate_const)
next
  case (snoc v vs)
  have "map2 (\<lambda>ub c. if f_le v ub then c + 1 else c) bs (map f bs) =
      map (\<lambda>ub. if f_le v ub then f ub + 1 else f ub) bs" for f :: "float64 \<Rightarrow> int"
    by (induction bs) auto
  with snoc show ?case by (auto simp: hist_observe_def)
qed

lemma f_le_fl: "x \<le> y \<Longrightarrow> f_le (fl x) (fl y)"
proof -
  assume "x \<le> y"
  then have "rnd x \<le> rnd y" by (rule rnd_mono)
  then show ?thesis by (auto simp: fl_def Let_def)
qed

lemma insertBuckets_sorted: "sorted_wrt f_le insertBuckets"
  by (simp add: insertBuckets_def f_le_fl)

lemma hist_counts_sorted:
  "sorted_wrt f_le bs \<Longrightarrow> sorted (map (\<lambda>ub. int (length (filter (\<lambda>v. f_le v ub) vs))) bs)"
proof (induction bs)
  case (Cons b bs)
  have "length (filter (\<lambda>v. f_le v b) vs) \<le> length (filter (\<lambda>v. f_le v c) vs)" if "f_le b c" for c
    using f_le_trans [OF _ that] by (induction vs) auto
  with Cons show ?case by auto
qed simp

section \<open>Properties\<close>

text \<open>C23: For every history of requests, the per-project counters hold at most 64 labels, and
  each received (dropped) counter is the number of accepted (dropped) events of the whole
  history whose project has that label: a tracked project's counter is exact from the very
  first event, and everything else is in the overflow bucket.\<close>

theorem project_counts_exact:
  "let p = observe_history h; evs = history_events h in
   length (pc_tracked p) \<le> 64 \<and> labels_of p \<subseteq> fst ` set evs \<and>
   (\<forall>l. reading (pc_received p) l = label_count p True l evs \<and>
        reading (pc_dropped p) l = label_count p False l evs)"
  using observe_history_ok [of h]
  by (simp add: Let_def pc_ok_def counts_exact_def maxProjectLabels_def)

text \<open>The insert-duration histogram is cumulative: after any observations bucket \<open>i\<close> counts
  the durations at most its bound, the counts never decrease from bucket to bucket, none
  exceeds the total, and the total is the number of observations.\<close>

theorem insert_histogram_cumulative:
  "let h = fold hist_observe vs (newHistogram insertBuckets) in
   h_counts h = map (\<lambda>ub. int (length (filter (\<lambda>v. f_le v ub) vs))) insertBuckets \<and>
   sorted (h_counts h) \<and> list_all (\<lambda>c. 0 \<le> c \<and> c \<le> h_count h) (h_counts h) \<and>
   h_count h = int (length vs)"
  using hist_fold [of vs insertBuckets] hist_counts_sorted [OF insertBuckets_sorted, of vs]
  by (auto simp: Let_def list_all_iff)

end
