(* ===== verification/GoTime.thy ===== *)
theory GoTime
  imports GoStrings
begin

text \<open>
  What the gateway uses of \<open>time\<close>: an instant is the seconds since 1 January of the year 1,
  UTC (an int64, like \<open>Time.sec\<close>), and the nanoseconds in that second. Built from Unix
  times (\<open>Unix\<close>, \<open>UnixMilli\<close>), from text (\<open>Parse\<close> with RFC3339Nano), printed with the
  layout of ClickHouse's DateTime64(3).
\<close>

section \<open>Instants\<close>

record time =
  t_sec :: int
  t_nsec :: int

definition unixToInternal :: int where
  "unixToInternal = 62135596800"

text \<open>Division that truncates towards zero.\<close>

definition tdiv :: "int \<Rightarrow> int \<Rightarrow> int" where
  "tdiv a b = sgn a * (\<bar>a\<bar> div b)"

definition unix :: "int \<Rightarrow> int \<Rightarrow> time" where
  "unix sec nsec =
     (if nsec < 0 \<or> 1000000000 \<le> nsec then
        (let n = tdiv nsec 1000000000; s1 = i64 (sec + n); r = nsec - n * 1000000000 in
         if r < 0 then \<lparr>t_sec = i64 (i64 (s1 - 1) + unixToInternal), t_nsec = r + 1000000000\<rparr>
         else \<lparr>t_sec = i64 (s1 + unixToInternal), t_nsec = r\<rparr>)
      else \<lparr>t_sec = i64 (sec + unixToInternal), t_nsec = nsec\<rparr>)"

definition unix_milli :: "int \<Rightarrow> time" where
  "unix_milli msec = unix (tdiv msec 1000) ((msec - tdiv msec 1000 * 1000) * 1000000)"

text \<open>\<open>Before\<close>, and \<open>Add\<close> of a duration in nanoseconds (of a reading of the clock, so far
  from the ends of int64).\<close>

definition before :: "time \<Rightarrow> time \<Rightarrow> bool" where
  "before t u \<longleftrightarrow> t_sec t < t_sec u \<or> t_sec t = t_sec u \<and> t_nsec t < t_nsec u"

definition nanos :: "time \<Rightarrow> int" where
  "nanos t = t_sec t * 1000000000 + t_nsec t"

definition time_add :: "time \<Rightarrow> int \<Rightarrow> time" where
  "time_add t d = \<lparr>t_sec = (nanos t + d) div 1000000000, t_nsec = (nanos t + d) mod 1000000000\<rparr>"

definition time_ok :: "time \<Rightarrow> bool" where
  "time_ok t \<longleftrightarrow> 0 \<le> t_nsec t \<and> t_nsec t < 1000000000"

section \<open>The calendar\<close>

text \<open>Days before the year with index \<open>y\<close> (index 0 is the year 1), and the year of a day.\<close>

definition days_before :: "int \<Rightarrow> int" where
  "days_before y = 365 * y + y div 4 - y div 100 + y div 400"

definition leap :: "int \<Rightarrow> bool" where
  "leap year \<longleftrightarrow> year mod 4 = 0 \<and> (year mod 100 \<noteq> 0 \<or> year mod 400 = 0)"

definition year_day :: "int \<Rightarrow> int \<times> int" where
  "year_day d0 =
     (let n4 = d0 div 146097; d1 = d0 - 146097 * n4;
          n3 = min 3 (d1 div 36524); d2 = d1 - 36524 * n3;
          n2 = d2 div 1461; d3 = d2 - 1461 * n2;
          n1 = min 3 (d3 div 365)
      in (400 * n4 + 100 * n3 + 4 * n2 + n1 + 1, d3 - 365 * n1))"

definition month_lengths :: "int \<Rightarrow> int list" where
  "month_lengths year = [31, if leap year then 29 else 28, 31, 30, 31, 30, 31, 31, 30, 31, 30, 31]"

fun month_day :: "int list \<Rightarrow> int \<Rightarrow> int \<Rightarrow> int \<times> int" where
  "month_day [] m d = (m, d + 1)"
| "month_day (l # ls) m d = (if d < l then (m, d + 1) else month_day ls (m + 1) (d - l))"

definition civil :: "int \<Rightarrow> int \<times> int \<times> int" where
  "civil days = (let (y, yd) = year_day days; (m, d) = month_day (month_lengths y) 1 yd in (y, m, d))"

definition days_of :: "int \<Rightarrow> int \<Rightarrow> int \<Rightarrow> int" where
  "days_of y m d = days_before (y - 1) + sum_list (take (nat (m - 1)) (month_lengths y)) + (d - 1)"

section \<open>Format with 2006-01-02 15:04:05.000\<close>

definition format_year :: "int \<Rightarrow> string" where
  "format_year y = (if y < 0 then ''-'' @ pad_zeros 4 (- y) else pad_zeros 4 y)"

definition format_ch :: "time \<Rightarrow> string" where
  "format_ch t =
     (let (y, m, d) = civil (t_sec t div 86400); s = t_sec t mod 86400 in
      format_year y @ ''-'' @ pad_zeros 2 m @ ''-'' @ pad_zeros 2 d @ '' '' @
      pad_zeros 2 (s div 3600) @ '':'' @ pad_zeros 2 (s mod 3600 div 60) @ '':'' @ pad_zeros 2 (s mod 60) @
      ''.'' @ pad_zeros 3 (t_nsec t div 1000000))"

section \<open>Parse with RFC3339Nano\<close>

text \<open>
  \<open>time.Parse\<close> reads the layout chunk by chunk. Its shortcut for RFC3339 accepts a subset
  with the same results, so only the general reader is modelled: one-digit hours, a comma
  before the fraction and offsets up to 24:60 are accepted. \<open>None\<close> is an error.
\<close>

fun getnum :: "bool \<Rightarrow> string \<Rightarrow> (int \<times> string) option" where
  "getnum fixed [] = None"
| "getnum fixed (c # cs) =
     (if \<not> digit c then None
      else case cs of
        [] \<Rightarrow> if fixed then None else Some (digits_value [c], [])
      | e # r \<Rightarrow>
          if digit e then Some (digits_value [c, e], r)
          else if fixed then None else Some (digits_value [c], cs))"

fun expect :: "char \<Rightarrow> string \<Rightarrow> string option" where
  "expect c [] = None"
| "expect c (d # ds) = (if c = d then Some ds else None)"

definition get_year :: "string \<Rightarrow> (int \<times> string) option" where
  "get_year s =
     (if 4 \<le> length s \<and> list_all digit (take 4 s) then Some (digits_value (take 4 s), drop 4 s) else None)"

definition get_fraction :: "string \<Rightarrow> int \<times> string" where
  "get_fraction s =
     (case s of
        c # ds \<Rightarrow>
          (let n = length (takeWhile digit ds); k = min n 9 in
           if (c = CHR ''.'' \<or> c = CHR '','') \<and> 0 < n
           then (digits_value (take k ds) * 10 ^ (9 - k), drop n ds) else (0, s))
      | [] \<Rightarrow> (0, s))"

definition get_offset :: "string \<Rightarrow> (int \<times> string) option" where
  "get_offset s =
     (case s of
        [] \<Rightarrow> None
      | c # r \<Rightarrow>
          if c = CHR ''Z'' then Some (0, r)
          else if length s < 6 \<or> s ! 3 \<noteq> CHR '':'' then None
          else
            (case (getnum True (take 2 (drop 1 s)), getnum True (take 2 (drop 4 s))) of
               (Some (h, _), Some (m, _)) \<Rightarrow>
                 if 24 < h \<or> 60 < m then None
                 else if c = CHR ''+'' then Some ((h * 60 + m) * 60, drop 6 s)
                 else if c = CHR ''-'' then Some (- ((h * 60 + m) * 60), drop 6 s)
                 else None
             | _ \<Rightarrow> None))"

definition days_in :: "int \<Rightarrow> int \<Rightarrow> int" where
  "days_in y m = month_lengths y ! nat (m - 1)"

definition parse_rfc3339 :: "string \<Rightarrow> time option" where
  "parse_rfc3339 s0 =
     Option.bind (get_year s0) (\<lambda>(y, s1).
     Option.bind (expect CHR ''-'' s1) (\<lambda>s2.
     Option.bind (getnum True s2) (\<lambda>(mo, s3).
     if mo < 1 \<or> 12 < mo then None else
     Option.bind (expect CHR ''-'' s3) (\<lambda>s4.
     Option.bind (getnum True s4) (\<lambda>(d, s5).
     Option.bind (expect CHR ''T'' s5) (\<lambda>s6.
     Option.bind (getnum False s6) (\<lambda>(h, s7).
     if 24 \<le> h then None else
     Option.bind (expect CHR '':'' s7) (\<lambda>s8.
     Option.bind (getnum True s8) (\<lambda>(mi, s9).
     if 60 \<le> mi then None else
     Option.bind (expect CHR '':'' s9) (\<lambda>s10.
     Option.bind (getnum True s10) (\<lambda>(sec, s11).
     if 60 \<le> sec then None else
     (case get_fraction s11 of (ns, s12) \<Rightarrow>
     Option.bind (get_offset s12) (\<lambda>(off, s13).
     if s13 \<noteq> [] \<or> d < 1 \<or> days_in y mo < d then None
     else Some \<lparr>t_sec = days_of y mo d * 86400 + h * 3600 + mi * 60 + sec - off, t_nsec = ns\<rparr>)))))))))))))"

section \<open>The calendar is a bijection\<close>

lemma days_before_parts:
  assumes "0 \<le> b" "b \<le> 3" "0 \<le> c" "c \<le> 24" "0 \<le> e" "e \<le> 3"
  shows "days_before (400 * a + 100 * b + 4 * c + e) = 146097 * a + 36524 * b + 1461 * c + 365 * e"
proof -
  have "(400 * a + 100 * b + 4 * c + e) div 4 = 100 * a + 25 * b + c"
    "(400 * a + 100 * b + 4 * c + e) div 100 = 4 * a + b"
    "(400 * a + 100 * b + 4 * c + e) div 400 = a"
    using assms by linarith+
  then show ?thesis by (simp add: days_before_def)
qed

definition year_length :: "int \<Rightarrow> int" where
  "year_length y = (if leap y then 366 else 365)"

lemma div_pred:
  fixes y k :: int
  assumes "0 < k"
  shows "y div k - (y - 1) div k = (if y mod k = 0 then 1 else 0)"
proof -
  have y: "y = k * (y div k) + y mod k" by simp
  have r: "0 \<le> y mod k" "y mod k < k" using assms by simp_all
  show ?thesis
  proof (cases "y mod k = 0")
    case True
    have "(y - 1) div k = y div k - 1"
      using y True assms by (intro int_div_pos_eq [of _ k _ "k - 1"]) (simp_all add: algebra_simps)
    then show ?thesis using True by simp
  next
    case False
    have "(y - 1) div k = y div k"
      using y r False by (intro int_div_pos_eq [of _ k _ "y mod k - 1"]) simp_all
    then show ?thesis using False by simp
  qed
qed

lemma days_before_pred: "days_before y - days_before (y - 1) = year_length y"
proof -
  have m: "y mod 400 = 0 \<Longrightarrow> y mod 100 = 0" "y mod 100 = 0 \<Longrightarrow> y mod 4 = 0"
    by (auto simp: mod_eq_0_iff_dvd intro: dvd_trans)
  have "days_before y - days_before (y - 1) =
      365 + (y div 4 - (y - 1) div 4) - (y div 100 - (y - 1) div 100) + (y div 400 - (y - 1) div 400)"
    by (simp add: days_before_def algebra_simps)
  also have "\<dots> = 365 + (if y mod 4 = 0 then 1 else 0) - (if y mod 100 = 0 then 1 else 0) +
      (if y mod 400 = 0 then 1 else 0)"
    by (simp only: div_pred zero_less_numeral)
  finally show ?thesis
    using m by (cases "y mod 4 = 0"; cases "y mod 100 = 0"; cases "y mod 400 = 0")
      (simp_all add: year_length_def leap_def)
qed

lemma year_day_correct:
  assumes "year_day n = (y, yd)"
  shows "n = days_before (y - 1) + yd \<and> 0 \<le> yd \<and> yd < year_length y"
proof -
  define a where "a = n div 146097"
  define d1 where "d1 = n - 146097 * a"
  define b where "b = min 3 (d1 div 36524)"
  define d2 where "d2 = d1 - 36524 * b"
  define c where "c = d2 div 1461"
  define d3 where "d3 = d2 - 1461 * c"
  define e where "e = min 3 (d3 div 365)"
  have "year_day n = (400 * a + 100 * b + 4 * c + e + 1, d3 - 365 * e)"
    unfolding year_day_def Let_def e_def d3_def c_def d2_def b_def d1_def a_def by (rule refl)
  then have y: "y = 400 * a + 100 * b + 4 * c + e + 1" and yd: "yd = d3 - 365 * e"
    using assms by simp_all
  have d1: "0 \<le> d1" "d1 < 146097"
    unfolding d1_def a_def by (simp_all add: minus_mult_div_eq_mod)
  have b: "0 \<le> b" "b \<le> 3" "36524 * b \<le> d1" "b < 3 \<longrightarrow> d1 < 36524 * b + 36524"
    using d1 div_mult_mod_eq [of d1 36524] pos_mod_bound [of 36524 d1] pos_mod_sign [of 36524 d1]
    unfolding b_def by linarith+
  have d2: "0 \<le> d2" "d2 \<le> 36524" "b < 3 \<longrightarrow> d2 < 36524" using d1 b unfolding d2_def by linarith+
  have c: "0 \<le> c" "c \<le> 24" using d2 unfolding c_def by linarith+
  have d3: "0 \<le> d3" "d3 < 1461" "c = 24 \<and> b < 3 \<longrightarrow> d3 < 1460"
    using d2 unfolding d3_def c_def by linarith+
  have e: "0 \<le> e" "e \<le> 3" "365 * e \<le> d3" "e < 3 \<longrightarrow> d3 < 365 * e + 365"
    using d3 unfolding e_def by linarith+
  have "y = (e + 1) + 4 * (100 * a + 25 * b + c)" using y by simp
  then have "y mod 4 = (e + 1) mod 4" by (simp only: mod_mult_self2)
  then have m4: "y mod 4 = 0 \<longleftrightarrow> e = 3"
    using e(1,2) by (cases "e = 3") (simp_all add: mod_pos_pos_trivial)
  have m100: "y mod 100 = 0 \<longleftrightarrow> c = 24" if "e = 3"
  proof -
    have "y = (4 * c + 4) + 100 * (4 * a + b)" using y that by simp
    then have "y mod 100 = (4 * c + 4) mod 100" by (simp only: mod_mult_self2)
    then show ?thesis using c by (cases "c = 24") (simp_all add: mod_pos_pos_trivial)
  qed
  have m400: "y mod 400 = 0 \<longleftrightarrow> b = 3" if "e = 3" "c = 24"
  proof -
    have "y = (100 * b + 100) + 400 * a" using y that by simp
    then have "y mod 400 = (100 * b + 100) mod 400" by (simp only: mod_mult_self2)
    then show ?thesis using b(1,2) by (cases "b = 3") (simp_all add: mod_pos_pos_trivial)
  qed
  have "yd < year_length y"
  proof (cases "e = 3")
    case True
    then have "leap y \<longleftrightarrow> \<not> (c = 24 \<and> b < 3)"
      using m4 m100 m400 b(2) by (auto simp: leap_def)
    then show ?thesis using d3 True unfolding year_length_def yd by (cases "leap y") auto
  next
    case False
    then show ?thesis using e unfolding year_length_def yd by auto
  qed
  moreover have "n = days_before (y - 1) + yd"
    using days_before_parts [OF b(1,2) c(1,2) e(1,2), of a] by (simp add: y yd d3_def d2_def d1_def)
  ultimately show ?thesis using e(3) yd by simp
qed

lemma days_before_mono: "x < y \<Longrightarrow> days_before (x - 1) + year_length x \<le> days_before (y - 1)"
proof (induction "nat (y - x - 1)" arbitrary: y)
  case 0
  then have "y = x + 1" by simp
  then show ?case using days_before_pred [of x] by simp
next
  case (Suc k)
  then have "days_before (x - 1) + year_length x \<le> days_before (y - 1 - 1)"
    by (intro Suc.hyps(1)) auto
  also have "\<dots> \<le> days_before (y - 1)"
    using days_before_pred [of "y - 1"] by (auto simp: year_length_def split: if_splits)
  finally show ?case .
qed

lemma year_day_unique:
  assumes "0 \<le> yd" "yd < year_length y"
  shows "year_day (days_before (y - 1) + yd) = (y, yd)"
proof -
  obtain y' yd' where q: "year_day (days_before (y - 1) + yd) = (y', yd')"
    by (cases "year_day (days_before (y - 1) + yd)")
  note year_day_correct [OF q]
  then have "y' = y"
    using days_before_mono [of y y'] days_before_mono [of y' y] assms by linarith
  then show ?thesis using q year_day_correct [OF q] by simp
qed

lemma month_day_correct:
  "month_day ls m d = (m', dd) \<Longrightarrow> 0 \<le> d \<Longrightarrow> d < sum_list ls \<Longrightarrow>
   m \<le> m' \<and> m' < m + int (length ls) \<and> 1 \<le> dd \<and> dd \<le> ls ! nat (m' - m) \<and>
   sum_list (take (nat (m' - m)) ls) + (dd - 1) = d"
proof (induction ls arbitrary: m d)
  case (Cons l ls)
  show ?case
  proof (cases "d < l")
    case True
    then show ?thesis using Cons.prems by auto
  next
    case False
    then have "m + 1 \<le> m' \<and> m' < m + 1 + int (length ls) \<and> 1 \<le> dd \<and> dd \<le> ls ! nat (m' - (m + 1)) \<and>
        sum_list (take (nat (m' - (m + 1))) ls) + (dd - 1) = d - l"
      using Cons by auto
    moreover from this have "nat (m' - m) = Suc (nat (m' - (m + 1)))" by auto
    ultimately show ?thesis by simp
  qed
qed simp

lemma month_day_unique:
  "i < length ls \<Longrightarrow> 1 \<le> dd \<Longrightarrow> dd \<le> ls ! i \<Longrightarrow> list_all (\<lambda>l. 0 \<le> l) ls \<Longrightarrow>
   month_day ls m (sum_list (take i ls) + (dd - 1)) = (m + int i, dd)"
proof (induction ls arbitrary: m i)
  case (Cons l ls)
  show ?case
  proof (cases i)
    case 0
    then show ?thesis using Cons.prems by simp
  next
    case (Suc j)
    have "0 \<le> sum_list (take j ls)"
      using Cons.prems(4) by (intro sum_list_nonneg) (auto simp: list_all_iff dest: in_set_takeD)
    then show ?thesis using Cons.IH [of j "m + 1"] Cons.prems Suc by (simp add: add.assoc)
  qed
qed simp

lemma sum_month_lengths: "sum_list (month_lengths y) = year_length y"
  by (simp add: month_lengths_def year_length_def)

lemma length_month_lengths [simp]: "length (month_lengths y) = 12"
  by (simp add: month_lengths_def)

lemma civil_correct:
  assumes "civil n = (y, m, d)"
  shows "1 \<le> m \<and> m \<le> 12 \<and> 1 \<le> d \<and> d \<le> days_in y m \<and> days_of y m d = n"
proof -
  obtain yd where q: "year_day n = (y, yd)" "month_day (month_lengths y) 1 yd = (m, d)"
    using assms by (auto simp: civil_def split: prod.splits)
  show ?thesis
    using year_day_correct [OF q(1)] month_day_correct [OF q(2)]
    by (auto simp: sum_month_lengths days_in_def days_of_def)
qed

lemma civil_days_of:
  assumes "1 \<le> m" "m \<le> 12" "1 \<le> d" "d \<le> days_in y m"
  shows "civil (days_of y m d) = (y, m, d)"
proof -
  let ?ls = "month_lengths y" and ?i = "nat (m - 1)"
  have i: "?i < 12" using assms by auto
  have pos: "list_all (\<lambda>l. 0 \<le> l) ?ls" by (simp add: month_lengths_def)
  let ?yd = "sum_list (take ?i ?ls) + (d - 1)"
  have md: "month_day ?ls 1 ?yd = (m, d)"
    using month_day_unique [of ?i ?ls d 1] assms i pos by (simp add: days_in_def)
  have "sum_list ?ls = sum_list (take ?i ?ls) + ?ls ! ?i + sum_list (drop (Suc ?i) ?ls)"
    using id_take_nth_drop [of ?i ?ls] i by (metis length_month_lengths add.assoc sum_list.Cons sum_list_append)
  moreover have "0 \<le> sum_list (drop (Suc ?i) ?ls)" "0 \<le> sum_list (take ?i ?ls)"
    using pos by (auto intro!: sum_list_nonneg simp: list_all_iff dest: in_set_takeD in_set_dropD)
  ultimately have "0 \<le> ?yd" "?yd < year_length y"
    using assms by (auto simp: days_in_def simp flip: sum_month_lengths)
  then have "year_day (days_before (y - 1) + ?yd) = (y, ?yd)" by (rule year_day_unique)
  then show ?thesis using md by (simp add: civil_def days_of_def add.assoc)
qed

section \<open>Printing and reading back\<close>

lemma dec_length: "0 \<le> n \<Longrightarrow> n < 10 ^ w \<Longrightarrow> 0 < w \<Longrightarrow> length (dec n) \<le> w"
proof (induction n arbitrary: w rule: dec.induct)
  case (1 n)
  show ?case
  proof (cases "n < 10")
    case True
    then show ?thesis using 1 by (simp add: dec.simps [of n])
  next
    case False
    obtain v where w: "w = Suc v" using 1(4) by (cases w) auto
    have "0 < v" using False 1(3) w by (cases v) auto
    moreover have "n div 10 < 10 ^ v" using 1(3) w by simp
    ultimately have "length (dec (n div 10)) \<le> v" using 1 False by simp
    then show ?thesis using False w by (simp add: dec.simps [of n])
  qed
qed

lemma pad_zeros_length: "0 \<le> n \<Longrightarrow> n < 10 ^ w \<Longrightarrow> 0 < w \<Longrightarrow> length (pad_zeros w n) = w"
  using dec_length [of n w] by (simp add: pad_zeros_def Let_def)

lemma pad_zeros_digits: "0 \<le> n \<Longrightarrow> list_all digit (pad_zeros w n)"
  using decimal_pad_zeros [of n w] by (simp add: decimal_def)

lemma getnum_pad: "0 \<le> n \<Longrightarrow> n < 100 \<Longrightarrow> getnum fixed (pad_zeros 2 n @ rest) = Some (n, rest)"
proof -
  assume n: "0 \<le> n" "n < 100"
  then have "length (pad_zeros 2 n) = 2" by (intro pad_zeros_length) simp_all
  then obtain c d where cd: "pad_zeros 2 n = [c, d]"
    by (auto simp: numeral_2_eq_2 length_Suc_conv)
  then have "digit c" "digit d" "digits_value [c, d] = n"
    using pad_zeros_digits [of n 2] digits_value_pad_zeros [of n 2] n by simp_all
  then show ?thesis by (simp add: cd)
qed

lemma get_year_pad: "0 \<le> n \<Longrightarrow> n < 10000 \<Longrightarrow> get_year (pad_zeros 4 n @ rest) = Some (n, rest)"
  using pad_zeros_length [of n 4] pad_zeros_digits [of n 4] by (simp add: get_year_def)

lemma get_fraction_pad:
  assumes "0 \<le> n" "n < 1000"
  shows "get_fraction (''.'' @ pad_zeros 3 n @ ''Z'') = (n * 1000000, ''Z'')"
proof -
  have l: "length (pad_zeros 3 n) = 3" using assms by (intro pad_zeros_length) simp_all
  have "takeWhile digit (pad_zeros 3 n @ ''Z'') = pad_zeros 3 n"
    using pad_zeros_digits [OF assms(1), of 3]
    by (subst takeWhile_append2) (auto simp: list_all_iff digit_def)
  moreover have "pad_zeros 3 n \<noteq> []" using l by auto
  ultimately show ?thesis using l assms by (simp add: get_fraction_def)
qed

text \<open>The printed form with \<open>T\<close> for the space and \<open>Z\<close> at the end is RFC3339.\<close>

definition rfc3339_form :: "string \<Rightarrow> string" where
  "rfc3339_form s = map (\<lambda>c. if c = CHR '' '' then CHR ''T'' else c) s @ ''Z''"

lemma map_no_space: "CHR '' '' \<notin> set s \<Longrightarrow> map (\<lambda>c. if c = CHR '' '' then CHR ''T'' else c) s = s"
  by (induction s) auto

lemma pad_no_space: "0 \<le> n \<Longrightarrow> CHR '' '' \<notin> set (pad_zeros w n)"
  using decimal_no_sep [of "pad_zeros w n" "CHR '' ''"] by (simp add: digit_def)

lemma rfc3339_form_pads:
  assumes "0 \<le> y" "0 \<le> m" "0 \<le> d" "0 \<le> h" "0 \<le> mi" "0 \<le> sec" "0 \<le> ms"
  shows "rfc3339_form (format_year y @ ''-'' @ pad_zeros 2 m @ ''-'' @ pad_zeros 2 d @ '' '' @
      pad_zeros 2 h @ '':'' @ pad_zeros 2 mi @ '':'' @ pad_zeros 2 sec @ ''.'' @ pad_zeros 3 ms) =
    pad_zeros 4 y @ ''-'' @ pad_zeros 2 m @ ''-'' @ pad_zeros 2 d @ ''T'' @
      pad_zeros 2 h @ '':'' @ pad_zeros 2 mi @ '':'' @ pad_zeros 2 sec @ ''.'' @ pad_zeros 3 ms @ ''Z''"
  using assms by (simp add: rfc3339_form_def format_year_def map_no_space pad_no_space)

lemma parse_pads:
  assumes "1 \<le> y" "y \<le> 9999" "1 \<le> m" "m \<le> 12" "1 \<le> d" "d \<le> days_in y m" "d \<le> 31"
    "0 \<le> h" "h < 24" "0 \<le> mi" "mi < 60" "0 \<le> sec" "sec < 60" "get_fraction (frac @ ''Z'') = (ns, ''Z'')"
  shows "parse_rfc3339 (pad_zeros 4 y @ ''-'' @ pad_zeros 2 m @ ''-'' @ pad_zeros 2 d @ ''T'' @
      pad_zeros 2 h @ '':'' @ pad_zeros 2 mi @ '':'' @ pad_zeros 2 sec @ frac @ ''Z'') =
    Some \<lparr>t_sec = days_of y m d * 86400 + h * 3600 + mi * 60 + sec, t_nsec = ns\<rparr>"
proof -
  have "get_offset ''Z'' = Some (0, [])" by (simp add: get_offset_def)
  then show ?thesis
    using assms by (simp add: parse_rfc3339_def get_year_pad getnum_pad)
qed

lemma year_day_nonneg: "0 \<le> n \<Longrightarrow> n < days_before 9999 \<Longrightarrow> civil n = (y, m, d) \<Longrightarrow> 1 \<le> y \<and> y \<le> 9999"
proof -
  assume n: "0 \<le> n" "n < days_before 9999" and c: "civil n = (y, m, d)"
  obtain yd where yd: "year_day n = (y, yd)"
    using c by (auto simp: civil_def split: prod.splits)
  note q = year_day_correct [OF yd]
  have "\<not> y < 1" using days_before_mono [of y 1] q n(1) by (auto simp: days_before_def)
  moreover have "\<not> 9999 < y"
    using days_before_mono [of 9999 y] q n(2) days_before_pred [of 9999] by auto
  ultimately show ?thesis by auto
qed

text \<open>The parts of an instant, in range and adding up to it.\<close>

lemma clock_parts:
  assumes "0 \<le> t_sec t" "t_sec t < 86400 * days_before 9999" "civil (t_sec t div 86400) = (y, m, d)"
    "s = t_sec t mod 86400"
  shows "1 \<le> y" "y \<le> 9999" "1 \<le> m" "m \<le> 12" "1 \<le> d" "d \<le> days_in y m" "d \<le> 31"
    "0 \<le> s div 3600" "s div 3600 < 24" "0 \<le> s mod 3600 div 60" "s mod 3600 div 60 < 60" "0 \<le> s mod 60" "s mod 60 < 60"
    "days_of y m d * 86400 + s div 3600 * 3600 + s mod 3600 div 60 * 60 + s mod 60 = t_sec t"
proof -
  define days where "days = t_sec t div 86400"
  have c: "civil days = (y, m, d)" using assms(3) by (simp add: days_def)
  have days: "0 \<le> days" "days < days_before 9999"
    using assms(1,2) by (simp_all add: days_def pos_imp_zdiv_nonneg_iff)
  show y: "1 \<le> y" "y \<le> 9999" using year_day_nonneg [OF days c] by auto
  have md: "1 \<le> m" "m \<le> 12" "1 \<le> d" "d \<le> days_in y m" "days_of y m d = days"
    using civil_correct [OF c] by auto
  then show "1 \<le> m" "m \<le> 12" "1 \<le> d" "d \<le> days_in y m" by auto
  show "d \<le> 31"
  proof -
    have "list_all (\<lambda>l. l \<le> 31) (month_lengths y)" by (simp add: month_lengths_def)
    moreover have "nat (m - 1) < length (month_lengths y)" using md by auto
    ultimately show ?thesis using md(4) by (auto simp: days_in_def list_all_length)
  qed
  have s: "0 \<le> s" "s < 86400" by (simp_all add: assms(4))
  show "0 \<le> s div 3600" "s div 3600 < 24" "0 \<le> s mod 3600 div 60" "s mod 3600 div 60 < 60" "0 \<le> s mod 60" "s mod 60 < 60"
    using s by (auto simp: pos_imp_zdiv_nonneg_iff)
  have "s mod 3600 mod 60 = s mod 60" by (rule mod_mod_cancel) simp
  then have "s div 3600 * 3600 + s mod 3600 div 60 * 60 + s mod 60 = s"
    using div_mult_mod_eq [of s 3600] div_mult_mod_eq [of "s mod 3600" 60] by linarith
  moreover have "days * 86400 + s = t_sec t" unfolding days_def assms(4) by (rule div_mult_mod_eq)
  ultimately show "days_of y m d * 86400 + s div 3600 * 3600 + s mod 3600 div 60 * 60 + s mod 60 = t_sec t"
    using md(5) by linarith
qed

lemma parse_format_ch:
  assumes "time_ok t" "0 \<le> t_sec t" "t_sec t < 86400 * days_before 9999"
  shows "parse_rfc3339 (rfc3339_form (format_ch t)) =
    Some \<lparr>t_sec = t_sec t, t_nsec = t_nsec t div 1000000 * 1000000\<rparr>"
proof -
  define s where "s = t_sec t mod 86400"
  obtain y m d where c: "civil (t_sec t div 86400) = (y, m, d)" by (cases "civil (t_sec t div 86400)") auto
  note parts = clock_parts [OF assms(2,3) c s_def]
  have ms: "0 \<le> t_nsec t div 1000000" "t_nsec t div 1000000 < 1000"
    using assms(1) by (auto simp: time_ok_def pos_imp_zdiv_nonneg_iff)
  have pos: "0 \<le> y" "0 \<le> m" "0 \<le> d" using parts(1,3,5) by linarith+
  have form: "rfc3339_form (format_ch t) =
      pad_zeros 4 y @ ''-'' @ pad_zeros 2 m @ ''-'' @ pad_zeros 2 d @ ''T'' @
      pad_zeros 2 (s div 3600) @ '':'' @ pad_zeros 2 (s mod 3600 div 60) @ '':'' @ pad_zeros 2 (s mod 60) @
      (''.'' @ pad_zeros 3 (t_nsec t div 1000000)) @ ''Z''"
    unfolding format_ch_def c Let_def prod.case s_def [symmetric]
    using rfc3339_form_pads [OF pos parts(8,10,12) ms(1)] by simp
  have "get_fraction ((''.'' @ pad_zeros 3 (t_nsec t div 1000000)) @ ''Z'') = (t_nsec t div 1000000 * 1000000, ''Z'')"
    using get_fraction_pad [OF ms] by simp
  then show ?thesis
    using parse_pads [OF parts(1-13)] parts(14) by (simp only: form)
qed

section \<open>Format with RFC3339Nano\<close>

text \<open>The zeros at the end of the fraction are cut, and the fraction when it is zero.\<close>

definition format_fraction :: "int \<Rightarrow> string" where
  "format_fraction ns = (if ns = 0 then [] else CHR ''.'' # trim_right ''0'' (pad_zeros 9 ns))"

definition format_nano :: "time \<Rightarrow> string" where
  "format_nano t =
     (let (y, m, d) = civil (t_sec t div 86400); s = t_sec t mod 86400 in
      format_year y @ ''-'' @ pad_zeros 2 m @ ''-'' @ pad_zeros 2 d @ ''T'' @
      pad_zeros 2 (s div 3600) @ '':'' @ pad_zeros 2 (s mod 3600 div 60) @ '':'' @ pad_zeros 2 (s mod 60) @
      format_fraction (t_nsec t) @ ''Z'')"

lemma trim_right_split: "\<exists>k. s = trim_right [c] s @ replicate k c"
proof -
  have "rev s = takeWhile (\<lambda>x. x = c) (rev s) @ dropWhile (\<lambda>x. x = c) (rev s)" by simp
  moreover have "takeWhile (\<lambda>x. x = c) (rev s) = replicate (length (takeWhile (\<lambda>x. x = c) (rev s))) c"
    by (metis (mono_tags, lifting) replicate_length_same set_takeWhileD)
  ultimately have "s = rev (dropWhile (\<lambda>x. x = c) (rev s)) @ replicate (length (takeWhile (\<lambda>x. x = c) (rev s))) c"
    by (metis rev_append rev_replicate rev_rev_ident)
  then show ?thesis by (auto simp: trim_right_def)
qed

lemma digits_value_shift: "digits_value (s @ replicate k CHR ''0'') = digits_value s * 10 ^ k"
proof (induction k)
  case (Suc k)
  have "s @ replicate (Suc k) CHR ''0'' = (s @ replicate k CHR ''0'') @ [CHR ''0'']"
    by (simp add: replicate_append_same)
  then show ?case using Suc by (simp only: digits_value_snoc) simp
qed simp

lemma get_format_fraction:
  assumes "0 \<le> ns" "ns < 1000000000"
  shows "get_fraction (format_fraction ns @ ''Z'') = (ns, ''Z'')"
proof (cases "ns = 0")
  case True
  then show ?thesis by (simp add: format_fraction_def get_fraction_def)
next
  case False
  let ?ds = "trim_right ''0'' (pad_zeros 9 ns)"
  obtain k where k: "pad_zeros 9 ns = ?ds @ replicate k CHR ''0''" using trim_right_split by blast
  have len: "length ?ds + k = 9"
  proof -
    have "length (pad_zeros 9 ns) = 9" using assms by (intro pad_zeros_length) simp_all
    then show ?thesis using arg_cong [OF k, of length] by simp
  qed
  have "digits_value (?ds @ replicate k CHR ''0'') = ns" using digits_value_pad_zeros [of ns 9] assms(1) k by simp
  then have v: "digits_value ?ds * 10 ^ k = ns" by (simp only: digits_value_shift)
  then have ne: "?ds \<noteq> []" using False by (auto simp: digits_value_def)
  have "list_all digit (?ds @ replicate k CHR ''0'')" using pad_zeros_digits [OF assms(1), of 9] k by simp
  then have "takeWhile digit (?ds @ ''Z'') = ?ds"
    by (subst takeWhile_append2) (auto simp: list_all_iff digit_def)
  moreover have "9 - length ?ds = k" "min (length ?ds) 9 = length ?ds" using len by auto
  ultimately show ?thesis using False ne v by (simp add: format_fraction_def get_fraction_def)
qed

lemma parse_format_nano:
  assumes "time_ok t" "0 \<le> t_sec t" "t_sec t < 86400 * days_before 9999"
  shows "parse_rfc3339 (format_nano t) = Some t"
proof -
  define s where "s = t_sec t mod 86400"
  obtain y m d where c: "civil (t_sec t div 86400) = (y, m, d)" by (cases "civil (t_sec t div 86400)") auto
  note parts = clock_parts [OF assms(2,3) c s_def]
  have "\<not> y < 0" using parts(1) by simp
  then have form: "format_nano t =
      pad_zeros 4 y @ ''-'' @ pad_zeros 2 m @ ''-'' @ pad_zeros 2 d @ ''T'' @
      pad_zeros 2 (s div 3600) @ '':'' @ pad_zeros 2 (s mod 3600 div 60) @ '':'' @ pad_zeros 2 (s mod 60) @
      format_fraction (t_nsec t) @ ''Z''"
    unfolding format_nano_def c Let_def prod.case s_def [symmetric] by (simp add: format_year_def)
  have "get_fraction (format_fraction (t_nsec t) @ ''Z'') = (t_nsec t, ''Z'')"
    using assms(1) by (intro get_format_fraction) (simp_all add: time_ok_def)
  then show ?thesis
    using parse_pads [OF parts(1-13)] parts(14) by (simp only: form) simp
qed

end
