(* ===== verification/Validate.thy ===== *)
theory Validate
  imports JsonFacts Config Metrics GoTime
begin

text \<open>
  The event level of \<open>gateway/validate.go\<close>: levels, contexts, timestamps and \<open>buildRow\<close>,
  which turns a decoded event into a row or refuses it.
\<close>

section \<open>Events\<close>

text \<open>A \<open>json.RawMessage\<close> is the raw bytes; a missing member is the empty slice.\<close>

record inEvent =
  ev_project :: string
  ev_level :: string
  ev_message :: string
  ev_context :: string
  ev_timestamp :: string

section \<open>Project names and levels\<close>

definition project_char :: "char \<Rightarrow> bool" where
  "project_char c \<longleftrightarrow>
     (let n = byte_of c in 65 \<le> n \<and> n \<le> 90 \<or> 97 \<le> n \<and> n \<le> 122 \<or> digit c) \<or>
     c = CHR ''.'' \<or> c = CHR ''_'' \<or> c = CHR ''-''"

definition projectRe :: "string \<Rightarrow> bool" where
  "projectRe s \<longleftrightarrow> 1 \<le> length s \<and> length s \<le> 64 \<and> list_all project_char s"

definition levelAliases :: "(string \<times> string) list" where
  "levelAliases =
     [(''warn'', ''warning''), (''err'', ''error''), (''fatal'', ''critical''), (''panic'', ''emergency''),
      (''trace'', ''debug'')]"

definition allowedLevels :: "string list" where
  "allowedLevels =
     [''debug'', ''info'', ''notice'', ''warning'', ''error'', ''critical'', ''alert'', ''emergency'']"

definition normalizeLevel :: "string \<Rightarrow> string" where
  "normalizeLevel s0 =
     (let s = to_lower (trim_space s0) in
      if s = [] then ''info''
      else let s' = (case map_of levelAliases s of Some a \<Rightarrow> a | None \<Rightarrow> s)
           in if s' \<in> set allowedLevels then s' else ''info'')"

section \<open>Contexts\<close>

definition json_key :: "string \<Rightarrow> string" where
  "json_key k = [CHR 0x22] @ k @ [CHR 0x22]"

definition normalizeContext :: "string \<Rightarrow> int \<Rightarrow> string \<times> bool" where
  "normalizeContext raw limit =
     (let t = trim_space raw in
      if t = [] \<or> t = ''null'' then (''{}'', False)
      else if \<not> json_valid t then (''{'' @ json_key ''_invalid_json'' @ '':true}'', False)
      else let t' = (if utf8_valid t then t else to_valid_utf8 replacement_char t) in
           if limit < int (length t') then
             (''{'' @ json_key ''_truncated'' @ '':true,'' @ json_key ''_orig_bytes'' @ '':'' @
                itoa (int (length t')) @ ''}'', True)
           else (t', False))"

section \<open>Timestamps\<close>

datatype skew = SkewNone | SkewFuture | SkewTooOld

text \<open>The instant a client timestamp denotes; \<open>None\<close> when it is not one.\<close>

definition event_time :: "string \<Rightarrow> time option" where
  "event_time raw =
     (if hd raw = CHR 0x22 then
        (if \<not> json_valid raw then None
         else case unquote raw of
           None \<Rightarrow> None
         | Some str \<Rightarrow> parse_rfc3339 (trim_space str))
      else case parse_float raw of
        None \<Rightarrow> None
      | Some f \<Rightarrow>
          if f_lt (Fin (10 ^ 12)) f then Some (unix_milli (f_to_int64 f))
          else let sec = f_to_int64 f in
               Some (unix sec (f_to_int64 (f_mul (f_sub f (f_of_int sec)) (Fin 1000000000)))))"

definition normalizeEventTime :: "time \<Rightarrow> string \<Rightarrow> int \<Rightarrow> string \<times> skew" where
  "normalizeEventTime now raw0 keep =
     (let raw = trim_space raw0 in
      if raw = [] \<or> raw = ''null'' then ([], SkewNone)
      else case event_time raw of
        None \<Rightarrow> ([], SkewNone)
      | Some t \<Rightarrow>
          if before (time_add now (5 * 60 * 1000000000)) t then ([], SkewFuture)
          else if before t (time_add now (- keep)) then ([], SkewTooOld)
          else (format_ch t, SkewNone))"

definition normalizeTimestamp :: "time \<Rightarrow> string \<Rightarrow> int \<Rightarrow> string" where
  "normalizeTimestamp now raw keep = fst (normalizeEventTime now raw keep)"

section \<open>buildRow\<close>

definition truncation_suffix :: string where
  "truncation_suffix = [CHR 0xE2, CHR 0x80, CHR 0xA6] @ ''[truncated]''"

definition truncate_message :: "int \<Rightarrow> string \<Rightarrow> string" where
  "truncate_message limit msg =
     (if limit \<le> int (length truncation_suffix)
      then to_valid_utf8 [] (take (nat limit) msg)
      else to_valid_utf8 [] (take (nat (limit - int (length truncation_suffix))) msg) @ truncation_suffix)"

definition label :: "string \<Rightarrow> string \<Rightarrow> string" where
  "label name v = name @ ''='' @ [CHR 0x22] @ v @ [CHR 0x22]"

definition inc_truncated :: "string \<Rightarrow> metrics \<Rightarrow> metrics" where
  "inc_truncated field m = m\<lparr>m_truncated := labels_inc (label ''field'' field) (m_truncated m)\<rparr>"

definition inc_restamped :: "string \<Rightarrow> metrics \<Rightarrow> metrics" where
  "inc_restamped reason m = m\<lparr>m_restamped := labels_inc (label ''reason'' reason) (m_restamped m)\<rparr>"

definition inc_rejected :: "string \<Rightarrow> metrics \<Rightarrow> metrics" where
  "inc_rejected reason m = m\<lparr>m_rejected := labels_inc (label ''reason'' reason) (m_rejected m)\<rparr>"

text \<open>\<open>now\<close> is what \<open>time.Now\<close> reads (the function reads the clock up to twice, for the
  range check and for the ingest time).\<close>

definition buildRow :: "config \<Rightarrow> time \<Rightarrow> time \<Rightarrow> inEvent \<Rightarrow> metrics \<Rightarrow> row option \<times> metrics" where
  "buildRow cfg now now' e m =
     (let project = trim_space (ev_project e) in
      if \<not> projectRe project then (None, m)
      else if trim_space (ev_message e) = [] then (None, m)
      else
        (let too_long = maxMessageBytes cfg < int (length (ev_message e));
             m1 = (if too_long then inc_truncated ''message'' m else m);
             msg = (if too_long then truncate_message (maxMessageBytes cfg) (ev_message e) else ev_message e);
             (ts, skew) = normalizeEventTime now (ev_timestamp e) (retention cfg);
             ts' = (if ts = [] then format_ch now' else ts);
             m2 = (if ts = [] then
                     (case skew of
                        SkewFuture \<Rightarrow> inc_restamped ''future'' m1
                      | SkewTooOld \<Rightarrow> inc_restamped ''too_old'' m1
                      | SkewNone \<Rightarrow> m1)
                   else m1);
             (ctx, ctxTruncated) = normalizeContext (ev_context e) (maxContextBytes cfg);
             m3 = (if ctxTruncated then inc_truncated ''context'' m2 else m2)
         in (Some \<lparr>row_timestamp = ts', row_project = project, row_level = normalizeLevel (ev_level e),
                   row_message = msg, row_context = ctx, row_source_ip = []\<rparr>, m3)))"

section \<open>Levels and contexts\<close>

lemma normalizeLevel_allowed: "normalizeLevel s \<in> set allowedLevels"
  by (simp add: normalizeLevel_def Let_def allowedLevels_def)

lemma scans_digits:
  "list_all digit s \<Longrightarrow> scans (Num1, ps) s (Num1, ps)"
  by (induction s) (auto simp: scans_def)

lemma dec_first: "0 < n \<Longrightarrow> \<exists>c cs. dec n = c # cs \<and> digit c \<and> c \<noteq> CHR ''0'' \<and> list_all digit cs"
proof (induction n rule: dec.induct)
  case (1 n)
  show ?case
  proof (cases "n < 10")
    case True
    have "int (byte_of (digit_char n)) = 48 + n" using 1(2) True by simp
    then have "digit_char n \<noteq> CHR ''0''" using 1(2) by (intro notI) simp
    then show ?thesis using 1(2) True by (simp add: dec.simps [of n])
  next
    case False
    then have "0 < n div 10" by simp
    then show ?thesis using 1(1) False by (fastforce simp: dec.simps [of n])
  qed
qed

lemma scans_dec:
  assumes "0 < n"
  shows "scans (BeginValue, ps) (dec n) (Num1, ps)"
proof -
  obtain c cs where c: "dec n = c # cs" "digit c" "c \<noteq> CHR ''0''" "list_all digit cs"
    using dec_first [OF assms] by blast
  have "c \<noteq> d" if "\<not> digit d" for d using c(2) that by auto
  then have "begin_value c ps = (ScanBeginLiteral, (Num1, ps))"
    using c(2,3) by (simp add: begin_value_def is_space_def digit_def)
  then show ?thesis
    unfolding c(1)
    by (intro scans_Cons [of c _ ScanBeginLiteral "(Num1, ps)"] scans_digits [OF c(4)]) simp_all
qed

definition truncated_marker :: "int \<Rightarrow> string" where
  "truncated_marker n =
     ''{'' @ json_key ''_truncated'' @ '':true,'' @ json_key ''_orig_bytes'' @ '':'' @ itoa n @ ''}''"

lemma truncated_marker_valid:
  assumes "0 < n"
  shows "json_valid (truncated_marker n)"
proof -
  have "scans scan_start (''{'' @ json_key ''_truncated'' @ '':true,'' @ json_key ''_orig_bytes'' @ '':'')
      (BeginValue, [ParseObjectValue])"
    by (simp add: scans_def json_key_def begin_value_def begin_string_def push_def maxNestingDepth_def is_space_def)
  moreover have "scans (Num1, [ParseObjectValue]) ''}'' (EndTop, [])"
    by (simp add: scans_def state0_def digit_def is_space_def pop_def)
  ultimately have "scans scan_start
      ((''{'' @ json_key ''_truncated'' @ '':true,'' @ json_key ''_orig_bytes'' @ '':'') @ dec n @ ''}'') (EndTop, [])"
    using scans_dec [OF assms] by (blast intro: scans_append)
  then show ?thesis
    using assms by (simp add: json_valid_def scans_def scan_eof_def truncated_marker_def itoa_def)
qed

lemma utf8_valid_digits: "list_all digit s \<Longrightarrow> utf8_valid s"
  by (rule utf8_valid_ascii) (auto simp: list_all_iff digit_def)

lemma truncated_marker_utf8: "0 < n \<Longrightarrow> utf8_valid (truncated_marker n)"
  using decimal_dec [of n]
  by (auto simp: truncated_marker_def itoa_def json_key_def decimal_def
      intro!: utf8_valid_append [of "''{'' @ s @ t" for s t, simplified append_assoc] utf8_valid_ascii)
    (auto simp: list_all_iff digit_def)

definition context_ok :: "int \<Rightarrow> string \<Rightarrow> bool" where
  "context_ok limit ctx \<longleftrightarrow>
     json_valid ctx \<and> utf8_valid ctx \<and>
     (int (length ctx) \<le> limit \<or> ctx = ''{}'' \<or> ctx = ''{'' @ json_key ''_invalid_json'' @ '':true}'' \<or>
      (\<exists>n > limit. ctx = truncated_marker n))"

lemma json_valid_nonempty: "json_valid s \<Longrightarrow> s \<noteq> []"
  by (auto simp: json_valid_def scan_eof_def begin_value_def is_space_def)

lemma json_valid_constants:
  "json_valid ''{}''" "json_valid (''{'' @ json_key ''_invalid_json'' @ '':true}'')"
  by (simp_all add: json_valid_def json_key_def begin_value_def begin_string_def push_def pop_def
      maxNestingDepth_def is_space_def scan_eof_def)

lemma utf8_valid_constants:
  "utf8_valid ''{}''" "utf8_valid (''{'' @ json_key ''_invalid_json'' @ '':true}'')"
  by (simp_all add: json_key_def utf8_valid_ascii)

lemma normalizeContext_ok: "context_ok limit (fst (normalizeContext raw limit))"
proof -
  define t where "t = trim_space raw"
  define u where "u = (if utf8_valid t then t else to_valid_utf8 replacement_char t)"
  have u: "json_valid u \<and> utf8_valid u \<and> 0 < length u" if "json_valid t"
  proof -
    have "json_valid u" using that json_valid_sanitise by (simp add: u_def)
    moreover have "utf8_valid u" by (simp add: u_def utf8_simps)
    ultimately show ?thesis using json_valid_nonempty by blast
  qed
  have "normalizeContext raw limit =
      (if t = [] \<or> t = ''null'' then (''{}'', False)
       else if \<not> json_valid t then (''{'' @ json_key ''_invalid_json'' @ '':true}'', False)
       else if limit < int (length u) then (truncated_marker (int (length u)), True)
       else (u, False))"
    by (simp only: normalizeContext_def t_def u_def Let_def truncated_marker_def)
  then show ?thesis
    using u json_valid_constants utf8_valid_constants
      truncated_marker_valid [of "int (length u)"] truncated_marker_utf8 [of "int (length u)"]
    by (auto simp: context_ok_def)
qed

section \<open>Messages\<close>

lemma truncation_suffix_length: "length truncation_suffix = 14"
  by (simp add: truncation_suffix_def)

lemma truncation_suffix_utf8: "utf8_valid truncation_suffix"
  by (simp add: truncation_suffix_def utf8_valid_def Let_def in_range_def)

lemma truncate_message_utf8: "utf8_valid (truncate_message limit msg)"
  by (auto simp: truncate_message_def utf8_simps intro!: utf8_valid_append truncation_suffix_utf8)

lemma truncate_message_length:
  assumes "0 \<le> limit"
  shows "int (length (truncate_message limit msg)) \<le> limit"
  using to_valid_utf8_empty_length [of "take (nat limit) msg"] assms
    to_valid_utf8_empty_length [of "take (nat (limit - 14)) msg"]
  by (auto simp: truncate_message_def truncation_suffix_length)

text \<open>Of a valid message that is too long the stored text keeps all but at most the last
  three of the bytes there is room for.\<close>

lemma truncate_message_prefix:
  assumes "utf8_valid msg" "14 < limit" "limit < int (length msg)"
  shows "\<exists>p. truncate_message limit msg = p @ truncation_suffix \<and> prefix p msg \<and>
    limit - 17 \<le> int (length p)"
proof -
  let ?k = "nat (limit - 14)"
  have "prefix (to_valid_utf8 [] (take ?k msg)) msg"
    "min ?k (length msg) \<le> length (to_valid_utf8 [] (take ?k msg)) + 3"
    using to_valid_utf8_cut [OF assms(1), of ?k] by auto
  moreover have "truncate_message limit msg = to_valid_utf8 [] (take ?k msg) @ truncation_suffix"
    using assms(2) by (simp add: truncate_message_def truncation_suffix_length)
  moreover have "?k \<le> length msg" "int ?k = limit - 14" using assms by auto
  ultimately show ?thesis by (intro exI conjI) (auto simp: min_def)
qed

section \<open>Timestamps\<close>

lemma normalizeEventTime_stored:
  assumes "normalizeEventTime now raw keep = (ts, sk)" "ts \<noteq> []"
  shows "\<exists>t. event_time (trim_space raw) = Some t \<and> ts = format_ch t \<and> sk = SkewNone \<and>
    \<not> before (time_add now (5 * 60 * 1000000000)) t \<and> \<not> before t (time_add now (- keep))"
  using assms by (auto simp: normalizeEventTime_def Let_def split: option.splits if_splits)

lemma format_ch_nonempty [simp]: "format_ch t \<noteq> []"
  by (simp add: format_ch_def case_prod_beta Let_def)

lemma nanos_time_add [simp]: "nanos (time_add t d) = nanos t + d"
  by (simp add: nanos_def time_add_def)

lemma time_add_ok [simp]: "time_ok (time_add t d)"
  by (simp add: time_ok_def time_add_def)

lemma before_nanos: "time_ok t \<Longrightarrow> time_ok u \<Longrightarrow> before t u \<longleftrightarrow> nanos t < nanos u"
  by (auto simp: before_def nanos_def time_ok_def)

lemma tdiv_rest:
  fixes a b :: int
  assumes "0 < b"
  shows "- b < a - tdiv a b * b \<and> a - tdiv a b * b < b"
proof (cases "0 \<le> a")
  case True
  then have "tdiv a b = a div b" by (cases "a = 0") (simp_all add: tdiv_def)
  then have "a - tdiv a b * b = a mod b" by (simp only: minus_div_mult_eq_mod)
  then show ?thesis using assms pos_mod_sign [of b a] pos_mod_bound [of b a] by linarith
next
  case False
  then have "tdiv a b = - ((- a) div b)" by (simp add: tdiv_def)
  then have "a - tdiv a b * b = - ((- a) - (- a) div b * b)" by simp
  then have "a - tdiv a b * b = - ((- a) mod b)" by (simp only: minus_div_mult_eq_mod)
  then show ?thesis using assms pos_mod_sign [of b "- a"] pos_mod_bound [of b "- a"] by linarith
qed

lemma unix_ok: "time_ok (unix sec nsec)"
  using tdiv_rest [of 1000000000 nsec] by (auto simp: unix_def time_ok_def Let_def)

lemma get_fraction_ok: "0 \<le> fst (get_fraction s) \<and> fst (get_fraction s) < 1000000000"
proof -
  define ns where "ns = fst (get_fraction s)"
  have "0 \<le> ns \<and> ns < 1000000000"
  proof (cases "ns = 0")
    case False
    then obtain c ds where s: "s = c # ds" and n: "0 < length (takeWhile digit ds)"
      and ns: "ns = digits_value (take (min (length (takeWhile digit ds)) 9) ds) *
        10 ^ (9 - min (length (takeWhile digit ds)) 9)"
      by (cases s) (auto simp: ns_def get_fraction_def Let_def split: if_splits)
    define k where "k = min (length (takeWhile digit ds)) 9"
    have "take k ds = take k (takeWhile digit ds)"
      by (subst takeWhile_eq_take) (simp add: k_def)
    moreover have "list_all digit (take k (takeWhile digit ds))"
      by (auto simp: list_all_iff dest!: in_set_takeD set_takeWhileD)
    ultimately have d: "list_all digit (take k ds)" by simp
    have len: "length (take k ds) = k"
      using length_takeWhile_le [of digit ds] by (simp add: k_def)
    have v: "list_all digit x \<Longrightarrow> 0 \<le> digits_value x \<and> digits_value x < 10 ^ length x" for x
      by (induction x rule: rev_induct) (auto simp: digits_value_snoc digit_def, auto simp: digits_value_def)
    have "0 \<le> ns" using v [OF d] by (simp add: ns flip: k_def)
    moreover have "ns < 10 ^ k * 10 ^ (9 - k)"
      using v [OF d] len by (simp add: ns flip: k_def)
    moreover have "k \<le> 9" by (simp add: k_def)
    then have "(10 :: int) ^ k * 10 ^ (9 - k) = 10 ^ 9" by (simp flip: power_add)
    ultimately show ?thesis by simp
  qed simp
  then show ?thesis by (simp add: ns_def)
qed

lemma parse_rfc3339_ok: "parse_rfc3339 s = Some t \<Longrightarrow> time_ok t"
  by (auto simp: parse_rfc3339_def time_ok_def bind_eq_Some_conv case_prod_beta get_fraction_ok
      split: if_split_asm)

lemma event_time_ok: "event_time raw = Some t \<Longrightarrow> time_ok t"
  by (auto simp: event_time_def Let_def unix_ok unix_milli_def parse_rfc3339_ok
      split: if_splits option.splits)

lemma stored_time_range:
  assumes "normalizeEventTime now raw keep = (ts, sk)" "ts \<noteq> []" "time_ok now"
  shows "\<exists>t. event_time (trim_space raw) = Some t \<and> ts = format_ch t \<and> time_ok t \<and>
    nanos now - keep \<le> nanos t \<and> nanos t \<le> nanos now + 300000000000"
proof -
  obtain t where t: "event_time (trim_space raw) = Some t" "ts = format_ch t"
    "\<not> before (time_add now (5 * 60 * 1000000000)) t" "\<not> before t (time_add now (- keep))"
    using normalizeEventTime_stored [OF assms(1,2)] by blast
  have ok: "time_ok t" using t(1) by (rule event_time_ok)
  then have "nanos t \<le> nanos now + 300000000000" "nanos now - keep \<le> nanos t"
    using t(3,4) by (simp_all add: before_nanos)
  then show ?thesis using t(1,2) ok by blast
qed

section \<open>Properties\<close>

text \<open>C18: Every row \<open>buildRow\<close> returns is well formed, whatever the event: the project is the
  trimmed one and matches \<open>projectRe\<close>, the level is one of the eight, the message fits
  MAX_MESSAGE_BYTES, the context is valid UTF-8 and valid JSON and fits MAX_CONTEXT_BYTES or
  is one of the three replacements, and a time is always set.\<close>

theorem buildRow_row:
  assumes "buildRow cfg now now' e m = (Some r, m')" "ranges_ok cfg"
  shows "projectRe (row_project r) \<and> row_project r = trim_space (ev_project e) \<and>
    row_level r \<in> set allowedLevels \<and> context_ok (maxContextBytes cfg) (row_context r) \<and>
    int (length (row_message r)) \<le> maxMessageBytes cfg \<and> trim_space (ev_message e) \<noteq> [] \<and>
    row_timestamp r \<noteq> [] \<and> row_source_ip r = [] \<and>
    (utf8_valid (ev_message e) \<longrightarrow> utf8_valid (row_message r))"
proof -
  have lim: "0 \<le> maxMessageBytes cfg" using assms(2) by (simp add: ranges_ok_def)
  have "projectRe (trim_space (ev_project e))" "trim_space (ev_message e) \<noteq> []"
    using assms(1) by (auto simp: buildRow_def Let_def split: if_splits)
  then show ?thesis
    using assms(1) normalizeContext_ok [of "maxContextBytes cfg" "ev_context e"]
      truncate_message_length [OF lim, of "ev_message e"]
    by (auto simp: buildRow_def case_prod_beta Let_def normalizeLevel_allowed truncate_message_utf8
        split: if_splits)
qed

definition demo_event :: inEvent where
  "demo_event =
     \<lparr>ev_project = '' shop '', ev_level = ''WARN'', ev_message = ''eighteen letters!!'',
      ev_context = ''{'' @ json_key ''a'' @ '':1}'', ev_timestamp = []\<rparr>"

text \<open>The parts of the row of \<open>demo_event\<close>, each evaluated on its own.\<close>

lemma demo_project: "trim_space '' shop '' = ''shop''" "projectRe ''shop''"
  by (simp_all add: trim_space_def strip.simps space_seqs_def projectRe_def project_char_def digit_def)

lemma demo_level: "normalizeLevel ''WARN'' = ''warning''"
  by code_simp

lemma demo_message_trim:
  "trim_space ''eighteen letters!!'' = ''eighteen letters!!''"
  by (simp add: trim_space_def strip.simps space_seqs_def)

lemma demo_message_cut:
  "truncate_message 16 ''eighteen letters!!'' = ''ei'' @ truncation_suffix"
  by (simp add: truncate_message_def truncation_suffix_length to_valid_utf8_id utf8_valid_ascii)

lemma demo_context:
  "normalizeContext (''{'' @ json_key ''a'' @ '':1}'') 64 = (''{'' @ json_key ''a'' @ '':1}'', False)"
  by (simp add: normalizeContext_def json_key_def trim_space_def strip.simps space_seqs_def utf8_valid_ascii
      json_valid_def scan_eof_def begin_value_def begin_string_def push_def pop_def state0_def
      maxNestingDepth_def is_space_def digit_def)

lemma demo_time:
  "normalizeEventTime now [] keep = ([], SkewNone)"
  by (simp add: normalizeEventTime_def trim_space_def strip.simps space_seqs_def)

lemma demo_now:
  "format_ch (unix 1700000000 5000000) = ''2023-11-14 22:13:20.005''"
  by code_simp

lemmas demo_event_parts =
  demo_project demo_level demo_message_trim demo_message_cut demo_context demo_time demo_now

lemma demo_event_row:
  "buildRow demo_config (unix 1700000000 0) (unix 1700000000 5000000) demo_event m =
   (Some \<lparr>row_timestamp = ''2023-11-14 22:13:20.005'', row_project = ''shop'', row_level = ''warning'',
      row_message = ''ei'' @ truncation_suffix, row_context = ''{'' @ json_key ''a'' @ '':1}'',
      row_source_ip = []\<rparr>, inc_truncated ''message'' m)"
  unfolding buildRow_def demo_event_def demo_config_def inEvent.simps config.simps demo_event_parts
  by (simp only: Let_def demo_event_parts prod.case) simp

lemma buildRow_row_witness:
  "projectRe ''shop'' \<and> ''2023-11-14 22:13:20.005'' \<noteq> [] \<and>
   context_ok 64 (''{'' @ json_key ''a'' @ '':1}'')"
  using buildRow_row [OF demo_event_row demo_config_ok]
  by (simp add: demo_config_def demo_event_def demo_project)

text \<open>C20: A valid message over MAX_MESSAGE_BYTES is stored as one of its own prefixes, whole
  runes only and at most 17 bytes short of the limit, followed by the truncation mark; the
  result fits the limit, is valid UTF-8, and the truncation is counted once.\<close>

theorem buildRow_truncates:
  assumes "buildRow cfg now now' e m = (Some r, m')" "utf8_valid (ev_message e)"
    "16 \<le> maxMessageBytes cfg" "maxMessageBytes cfg < int (length (ev_message e))"
  shows "(\<exists>p. row_message r = p @ truncation_suffix \<and> prefix p (ev_message e) \<and>
      maxMessageBytes cfg - 17 \<le> int (length p)) \<and>
    int (length (row_message r)) \<le> maxMessageBytes cfg \<and> utf8_valid (row_message r) \<and>
    reading (m_truncated m') (label ''field'' ''message'') =
      reading (m_truncated m) (label ''field'' ''message'') + 1"
proof -
  have msg: "row_message r = truncate_message (maxMessageBytes cfg) (ev_message e)"
    and m': "m_truncated m' = m_truncated (inc_truncated ''message'' m) \<or>
      m_truncated m' = labels_inc (label ''field'' ''context'') (m_truncated (inc_truncated ''message'' m))"
    using assms(1,4)
    by (auto simp: buildRow_def case_prod_beta Let_def inc_restamped_def inc_truncated_def
        split: if_splits skew.splits)
  have "label ''field'' ''message'' \<noteq> label ''field'' ''context''" by (simp add: label_def)
  then have "reading (m_truncated m') (label ''field'' ''message'') =
      reading (m_truncated m) (label ''field'' ''message'') + 1"
    using m' by (auto simp: inc_truncated_def labels_inc_def)
  then show ?thesis
    using truncate_message_prefix [OF assms(2) _ assms(4)] assms(3)
      truncate_message_length [of "maxMessageBytes cfg" "ev_message e"]
      truncate_message_utf8 [of "maxMessageBytes cfg" "ev_message e"]
    by (auto simp: msg)
qed

lemma buildRow_truncates_witness:
  "int (length (''ei'' @ truncation_suffix)) \<le> 16"
proof -
  have "utf8_valid (ev_message demo_event)" by code_simp
  then show ?thesis
    using buildRow_truncates [OF demo_event_row, of "newMetrics [] [] 0"]
    by (simp add: demo_config_def demo_event_def)
qed

text \<open>C21: A stored client time is the client's instant: it lies between RETENTION ago and five
  minutes ahead, and the stored text, read back, is that instant to the millisecond.\<close>

theorem stored_time_denotes:
  assumes "normalizeEventTime now raw keep = (ts, sk)" "ts \<noteq> []" "time_ok now"
    "0 \<le> keep" "keep < 2 ^ 63" "10 ^ 10 \<le> t_sec now" "t_sec now < 3 * 10 ^ 11"
  shows "\<exists>t. event_time (trim_space raw) = Some t \<and>
    nanos now - keep \<le> nanos t \<and> nanos t \<le> nanos now + 300000000000 \<and>
    parse_rfc3339 (rfc3339_form ts) = Some \<lparr>t_sec = t_sec t, t_nsec = t_nsec t div 1000000 * 1000000\<rparr>"
proof -
  obtain t where t: "event_time (trim_space raw) = Some t" "ts = format_ch t" "time_ok t"
    "nanos now - keep \<le> nanos t" "nanos t \<le> nanos now + 300000000000"
    using stored_time_range [OF assms(1-3)] by blast
  have "0 \<le> t_sec t" "t_sec t < 3 * 10 ^ 11 + 301"
    using t(3-5) assms(3-7) by (auto simp: nanos_def time_ok_def)
  moreover have "(3 * 10 ^ 11 + 301 :: int) \<le> 86400 * days_before 9999" by (simp add: days_before_def)
  ultimately have "parse_rfc3339 (rfc3339_form ts) =
      Some \<lparr>t_sec = t_sec t, t_nsec = t_nsec t div 1000000 * 1000000\<rparr>"
    unfolding t(2) by (intro parse_format_ch [OF t(3)]) auto
  then show ?thesis using t by blast
qed

lemma stored_time_denotes_witness:
  "\<exists>t. event_time (CHR 0x22 # ''2023-11-14T22:13:20.5Z'' @ [CHR 0x22]) = Some t"
proof -
  have "trim_space (CHR 0x22 # ''2023-11-14T22:13:20.5Z'' @ [CHR 0x22]) =
      CHR 0x22 # ''2023-11-14T22:13:20.5Z'' @ [CHR 0x22]"
    by (simp add: trim_space_def strip.simps space_seqs_def)
  moreover have "normalizeEventTime \<lparr>t_sec = 63835596800, t_nsec = 0\<rparr>
      (CHR 0x22 # ''2023-11-14T22:13:20.5Z'' @ [CHR 0x22]) 3600000000000 =
      (''2023-11-14 22:13:20.500'', SkewNone)"
    by code_simp
  ultimately show ?thesis
    using stored_time_denotes [of "\<lparr>t_sec = 63835596800, t_nsec = 0\<rparr>"
        "CHR 0x22 # ''2023-11-14T22:13:20.5Z'' @ [CHR 0x22]" 3600000000000]
    by (auto simp: time_ok_def)
qed

text \<open>A number of 2^63 milliseconds and above, which int64 cannot hold, counts as too old, not as
  in the future.\<close>

lemma huge_number_too_old:
  assumes "trim_space raw = c # cs" "c \<noteq> CHR 0x22" "parse_float (c # cs) = Some (Fin x)" "2 ^ 63 \<le> x"
    "c # cs \<noteq> ''null''" "time_ok now" "0 \<le> t_sec now" "keep < 2 ^ 63"
  shows "normalizeEventTime now raw keep = ([], SkewTooOld)"
proof -
  define t where "t = unix_milli (- (2 ^ 63))"
  have "\<not> trunc_rat x < 2 ^ 63" using assms(4) by (simp add: trunc_rat_def le_floor_iff not_less)
  then have "f_to_int64 (Fin x) = - (2 ^ 63)" by (simp add: Let_def)
  moreover have "f_lt (Fin (10 ^ 12)) (Fin x)" using assms(4) by simp
  ultimately have ev: "event_time (c # cs) = Some t"
    using assms(2,3) by (simp add: event_time_def t_def del: f_to_int64.simps f_lt.simps)
  have t: "t_sec t = -9223309901257976" unfolding t_def by code_simp
  have "0 \<le> nanos now" using assms(6,7) by (simp add: nanos_def time_ok_def)
  then have "-9223372037 \<le> (nanos now + i) div 1000000000" if "-(2 ^ 63) \<le> i" for i using that by simp
  note lo = this
  have "t_sec t < t_sec (time_add now (5 * 60 * 1000000000))"
    using lo [of "5 * 60 * 1000000000"] by (simp add: t time_add_def)
  moreover have "t_sec t < t_sec (time_add now (- keep))" using lo [of "- keep"] assms(8) by (simp add: t time_add_def)
  ultimately show ?thesis
    using assms(1,5) ev by (simp add: normalizeEventTime_def before_def)
qed

end
