(* ===== verification/Inflight.thy ===== *)
theory Inflight
  imports Util Config
begin

text \<open>
  Admission control on body bytes: \<open>byteSemaphore\<close>, \<open>reservation\<close> and \<open>meteredReader\<close> of
  \<open>gateway/server.go\<close>, and \<open>readBody\<close> of \<open>gateway/validate.go\<close>. The locale
  \<open>byte_budget\<close> is what a reservation needs of a semaphore.
\<close>

section \<open>The semaphore\<close>

record byteSemaphore =
  bs_cur :: int
  bs_max :: int

definition newByteSemaphore :: "int \<Rightarrow> byteSemaphore" where
  "newByteSemaphore n = \<lparr>bs_cur = 0, bs_max = n\<rparr>"

definition tryAcquire :: "int \<Rightarrow> byteSemaphore \<Rightarrow> bool \<times> byteSemaphore" where
  "tryAcquire n bs =
     (if bs_max bs < bs_cur bs + n then (False, bs) else (True, bs\<lparr>bs_cur := bs_cur bs + n\<rparr>))"

definition sem_release :: "int \<Rightarrow> byteSemaphore \<Rightarrow> byteSemaphore" where
  "sem_release n bs = bs\<lparr>bs_cur := bs_cur bs - n\<rparr>"

definition inUse :: "byteSemaphore \<Rightarrow> int" where
  "inUse bs = bs_cur bs"

section \<open>Reservations\<close>

text \<open>A reservation is the bytes it holds; \<open>None\<close> is the nil one of a server without admission
  control. The client's code is written over the two operations it calls.\<close>

type_synonym reservation = "int option"

definition charge_by ::
  "(int \<Rightarrow> 'b \<Rightarrow> bool \<times> 'b) \<Rightarrow> int \<Rightarrow> 'b \<Rightarrow> reservation \<Rightarrow> bool \<times> 'b \<times> reservation" where
  "charge_by acquire n bs r =
     (case r of
        None \<Rightarrow> (True, bs, None)
      | Some held \<Rightarrow>
          (case acquire n bs of
             (False, bs') \<Rightarrow> (False, bs', Some held)
           | (True, bs') \<Rightarrow> (True, bs', Some (held + n))))"

definition release_by ::
  "(int \<Rightarrow> 'b \<Rightarrow> 'b) \<Rightarrow> 'b \<Rightarrow> reservation \<Rightarrow> 'b \<times> reservation" where
  "release_by rel bs r =
     (case r of
        None \<Rightarrow> (bs, None)
      | Some held \<Rightarrow> if held = 0 then (bs, Some held) else (rel held bs, Some 0))"

definition charge :: "int \<Rightarrow> byteSemaphore \<Rightarrow> reservation \<Rightarrow> bool \<times> byteSemaphore \<times> reservation" where
  "charge = charge_by tryAcquire"

definition release :: "byteSemaphore \<Rightarrow> reservation \<Rightarrow> byteSemaphore \<times> reservation" where
  "release = release_by sem_release"

definition newReservation :: "byteSemaphore option \<Rightarrow> reservation" where
  "newReservation inflight = (case inflight of None \<Rightarrow> None | Some _ \<Rightarrow> Some 0)"

text \<open>Any number of requests on one budget, in any order of their operations.\<close>

datatype budget_op = Charge nat int | Release nat

fun budget_step ::
  "(int \<Rightarrow> 'b \<Rightarrow> bool \<times> 'b) \<Rightarrow> (int \<Rightarrow> 'b \<Rightarrow> 'b) \<Rightarrow> budget_op \<Rightarrow> 'b \<times> reservation list \<Rightarrow> 'b \<times> reservation list" where
  "budget_step acquire rel (Charge i n) (bs, rs) =
     (if i < length rs then
        (case charge_by acquire n bs (rs ! i) of (_, bs', r) \<Rightarrow> (bs', rs[i := r]))
      else (bs, rs))"
| "budget_step acquire rel (Release i) (bs, rs) =
     (if i < length rs then
        (case release_by rel bs (rs ! i) of (bs', r) \<Rightarrow> (bs', rs[i := r]))
      else (bs, rs))"

definition held :: "reservation \<Rightarrow> int" where
  "held r = (case r of None \<Rightarrow> 0 | Some h \<Rightarrow> h)"

definition held_total :: "reservation list \<Rightarrow> int" where
  "held_total rs = sum_list (map held rs)"

fun op_ok :: "budget_op \<Rightarrow> bool" where
  "op_ok (Charge i n) \<longleftrightarrow> 0 \<le> n"
| "op_ok (Release i) \<longleftrightarrow> True"

lemma held_total_update:
  "i < length rs \<Longrightarrow> held_total (rs[i := r]) = held_total rs - held (rs ! i) + held r"
proof (induction rs arbitrary: i)
  case (Cons q rs)
  then show ?case by (cases i) (auto simp: held_total_def)
qed simp

locale byte_budget =
  fixes acquire :: "int \<Rightarrow> 'b \<Rightarrow> bool \<times> 'b"
    and rel :: "int \<Rightarrow> 'b \<Rightarrow> 'b"
    and used :: "'b \<Rightarrow> int"
    and cap :: "'b \<Rightarrow> int"
  assumes granted: "acquire n b = (True, b') \<Longrightarrow> used b' = used b + n \<and> used b' \<le> cap b \<and> cap b' = cap b"
    and refused: "acquire n b = (False, b') \<Longrightarrow> b' = b \<and> cap b < used b + n"
    and returned: "used (rel n b) = used b - n \<and> cap (rel n b) = cap b"
begin

text \<open>The books balance: the bytes in use are the bytes held, and they stay under the cap.\<close>

definition balanced :: "'b \<times> reservation list \<Rightarrow> bool" where
  "balanced s \<longleftrightarrow>
     used (fst s) = held_total (snd s) \<and> held_total (snd s) \<le> cap (fst s) \<and>
     list_all (\<lambda>r. r \<noteq> None \<and> 0 \<le> held r) (snd s)"

lemma charge_effect:
  assumes "charge_by acquire n b (Some h) = (ok, b', r')"
  shows "used b' - used b = held r' - h \<and> r' \<noteq> None \<and> cap b' = cap b \<and>
    (ok \<longrightarrow> held r' = h + n \<and> used b' \<le> cap b) \<and> (\<not> ok \<longrightarrow> b' = b \<and> held r' = h \<and> cap b < used b + n)"
  using assms granted refused
  by (fastforce simp: charge_by_def held_def split: prod.splits bool.splits)

lemma release_effect:
  assumes "release_by rel b (Some h) = (b', r')"
  shows "used b' = used b - h \<and> r' = Some 0 \<and> cap b' = cap b"
  using assms returned by (auto simp: release_by_def split: if_splits)

lemma held_nth_le:
  "list_all (\<lambda>r. r \<noteq> None \<and> 0 \<le> held r) rs \<Longrightarrow> i < length rs \<Longrightarrow> held (rs ! i) \<le> held_total rs"
  unfolding held_total_def
  by (rule member_le_sum_list) (auto simp: list_all_iff)

lemma step_balanced:
  assumes "balanced s" "op_ok op"
  shows "balanced (budget_step acquire rel op s) \<and>
    cap (fst (budget_step acquire rel op s)) = cap (fst s)"
proof (cases "(acquire, rel, op, s)" rule: budget_step.cases)
  case (1 a l i n bs rs)
  show ?thesis
  proof (cases "i < length rs")
    case True
    then obtain h where h: "rs ! i = Some h" using assms(1) 1 by (auto simp: balanced_def list_all_length)
    obtain ok b' r' where c: "charge_by acquire n bs (Some h) = (ok, b', r')"
      by (cases "charge_by acquire n bs (Some h)") auto
    note e = charge_effect [OF c]
    have "0 \<le> h" using assms(1) 1 True h by (auto simp: balanced_def list_all_length held_def)
    then have "0 \<le> held r'" "r' \<noteq> None" using e assms(2) 1 by auto
    moreover have "held_total (rs[i := r']) = held_total rs - h + held r'"
      using True h by (simp add: held_total_update held_def)
    ultimately show ?thesis
      using assms(1) 1 True h c e
      by (cases ok) (auto simp: balanced_def list_all_iff dest!: set_update_subset_insert [THEN subsetD])
  next
    case False
    then show ?thesis using assms 1 by simp
  qed
next
  case (2 a l i bs rs)
  show ?thesis
  proof (cases "i < length rs")
    case True
    then obtain h where h: "rs ! i = Some h" using assms(1) 2 by (auto simp: balanced_def list_all_length)
    obtain b' r' where c: "release_by rel bs (Some h) = (b', r')"
      by (cases "release_by rel bs (Some h)") auto
    note e = release_effect [OF c]
    have "0 \<le> h" using assms(1) 2 True h by (auto simp: balanced_def list_all_length held_def)
    moreover have "held_total (rs[i := r']) = held_total rs - h"
      using True h e by (simp add: held_total_update held_def)
    ultimately show ?thesis
      using assms(1) 2 True h c e
      by (auto simp: balanced_def list_all_iff held_def dest!: set_update_subset_insert [THEN subsetD])
  next
    case False
    then show ?thesis using assms 2 by simp
  qed
qed

lemma run_balanced:
  "balanced s \<Longrightarrow> list_all op_ok ops \<Longrightarrow>
   balanced (fold (budget_step acquire rel) ops s) \<and> cap (fst (fold (budget_step acquire rel) ops s)) = cap (fst s)"
  by (induction ops arbitrary: s) (use step_balanced in auto)

end

interpretation sem: byte_budget tryAcquire sem_release bs_cur bs_max
  by unfold_locales (auto simp: tryAcquire_def sem_release_def split: if_splits)

section \<open>Reading a body\<close>

text \<open>What \<open>io.LimitedReader\<close> with \<open>N = n\<close> delivers of a reader.\<close>

fun limit_reader :: "int \<Rightarrow> reader \<Rightarrow> reader" where
  "limit_reader n [] = []"
| "limit_reader n (ReadFail # rs) = (if n \<le> 0 then [] else [ReadFail])"
| "limit_reader n (Chunk s # rs) =
     (if n \<le> 0 then []
      else if int (length s) \<le> n then Chunk s # limit_reader (n - int (length s)) rs
      else [Chunk (take (nat n) s)])"

text \<open>
  \<open>io.ReadAll\<close> of the metered reader. \<open>others k\<close> is what the other requests do to the
  budget before read number \<open>k\<close>. The outcome is the data, the error of the reader with the
  bytes delivered before it, or \<open>errOverloaded\<close> with the bytes attempted.
\<close>

datatype read_outcome = AllRead string | ReadError int | Overloaded int

fun read_all ::
  "(nat \<Rightarrow> byteSemaphore \<Rightarrow> byteSemaphore) \<Rightarrow> nat \<Rightarrow> reader \<Rightarrow> int \<Rightarrow> byteSemaphore \<Rightarrow> reservation \<Rightarrow>
   read_outcome \<times> byteSemaphore \<times> reservation" where
  "read_all others k [] delivered bs r = (AllRead [], bs, r)"
| "read_all others k (ReadFail # rs) delivered bs r = (ReadError delivered, bs, r)"
| "read_all others k (Chunk s # rs) delivered bs r =
     (if s = [] then read_all others (Suc k) rs delivered bs r
      else case charge (int (length s)) (others k bs) r of
        (False, bs', r') \<Rightarrow> (Overloaded (delivered + int (length s)), bs', r')
      | (True, bs', r') \<Rightarrow>
          (case read_all others (Suc k) rs (delivered + int (length s)) bs' r' of
             (AllRead t, bs'', r'') \<Rightarrow> (AllRead (s @ t), bs'', r'')
           | res \<Rightarrow> res))"

datatype body_result = Body string | Refused nat string

text \<open>The part of \<open>readBody\<close> after the reader is set up; \<open>left\<close> is \<open>raw.N\<close> as a function of
  the bytes delivered when the reader failed.\<close>

definition judge_body :: "int \<Rightarrow> (int \<Rightarrow> int) \<Rightarrow> read_outcome \<Rightarrow> body_result" where
  "judge_body limit left res =
     (case res of
        Overloaded attempted \<Rightarrow>
          if limit < attempted then Refused 413 ''too_large'' else Refused 503 ''overloaded''
      | ReadError delivered \<Rightarrow>
          if left delivered = 0 then Refused 413 ''too_large'' else Refused 400 ''read_error''
      | AllRead data \<Rightarrow>
          if limit < int (length data) then Refused 413 ''too_large'' else Body data)"

text \<open>
  \<open>gunzip\<close> is the package \<open>compress/gzip\<close> on the wire reader: \<open>None\<close> when \<open>NewReader\<close>
  fails, else the stream it yields and the wire bytes it has taken when that stream ends.
\<close>

type_synonym gunzip = "reader \<Rightarrow> (reader \<times> int) option"

definition readBody ::
  "gunzip \<Rightarrow> config \<Rightarrow> (nat \<Rightarrow> byteSemaphore \<Rightarrow> byteSemaphore) \<Rightarrow> request \<Rightarrow> byteSemaphore \<Rightarrow>
   reservation \<Rightarrow> body_result \<times> byteSemaphore \<times> reservation" where
  "readBody gunzip cfg others r bs res =
     (let limit = maxBodyBytes cfg; n = i64 (limit + 1); wire = limit_reader n (req_body r) in
      if equal_fold (header_get r ''Content-Encoding'') ''gzip'' then
        (case gunzip wire of
           None \<Rightarrow> (Refused 400 ''bad_gzip'', bs, res)
         | Some (stream, used) \<Rightarrow>
             (case read_all others 0 (limit_reader n stream) 0 bs res of
                (out, bs', res') \<Rightarrow> (judge_body limit (\<lambda>_. n - used) out, bs', res')))
      else
        (case read_all others 0 wire 0 bs res of
           (out, bs', res') \<Rightarrow> (judge_body limit (\<lambda>d. n - d) out, bs', res')))"

section \<open>What readBody decides\<close>

fun stream_data :: "reader \<Rightarrow> string" where
  "stream_data [] = []"
| "stream_data (ReadFail # rs) = []"
| "stream_data (Chunk s # rs) = s @ stream_data rs"

fun stream_fails :: "reader \<Rightarrow> bool" where
  "stream_fails [] = False"
| "stream_fails (ReadFail # rs) = True"
| "stream_fails (Chunk s # rs) = stream_fails rs"

lemma limit_reader_data:
  "stream_data (limit_reader n rs) = take (nat n) (stream_data rs)"
  by (induction n rs rule: limit_reader.induct) (auto simp: nat_diff_distrib')

lemma limit_reader_length: "0 \<le> n \<Longrightarrow> int (length (stream_data (limit_reader n rs))) \<le> n"
  by (simp add: limit_reader_data)

text \<open>A limited stream ends in failure exactly when the failure comes before the limit.\<close>

lemma limit_reader_fails:
  "stream_fails (limit_reader n rs) \<longleftrightarrow> stream_fails rs \<and> int (length (stream_data rs)) < n"
  by (induction n rs rule: limit_reader.induct) auto

text \<open>Reading to the end: either the budget refuses one read, with what was delivered still
  charged, or everything is read and charged exactly.\<close>

lemma read_all_spec:
  "read_all others k rs delivered bs r = (out, bs', r') \<Longrightarrow>
   (case out of
      AllRead t \<Rightarrow> t = stream_data rs \<and> \<not> stream_fails rs \<and> held r' = held r + (if r = None then 0 else int (length t))
    | ReadError d \<Rightarrow> d = delivered + int (length (stream_data rs)) \<and> stream_fails rs
    | Overloaded a \<Rightarrow> r \<noteq> None \<and> delivered < a \<and> a \<le> delivered + int (length (stream_data rs))) \<and>
   (r' = None \<longleftrightarrow> r = None) \<and> held r \<le> held r' \<and> held r' \<le> held r + int (length (stream_data rs)) \<and>
   (others = (\<lambda>_ b. b) \<and> r \<noteq> None \<longrightarrow> bs_cur bs' - bs_cur bs = held r' - held r \<and> bs_max bs' = bs_max bs)"
proof (induction rs arbitrary: k delivered bs r out bs' r')
  case Nil
  then show ?case by auto
next
  case (Cons c rs)
  show ?case
  proof (cases c)
    case ReadFail
    then show ?thesis using Cons.prems by auto
  next
    case (Chunk s)
    show ?thesis
    proof (cases "s = []")
      case True
      then show ?thesis
        using Cons.IH [of "Suc k" delivered bs r out bs' r'] Cons.prems Chunk
        by (simp split: read_outcome.splits)
    next
      case False
      obtain ok b1 r1 where q: "charge (int (length s)) (others k bs) r = (ok, b1, r1)"
        by (cases "charge (int (length s)) (others k bs) r") auto
      have r1: "r1 = None \<longleftrightarrow> r = None" "ok \<longrightarrow> held r1 = held r + (if r = None then 0 else int (length s))"
        "\<not> ok \<longrightarrow> r \<noteq> None \<and> held r1 = held r"
        "r \<noteq> None \<longrightarrow> bs_cur b1 - bs_cur (others k bs) = held r1 - held r \<and> bs_max b1 = bs_max (others k bs)"
        using q by (auto simp: charge_def charge_by_def held_def tryAcquire_def
            split: option.splits prod.splits bool.splits if_splits)
      obtain o2 b2 r2 where n: "read_all others (Suc k) rs (delivered + int (length s)) b1 r1 = (o2, b2, r2)"
        by (cases "read_all others (Suc k) rs (delivered + int (length s)) b1 r1") auto
      show ?thesis
        using Cons.IH [OF n] Cons.prems Chunk False q r1 n
        by (cases ok; cases o2) auto
    qed
  qed
qed

section \<open>Properties\<close>

text \<open>C4: On one budget, any number of requests charging and releasing in any order keep the
  books balanced: the bytes in use are exactly the bytes the requests hold, each holds at
  least 0, and the total never passes MAX_INFLIGHT_BODY_BYTES; once all have released,
  nothing is in use.\<close>

theorem inflight_budget:
  assumes "0 \<le> limit" "list_all op_ok ops"
  shows "let (bs, rs) = fold (budget_step tryAcquire sem_release) ops (newByteSemaphore limit, replicate k (Some 0)) in
    inUse bs = held_total rs \<and> inUse bs \<le> limit \<and> list_all (\<lambda>r. 0 \<le> held r) rs \<and>
    (list_all (\<lambda>r. held r = 0) rs \<longrightarrow> inUse bs = 0)"
proof -
  have z: "sum_list (map held (replicate k (Some 0))) = 0"
    by (simp add: held_def map_replicate_const sum_list_replicate)
  then have "sem.balanced (newByteSemaphore limit, replicate k (Some 0))"
    using assms(1) by (simp add: sem.balanced_def newByteSemaphore_def held_total_def held_def list_all_length)
  note b = sem.run_balanced [OF this assms(2)]
  have "list_all (\<lambda>r. held r = 0) rs \<Longrightarrow> held_total rs = 0" for rs
    by (induction rs) (auto simp: held_total_def)
  then show ?thesis
    using b by (auto simp: sem.balanced_def inUse_def newByteSemaphore_def list_all_iff split: prod.splits)
qed

lemma inflight_budget_witness:
  "let (bs, rs) = fold (budget_step tryAcquire sem_release) [Charge 0 300, Charge 1 200, Charge 1 100, Release 0]
     (newByteSemaphore 400, replicate 2 (Some 0)) in inUse bs = held_total rs"
  using inflight_budget [of 400 "[Charge 0 300, Charge 1 200, Charge 1 100, Release 0]" 2]
  by (auto simp: Let_def split: prod.splits)

text \<open>What a body without content encoding deserves.\<close>

definition body_verdict :: "int \<Rightarrow> reader \<Rightarrow> body_result" where
  "body_verdict limit body =
     (if limit < int (length (stream_data body)) then Refused 413 ''too_large''
      else if stream_fails body then Refused 400 ''read_error''
      else Body (stream_data body))"

lemma judge_identity:
  assumes "read_all others 0 (limit_reader (limit + 1) body) 0 bs res = (out, bs', res')" "0 < limit"
  shows "judge_body limit (\<lambda>d. limit + 1 - d) out = body_verdict limit body \<or>
    judge_body limit (\<lambda>d. limit + 1 - d) out = Refused 503 ''overloaded'' \<and> (\<exists>a. out = Overloaded a) \<and> res \<noteq> None"
  using read_all_spec [OF assms(1)] assms(2)
  by (auto simp: judge_body_def body_verdict_def limit_reader_fails limit_reader_data
      split: read_outcome.splits)

lemma readBody_identity:
  assumes "0 < maxBodyBytes cfg" "maxBodyBytes cfg < 2 ^ 63 - 1"
    "\<not> equal_fold (header_get r ''Content-Encoding'') ''gzip''"
  shows "readBody gunzip cfg others r bs res =
    (case read_all others 0 (limit_reader (maxBodyBytes cfg + 1) (req_body r)) 0 bs res of
       (out, bs', res') \<Rightarrow>
         (judge_body (maxBodyBytes cfg) (\<lambda>d. maxBodyBytes cfg + 1 - d) out, bs', res'))"
proof -
  have "i64 (maxBodyBytes cfg + 1) = maxBodyBytes cfg + 1"
    using assms(1,2) by (intro i64_id) simp_all
  then show ?thesis using assms(3) by (simp add: readBody_def Let_def)
qed

text \<open>Where a budget with \<open>room\<close> bytes left refuses a read: the bytes attempted by then.\<close>

fun refused_at :: "int \<Rightarrow> int \<Rightarrow> reader \<Rightarrow> int option" where
  "refused_at room done [] = None"
| "refused_at room done (ReadFail # rs) = None"
| "refused_at room done (Chunk s # rs) =
     (if s \<noteq> [] \<and> room < done + int (length s) then Some (done + int (length s))
      else refused_at room (done + int (length s)) rs)"

text \<open>The ends of the reads: how many bytes had been attempted after each.\<close>

fun read_ends :: "int \<Rightarrow> reader \<Rightarrow> int list" where
  "read_ends done [] = []"
| "read_ends done (ReadFail # rs) = []"
| "read_ends done (Chunk s # rs) =
     (if s = [] then read_ends done rs else (done + int (length s)) # read_ends (done + int (length s)) rs)"

lemma read_all_ends:
  "read_all others k rs delivered bs r = (Overloaded a, bs', r') \<Longrightarrow> a \<in> set (read_ends delivered rs)"
proof (induction rs arbitrary: k delivered bs r)
  case (Cons x rs)
  show ?case
  proof (cases x)
    case (Chunk s)
    show ?thesis
    proof (cases "s = []")
      case True
      then show ?thesis using Cons Chunk by simp
    next
      case False
      obtain ok b1 r1 where c: "charge (int (length s)) (others k bs) r = (ok, b1, r1)"
        by (cases "charge (int (length s)) (others k bs) r") auto
      obtain o2 b2 r2 where n: "read_all others (Suc k) rs (delivered + int (length s)) b1 r1 = (o2, b2, r2)"
        by (cases "read_all others (Suc k) rs (delivered + int (length s)) b1 r1") auto
      show ?thesis using Cons Chunk False c n by (cases ok; cases o2) auto
    qed
  qed (use Cons.prems in simp)
qed simp

text \<open>Without other requests the first read beyond the room is the one refused.\<close>

lemma read_all_alone:
  "read_all (\<lambda>_ b. b) k rs delivered bs (Some h) = (out, bs', r') \<Longrightarrow>
   (case refused_at (bs_max bs - bs_cur bs + delivered) delivered rs of
      Some a \<Rightarrow> out = Overloaded a
    | None \<Rightarrow> \<forall>a. out \<noteq> Overloaded a)"
proof (induction rs arbitrary: k delivered bs h out bs' r')
  case (Cons c rs)
  show ?case
  proof (cases c)
    case (Chunk s)
    show ?thesis
    proof (cases "s = []")
      case True
      then show ?thesis using Cons.IH [of "Suc k" delivered bs h out bs' r'] Cons.prems Chunk by simp
    next
      case False
      show ?thesis
      proof (cases "bs_max bs < bs_cur bs + int (length s)")
        case True
        then show ?thesis using Cons.prems Chunk False by (auto simp: charge_def charge_by_def tryAcquire_def)
      next
        case fit: False
        let ?b = "bs\<lparr>bs_cur := bs_cur bs + int (length s)\<rparr>"
        obtain o2 b2 r2 where n: "read_all (\<lambda>_ b. b) (Suc k) rs (delivered + int (length s)) ?b (Some (h + int (length s))) = (o2, b2, r2)"
          by (cases "read_all (\<lambda>_ b. b) (Suc k) rs (delivered + int (length s)) ?b (Some (h + int (length s)))") auto
        have "out = (case o2 of AllRead t \<Rightarrow> AllRead (s @ t) | _ \<Rightarrow> o2)"
          using Cons.prems Chunk False fit n
          by (auto simp: charge_def charge_by_def tryAcquire_def split: read_outcome.splits)
        then show ?thesis
          using Cons.IH [OF n] Chunk fit by (cases o2) (auto simp: algebra_simps split: option.splits)
      qed
    qed
  qed (use Cons.prems in auto)
qed auto

lemma judge_refused:
  "judge_body limit left (Overloaded a) = (if limit < a then Refused 413 ''too_large'' else Refused 503 ''overloaded'')"
  by (simp add: judge_body_def)

text \<open>C29: \<open>readBody\<close> on a body without content encoding: the answer is the one the body
  deserves (413 above MAX_BODY_BYTES, 400 when the transfer breaks off, else exactly the
  bytes sent), however the body is cut into reads and whatever the other requests do to the
  budget meanwhile. The only other answer is the 503, only with admission control on, and only
  at a read that ends within the limit: a read that proves the body too large is a 413 even
  when the budget refuses it. With no other request at work the 503 comes exactly when the
  first read that the budget has no room for ends within the limit. (MAX_BODY_BYTES is positive
  and below 2^63 - 1.)\<close>

theorem readBody_verdict:
  assumes "0 < maxBodyBytes cfg" "maxBodyBytes cfg < 2 ^ 63 - 1"
    "\<not> equal_fold (header_get r ''Content-Encoding'') ''gzip''"
  shows "(fst (readBody gunzip cfg others r bs res) = body_verdict (maxBodyBytes cfg) (req_body r) \<or>
      fst (readBody gunzip cfg others r bs res) = Refused 503 ''overloaded'' \<and> res \<noteq> None \<and>
        (\<exists>a \<in> set (read_ends 0 (limit_reader (maxBodyBytes cfg + 1) (req_body r))). a \<le> maxBodyBytes cfg)) \<and>
    fst (readBody gunzip cfg (\<lambda>_ b. b) r bs res) =
      (case (if res = None then None
             else refused_at (bs_max bs - bs_cur bs) 0 (limit_reader (maxBodyBytes cfg + 1) (req_body r))) of
         None \<Rightarrow> body_verdict (maxBodyBytes cfg) (req_body r)
       | Some a \<Rightarrow> if a \<le> maxBodyBytes cfg then Refused 503 ''overloaded'' else Refused 413 ''too_large'')"
proof (intro conjI)
  let ?l = "maxBodyBytes cfg"
  let ?wire = "limit_reader (?l + 1) (req_body r)"
  note rb = readBody_identity [OF assms]
  obtain out bs' res' where q: "read_all others 0 ?wire 0 bs res = (out, bs', res')"
    by (cases "read_all others 0 ?wire 0 bs res") auto
  show "fst (readBody gunzip cfg others r bs res) = body_verdict ?l (req_body r) \<or>
      fst (readBody gunzip cfg others r bs res) = Refused 503 ''overloaded'' \<and> res \<noteq> None \<and>
        (\<exists>a \<in> set (read_ends 0 ?wire). a \<le> ?l)"
    using judge_identity [OF q assms(1)] read_all_ends [of others 0 ?wire 0 bs res] q
    by (auto simp: rb judge_refused not_less Bex_def split: if_splits)
  obtain out1 bs1 res1 where q1: "read_all (\<lambda>_ b. b) 0 ?wire 0 bs res = (out1, bs1, res1)"
    by (cases "read_all (\<lambda>_ b. b) 0 ?wire 0 bs res") auto
  note j = judge_identity [OF q1 assms(1)]
  show "fst (readBody gunzip cfg (\<lambda>_ b. b) r bs res) =
      (case (if res = None then None else refused_at (bs_max bs - bs_cur bs) 0 ?wire) of
         None \<Rightarrow> body_verdict ?l (req_body r)
       | Some a \<Rightarrow> if a \<le> ?l then Refused 503 ''overloaded'' else Refused 413 ''too_large'')"
  proof (cases res)
    case None
    then show ?thesis using j q1 by (auto simp: rb)
  next
    case (Some h)
    then show ?thesis using read_all_alone [of 0 ?wire 0 bs h out1 bs1 res1] q1 j
      by (auto simp: rb judge_refused split: option.splits)
  qed
qed

definition demo_request :: "string \<Rightarrow> request" where
  "demo_request body =
     \<lparr>req_method = ''POST'', req_path = ''/logs'', req_headers = [(''Authorization'', [''Bearer s3cret''])],
      remoteAddr = ''10.0.0.8:4000'', req_body = [Chunk body]\<rparr>"

lemma demo_request_headers [simp]:
  "header_get (demo_request body) ''Content-Encoding'' = []" "req_body (demo_request body) = [Chunk body]"
  by (simp_all add: demo_request_def header_get_def header_values_def)

lemma not_gzip [simp]: "\<not> equal_fold [] ''gzip''"
  by (simp add: equal_fold_def)

lemma readBody_verdict_witness:
  "fst (readBody (\<lambda>_. None) demo_config (\<lambda>_ b. b) (demo_request ''abc'') (newByteSemaphore 400) (Some 0)) =
   Body ''abc''"
  using readBody_verdict [of demo_config "demo_request ''abc''" "\<lambda>_. None" "\<lambda>_ b. b" "newByteSemaphore 400" "Some 0"]
  by (simp add: demo_config_def newByteSemaphore_def body_verdict_def)

text \<open>Whatever the decompressor yields, a request is charged at most MAX_BODY_BYTES + 1
  bytes, a body handed on is at most MAX_BODY_BYTES long, and it is charged in full.\<close>

theorem readBody_bounded:
  assumes "0 < maxBodyBytes cfg" "maxBodyBytes cfg < 2 ^ 63 - 1"
    "readBody gunzip cfg others r bs res = (out, bs', res')"
  shows "held res \<le> held res' \<and> held res' \<le> held res + maxBodyBytes cfg + 1 \<and>
    (\<forall>data. out = Body data \<longrightarrow> int (length data) \<le> maxBodyBytes cfg \<and>
       (res \<noteq> None \<longrightarrow> held res' = held res + int (length data)))"
proof -
  let ?l = "maxBodyBytes cfg"
  have n: "i64 (?l + 1) = ?l + 1" using assms(1,2) by (intro i64_id) simp_all
  have judged: "held res \<le> held res'' \<and> held res'' \<le> held res + ?l + 1 \<and>
      (\<forall>data. judge_body ?l left o' = Body data \<longrightarrow> int (length data) \<le> ?l \<and>
        (res \<noteq> None \<longrightarrow> held res'' = held res + int (length data)))"
    if "read_all others 0 (limit_reader (?l + 1) rs) 0 bs res = (o', bs'', res'')" for rs o' bs'' res'' left
  proof -
    have "int (length (stream_data (limit_reader (?l + 1) rs))) \<le> ?l + 1"
      using assms(1) by (intro limit_reader_length) simp
    then show ?thesis
      using read_all_spec [OF that] by (auto simp: judge_body_def split: read_outcome.splits if_splits)
  qed
  show ?thesis
  proof (cases "equal_fold (header_get r ''Content-Encoding'') ''gzip''")
    case False
    obtain o' bs'' res'' where q: "read_all others 0 (limit_reader (?l + 1) (req_body r)) 0 bs res = (o', bs'', res'')"
      by (cases "read_all others 0 (limit_reader (?l + 1) (req_body r)) 0 bs res") auto
    show ?thesis using judged [OF q] assms(3) False q by (auto simp: readBody_def Let_def n)
  next
    case True
    show ?thesis
    proof (cases "gunzip (limit_reader (?l + 1) (req_body r))")
      case None
      then show ?thesis using assms True by (auto simp: readBody_def Let_def n)
    next
      case (Some su)
      obtain stream used where su: "su = (stream, used)" by (cases su)
      obtain o' bs'' res'' where q: "read_all others 0 (limit_reader (?l + 1) stream) 0 bs res = (o', bs'', res'')"
        by (cases "read_all others 0 (limit_reader (?l + 1) stream) 0 bs res") auto
      show ?thesis using judged [OF q] assms(3) True Some su q by (auto simp: readBody_def Let_def n)
    qed
  qed
qed

lemma readBody_bounded_witness:
  "held (snd (snd (readBody (\<lambda>_. None) demo_config (\<lambda>_ b. b) (demo_request ''abc'') (newByteSemaphore 400) (Some 0)))) \<le> 301"
proof -
  have l: "maxBodyBytes demo_config = 300" by (simp add: demo_config_def)
  obtain out bs' res' where
    "readBody (\<lambda>_. None) demo_config (\<lambda>_ b. b) (demo_request ''abc'') (newByteSemaphore 400) (Some 0) = (out, bs', res')"
    by (cases "readBody (\<lambda>_. None) demo_config (\<lambda>_ b. b) (demo_request ''abc'') (newByteSemaphore 400) (Some 0)") auto
  then show ?thesis using readBody_bounded [of demo_config] l by (fastforce simp: held_def)
qed

text \<open>MAX_BODY_BYTES = 2^63 - 1 passes \<open>validate\<close>, but \<open>limit + 1\<close> wraps to the smallest
  int64: the limited reader is at its end at once, and every body reads as empty.\<close>

theorem readBody_max_int64:
  assumes "maxBodyBytes cfg = 2 ^ 63 - 1" "\<not> equal_fold (header_get r ''Content-Encoding'') ''gzip''"
  shows "fst (readBody gunzip cfg others r bs res) = Body []"
proof -
  have n: "i64 (2 ^ 63 - 1 + 1) = - (2 ^ 63)" by (simp add: i64_def signed_take_bit_eq_if_negative take_bit_eq_mod)
  have "limit_reader (- (2 ^ 63)) rs = []" for rs by (cases "(- (2 ^ 63) :: int, rs)" rule: limit_reader.cases) auto
  then show ?thesis using assms n by (simp add: readBody_def Let_def judge_body_def)
qed

lemma readBody_max_int64_witness:
  "fst (readBody (\<lambda>_. None) (demo_config\<lparr>maxBodyBytes := 2 ^ 63 - 1\<rparr>) (\<lambda>_ b. b) (demo_request ''abc'')
     (newByteSemaphore 400) (Some 0)) = Body []"
  by (rule readBody_max_int64) simp_all

end
