(* ===== verification/ParseBatch.thy ===== *)
theory ParseBatch
  imports Validate Inflight
begin

text \<open>
  \<open>parseBatch\<close> of \<open>gateway/validate.go\<close>: the elements of a batch (a JSON array streamed
  element by element, or a sequence of JSON values), and the rows made of them.
\<close>

section \<open>The elements of a batch\<close>

datatype elements = Elements "string list" | BadJSON | TooMany

fun add_element :: "string \<Rightarrow> elements \<Rightarrow> elements" where
  "add_element v (Elements vs) = Elements (v # vs)"
| "add_element v BadJSON = BadJSON"
| "add_element v TooMany = TooMany"

text \<open>
  The array branch after \<open>[\<close>: \<open>room\<close> is how many more elements MAX_BATCH_EVENTS allows and
  \<open>first\<close> whether the decoder expects a value rather than a comma. \<open>More\<close> is false on
  \<open>]\<close>, \<open>}\<close> and the end of the text.
\<close>

fun array_loop :: "nat \<Rightarrow> bool \<Rightarrow> string \<Rightarrow> elements" where
  "array_loop room first s =
     (case skip_spaces s of
        [] \<Rightarrow> BadJSON
      | c # r \<Rightarrow>
          if c = CHR '']'' then (if skip_spaces r = [] then Elements [] else BadJSON)
          else if c = CHR ''}'' then BadJSON
          else if \<not> first \<and> c \<noteq> CHR '','' then BadJSON
          else (case read_raw (if first then c # r else r) of
                  ReadOk v rest \<Rightarrow>
                    (case room of
                       0 \<Rightarrow> TooMany
                     | Suc room' \<Rightarrow> add_element v (array_loop room' False rest))
                | _ \<Rightarrow> BadJSON))"

declare array_loop.simps [simp del]

fun value_loop :: "nat \<Rightarrow> string \<Rightarrow> elements" where
  "value_loop room s =
     (case read_raw s of
        ReadEOF \<Rightarrow> Elements []
      | ReadBad \<Rightarrow> BadJSON
      | ReadOk v rest \<Rightarrow>
          (case room of
             0 \<Rightarrow> TooMany
           | Suc room' \<Rightarrow> add_element v (value_loop room' rest)))"

declare value_loop.simps [simp del]

definition batch_elements :: "int \<Rightarrow> string \<Rightarrow> elements" where
  "batch_elements max_events trimmed =
     (case trimmed of
        [] \<Rightarrow> Elements []
      | c # r \<Rightarrow>
          if c = CHR ''['' then array_loop (nat max_events) True r else value_loop (nat max_events) trimmed)"

section \<open>Decoding an event\<close>

definition empty_event :: inEvent where
  "empty_event = \<lparr>ev_project = [], ev_level = [], ev_message = [], ev_context = [], ev_timestamp = []\<rparr>"

datatype field = FProject | FLevel | FMessage | FContext | FTimestamp

definition field_names :: "(string \<times> field) list" where
  "field_names =
     [(''project'', FProject), (''level'', FLevel), (''message'', FMessage), (''context'', FContext),
      (''timestamp'', FTimestamp)]"

text \<open>The struct field of a member name: the exact name first, else the folded one.\<close>

definition field_of :: "string \<Rightarrow> field option" where
  "field_of k =
     (case map_of field_names k of
        Some f \<Rightarrow> Some f
      | None \<Rightarrow> map_of (map (\<lambda>(n, f). (fold_name n, f)) field_names) (fold_name k))"

text \<open>
  One member: a string field takes a string and ignores \<open>null\<close>, anything else is a type
  error that is remembered while decoding goes on; a raw field takes any value.
\<close>

definition set_string :: "string \<Rightarrow> (string \<Rightarrow> inEvent) \<Rightarrow> inEvent \<times> bool \<Rightarrow> inEvent \<times> bool" where
  "set_string v upd st =
     (if v = ''null'' then st
      else case unquote v of Some t \<Rightarrow> (upd t, snd st) | None \<Rightarrow> (fst st, False))"

definition set_member :: "string \<times> string \<Rightarrow> inEvent \<times> bool \<Rightarrow> inEvent \<times> bool" where
  "set_member kv st =
     (case kv of (k, v) \<Rightarrow>
        case unquote k of
          None \<Rightarrow> st
        | Some name \<Rightarrow>
            (case field_of name of
               None \<Rightarrow> st
             | Some FProject \<Rightarrow> set_string v (\<lambda>t. (fst st)\<lparr>ev_project := t\<rparr>) st
             | Some FLevel \<Rightarrow> set_string v (\<lambda>t. (fst st)\<lparr>ev_level := t\<rparr>) st
             | Some FMessage \<Rightarrow> set_string v (\<lambda>t. (fst st)\<lparr>ev_message := t\<rparr>) st
             | Some FContext \<Rightarrow> ((fst st)\<lparr>ev_context := v\<rparr>, snd st)
             | Some FTimestamp \<Rightarrow> ((fst st)\<lparr>ev_timestamp := v\<rparr>, snd st)))"

text \<open>\<open>json.Unmarshal\<close> into an \<open>inEvent\<close>; \<open>None\<close> is an error.\<close>

definition unmarshal_event :: "string \<Rightarrow> inEvent option" where
  "unmarshal_event raw =
     (if \<not> json_valid raw then None
      else if raw = ''null'' then Some empty_event
      else case members raw of
        None \<Rightarrow> None
      | Some kvs \<Rightarrow>
          (case fold set_member kvs (empty_event, True) of
             (e, ok) \<Rightarrow> if ok then Some e else None))"

section \<open>The rows of a batch\<close>

definition sanitise :: "string \<Rightarrow> string" where
  "sanitise raw = (if utf8_valid raw then raw else to_valid_utf8 replacement_char raw)"

text \<open>\<open>clock k\<close> is what the two readings of the clock for element \<open>k\<close> give.\<close>

definition event_row :: "config \<Rightarrow> time \<times> time \<Rightarrow> string \<Rightarrow> metrics \<Rightarrow> row option \<times> metrics" where
  "event_row cfg now raw m =
     (case unmarshal_event (sanitise raw) of
        None \<Rightarrow> (None, inc_rejected ''invalid_event'' m)
      | Some e \<Rightarrow>
          (case buildRow cfg (fst now) (snd now) e m of
             (None, m') \<Rightarrow> (None, inc_rejected ''invalid_event'' m')
           | (Some r, m') \<Rightarrow> (Some r, m')))"

fun event_rows :: "config \<Rightarrow> (nat \<Rightarrow> time \<times> time) \<Rightarrow> nat \<Rightarrow> string list \<Rightarrow> metrics \<Rightarrow> row list \<times> metrics" where
  "event_rows cfg clock k [] m = ([], m)"
| "event_rows cfg clock k (raw # raws) m =
     (case event_row cfg (clock k) raw m of
        (ro, m') \<Rightarrow>
          (case event_rows cfg clock (Suc k) raws m' of
             (rows, m'') \<Rightarrow> ((case ro of None \<Rightarrow> rows | Some r \<Rightarrow> r # rows), m'')))"

datatype batch_result = Rows "row list" | Rejected nat string

definition parse_data ::
  "config \<Rightarrow> (nat \<Rightarrow> time \<times> time) \<Rightarrow> string \<Rightarrow> metrics \<Rightarrow> batch_result \<times> metrics" where
  "parse_data cfg clock data m =
     (let trimmed = skip_spaces data in
      if trimmed = [] then (Rejected 400 ''empty'', m)
      else case batch_elements (maxBatchEvents cfg) trimmed of
        BadJSON \<Rightarrow> (Rejected 400 ''bad_json'', m)
      | TooMany \<Rightarrow> (Rejected 413 ''too_many_events'', m)
      | Elements raws \<Rightarrow>
          if raws = [] then (Rejected 400 ''empty'', m)
          else
            (case event_rows cfg clock 0 raws m of
               (rows, m') \<Rightarrow> if rows = [] then (Rejected 400 ''all_invalid'', m') else (Rows rows, m')))"

definition parseBatch ::
  "gunzip \<Rightarrow> config \<Rightarrow> (nat \<Rightarrow> time \<times> time) \<Rightarrow> (nat \<Rightarrow> byteSemaphore \<Rightarrow> byteSemaphore) \<Rightarrow> request \<Rightarrow>
   byteSemaphore \<Rightarrow> reservation \<Rightarrow> metrics \<Rightarrow> batch_result \<times> byteSemaphore \<times> reservation \<times> metrics" where
  "parseBatch gunzip cfg clock others r bs res m =
     (case readBody gunzip cfg others r bs res of
        (Refused code reason, bs', res') \<Rightarrow> (Rejected code reason, bs', res', m)
      | (Body data, bs', res') \<Rightarrow>
          (case parse_data cfg clock data m of (out, m') \<Rightarrow> (out, bs', res', m')))"

end
