(* ===== verification/ParseFacts.thy ===== *)
theory ParseFacts
  imports ParseBatch
begin

text \<open>
  What \<open>parseBatch\<close> guarantees: every row it hands on is well formed, every element is
  either a row or counted as invalid, and a batch means the same as an array and as a
  sequence of objects.
\<close>

section \<open>Well-formed rows\<close>

definition ascii :: "string \<Rightarrow> bool" where
  "ascii s \<longleftrightarrow> list_all (\<lambda>c. byte_of c < 0x80) s"

lemma ascii_simps [simp]:
  "ascii []" "ascii (c # s) \<longleftrightarrow> byte_of c < 0x80 \<and> ascii s" "ascii (s @ t) \<longleftrightarrow> ascii s \<and> ascii t"
  by (auto simp: ascii_def)

lemma ascii_utf8: "ascii s \<Longrightarrow> utf8_valid s"
  by (simp add: ascii_def utf8_valid_ascii)

lemma ascii_digits: "list_all digit s \<Longrightarrow> ascii s"
  by (auto simp: ascii_def list_all_iff digit_def)

lemma ascii_pad [simp]: "0 \<le> n \<Longrightarrow> ascii (pad_zeros w n)"
  by (rule ascii_digits) (rule pad_zeros_digits)

lemma format_ch_ascii:
  assumes "time_ok t"
  shows "ascii (format_ch t)"
proof -
  obtain y m d where c: "civil (t_sec t div 86400) = (y, m, d)"
    by (cases "civil (t_sec t div 86400)") auto
  have "0 \<le> m" "0 \<le> d" using civil_correct [OF c] by auto
  moreover have "ascii (format_year y)" by (simp add: format_year_def)
  moreover have "0 \<le> t_sec t mod 86400" by simp
  then have "0 \<le> t_sec t mod 86400 div 3600" "0 \<le> t_sec t mod 86400 mod 3600 div 60"
    by (simp_all add: pos_imp_zdiv_nonneg_iff)
  moreover have "0 \<le> t_sec t mod 86400 mod 60" by simp
  moreover have "0 \<le> t_nsec t div 1000000"
    using assms by (simp add: time_ok_def pos_imp_zdiv_nonneg_iff)
  ultimately show ?thesis
    unfolding format_ch_def Let_def c prod.case ascii_simps by (simp only: ascii_pad simp_thms) simp
qed

text \<open>A row as \<open>enqueue\<close> receives it.\<close>

definition row_ok :: "config \<Rightarrow> row \<Rightarrow> bool" where
  "row_ok cfg r \<longleftrightarrow>
     projectRe (row_project r) \<and> row_level r \<in> set allowedLevels \<and>
     context_ok (maxContextBytes cfg) (row_context r) \<and>
     int (length (row_message r)) \<le> maxMessageBytes cfg \<and> utf8_valid (row_message r) \<and>
     row_timestamp r \<noteq> [] \<and> ascii (row_timestamp r) \<and> row_source_ip r = []"

lemma projectRe_ascii: "projectRe s \<Longrightarrow> ascii s"
  by (auto simp: projectRe_def project_char_def ascii_def list_all_iff digit_def Let_def)

lemma allowedLevels_ascii: "l \<in> set allowedLevels \<Longrightarrow> ascii l"
  by (auto simp: allowedLevels_def)

lemma row_ok_utf8: "row_ok cfg r \<Longrightarrow> utf8_valid ip \<Longrightarrow> row_utf8 (r\<lparr>row_source_ip := ip\<rparr>)"
  by (auto simp: row_ok_def row_utf8_def row_members_def context_ok_def projectRe_ascii allowedLevels_ascii
      intro: ascii_utf8)

lemma buildRow_timestamp:
  assumes "buildRow cfg now now' e m = (Some r, m')" "time_ok now'"
  shows "ascii (row_timestamp r)"
proof -
  define ts where "ts = fst (normalizeEventTime now (ev_timestamp e) (retention cfg))"
  have "row_timestamp r = (if ts = [] then format_ch now' else ts)"
    using assms(1) by (auto simp: buildRow_def Let_def ts_def case_prod_beta split: if_splits)
  moreover have "ascii ts"
  proof (cases "ts = []")
    case False
    then obtain t where "event_time (trim_space (ev_timestamp e)) = Some t" "ts = format_ch t"
      using normalizeEventTime_stored [of now "ev_timestamp e" "retention cfg" ts]
      by (metis ts_def prod.collapse)
    then show ?thesis using event_time_ok format_ch_ascii by simp
  qed simp
  ultimately show ?thesis using format_ch_ascii [OF assms(2)] by simp
qed

text \<open>Decoded strings are valid UTF-8.\<close>

definition event_utf8 :: "inEvent \<Rightarrow> bool" where
  "event_utf8 e \<longleftrightarrow> utf8_valid (ev_project e) \<and> utf8_valid (ev_level e) \<and> utf8_valid (ev_message e)"

lemma set_string_utf8:
  "event_utf8 (fst st) \<Longrightarrow> (\<And>t. utf8_valid t \<Longrightarrow> event_utf8 (upd t)) \<Longrightarrow> event_utf8 (fst (set_string v upd st))"
  by (auto simp: set_string_def unquote_utf8 split: option.splits)

lemma set_member_utf8: "event_utf8 (fst st) \<Longrightarrow> event_utf8 (fst (set_member kv st))"
  by (auto simp: set_member_def split: option.splits field.splits prod.splits intro!: set_string_utf8)
    (auto simp: event_utf8_def)

lemma unmarshal_event_utf8: "unmarshal_event raw = Some e \<Longrightarrow> event_utf8 e"
proof -
  have "event_utf8 (fst (fold set_member kvs st))" if "event_utf8 (fst st)" for kvs st
    using that by (induction kvs arbitrary: st) (auto simp: set_member_utf8)
  from this [of "(empty_event, True)"] show "unmarshal_event raw = Some e \<Longrightarrow> event_utf8 e"
    by (auto simp: unmarshal_event_def event_utf8_def empty_event_def split: if_splits option.splits prod.splits)
      (metis fst_conv)+
qed

lemma event_row_ok:
  assumes "event_row cfg now raw m = (Some r, m')" "ranges_ok cfg" "time_ok (snd now)"
  shows "row_ok cfg r"
proof -
  obtain e where e: "unmarshal_event (sanitise raw) = Some e" "buildRow cfg (fst now) (snd now) e m = (Some r, m')"
    using assms(1) by (auto simp: event_row_def split: option.splits prod.splits)
  then show ?thesis
    using buildRow_row [OF e(2) assms(2)] buildRow_timestamp [OF e(2) assms(3)] unmarshal_event_utf8 [OF e(1)]
    by (auto simp: row_ok_def event_utf8_def)
qed

section \<open>Accounting\<close>

abbreviation invalid_count :: "metrics \<Rightarrow> int" where
  "invalid_count m \<equiv> reading (m_rejected m) (label ''reason'' ''invalid_event'')"

text \<open>\<open>buildRow\<close> touches two counters only, and \<open>event_row\<close> one more.\<close>

lemma buildRow_frame:
  "buildRow cfg now now' e m = (ro, m') \<Longrightarrow>
   m' = m\<lparr>m_truncated := m_truncated m', m_restamped := m_restamped m'\<rparr>"
  by (auto simp: buildRow_def Let_def case_prod_beta inc_truncated_def inc_restamped_def
      split: if_splits skew.splits)

lemma event_row_frame:
  assumes "event_row cfg now raw m = (ro, m')"
  shows "m' = m\<lparr>m_truncated := m_truncated m', m_restamped := m_restamped m', m_rejected := m_rejected m'\<rparr> \<and>
    invalid_count m' = invalid_count m + (if ro = None then 1 else 0)"
proof (cases "unmarshal_event (sanitise raw)")
  case None
  then show ?thesis using assms by (auto simp: event_row_def inc_rejected_def labels_inc_def)
next
  case (Some e)
  obtain ro' m1 where b: "buildRow cfg (fst now) (snd now) e m = (ro', m1)"
    by (cases "buildRow cfg (fst now) (snd now) e m")
  note fr = buildRow_frame [OF b]
  then have "m_rejected m1 = m_rejected m" by (metis metrics.select_convs(10) metrics.surjective metrics.update_convs(11,12))
  then show ?thesis
    using assms Some b fr
    by (cases ro') (auto simp: event_row_def inc_rejected_def labels_inc_def)
qed

definition element_frame :: "metrics \<Rightarrow> metrics \<Rightarrow> bool" where
  "element_frame m m' \<longleftrightarrow>
     m' = m\<lparr>m_truncated := m_truncated m', m_restamped := m_restamped m', m_rejected := m_rejected m'\<rparr>"

lemma element_frame_refl: "element_frame m m"
  by (simp add: element_frame_def)

lemma element_frame_trans: "element_frame a b \<Longrightarrow> element_frame b c \<Longrightarrow> element_frame a c"
  unfolding element_frame_def
  by (cases a; cases b; cases c) simp

lemma event_rows_spec:
  "event_rows cfg clock k raws m = (rows, m') \<Longrightarrow> ranges_ok cfg \<Longrightarrow> (\<And>i. time_ok (snd (clock i))) \<Longrightarrow>
   list_all (row_ok cfg) rows \<and> length rows \<le> length raws \<and> element_frame m m' \<and>
   invalid_count m' = invalid_count m + int (length raws - length rows)"
proof (induction raws arbitrary: k m rows m')
  case Nil
  then show ?case by (simp add: element_frame_refl)
next
  case (Cons raw raws)
  obtain ro m1 where r: "event_row cfg (clock k) raw m = (ro, m1)" by (cases "event_row cfg (clock k) raw m")
  obtain rs m2 where rs: "event_rows cfg clock (Suc k) raws m1 = (rs, m2)"
    by (cases "event_rows cfg clock (Suc k) raws m1")
  have res: "rows = (case ro of None \<Rightarrow> rs | Some r \<Rightarrow> r # rs)" "m' = m2"
    using Cons.prems(1) r rs by simp_all
  note IH = Cons.IH [OF rs Cons.prems(2,3)]
  have fr: "element_frame m m1" "invalid_count m1 = invalid_count m + (if ro = None then 1 else 0)"
    using event_row_frame [OF r] by (auto simp: element_frame_def)
  show ?case
    using IH fr res event_row_ok [of cfg "clock k" raw m _ m1] r Cons.prems(2,3)
      element_frame_trans [OF fr(1)]
    by (cases ro) (auto simp: Suc_diff_le)
qed

section \<open>How many elements\<close>

lemma add_element_Elements: "add_element v e = Elements vs \<longleftrightarrow> (\<exists>ws. e = Elements ws \<and> vs = v # ws)"
  by (cases e) auto

lemma array_loop_bound: "array_loop room first s = Elements vs \<Longrightarrow> length vs \<le> room"
proof (induction room arbitrary: first s vs)
  case 0
  then show ?case
    by (subst (asm) array_loop.simps) (auto split: list.splits read_value.splits if_splits)
next
  case (Suc room)
  from Suc.prems show ?case
    by (subst (asm) array_loop.simps)
      (auto split: list.splits read_value.splits if_splits simp: add_element_Elements dest!: Suc.IH)
qed

lemma value_loop_bound: "value_loop room s = Elements vs \<Longrightarrow> length vs \<le> room"
proof (induction room arbitrary: s vs)
  case 0
  then show ?case by (subst (asm) value_loop.simps) (auto split: read_value.splits)
next
  case (Suc room)
  from Suc.prems show ?case
    by (subst (asm) value_loop.simps)
      (auto split: read_value.splits simp: add_element_Elements dest!: Suc.IH)
qed

lemma batch_elements_bound: "batch_elements n s = Elements vs \<Longrightarrow> length vs \<le> nat n"
  by (auto simp: batch_elements_def array_loop_bound value_loop_bound split: list.splits if_splits)

section \<open>One object after another\<close>

lemma read_value_acc:
  "read_value_aux sc (acc @ pre) s =
     (case read_value_aux sc acc s of
        ReadOk w r \<Rightarrow> ReadOk (rev pre @ w) r
      | ReadEOF \<Rightarrow> if list_all is_space pre then ReadEOF else ReadBad
      | ReadBad \<Rightarrow> ReadBad)"
proof (induction s arbitrary: sc acc)
  case (Cons c s)
  show ?case
    using Cons.IH [of "snd (scan_step c sc)" "c # acc"]
    by (cases "scan_step c sc") (auto split: read_value.splits)
qed auto

lemma read_raw_space:
  assumes "is_space c"
  shows "read_raw (c # s) = read_raw s"
proof -
  have "scan_step c scan_start = (ScanSkipSpace, scan_start)" using assms by (simp add: begin_value_def)
  then have "read_value_aux scan_start [] (c # s) = read_value_aux scan_start ([] @ [c]) s" by simp
  then show ?thesis
    unfolding read_raw_def read_value_acc using assms
    by (auto split: read_value.splits)
qed

text \<open>Inside an object the scanner stays inside until the closing brace.\<close>

definition inside :: "scanner \<Rightarrow> bool" where
  "inside sc \<longleftrightarrow> snd sc \<noteq> [] \<and> fst sc \<noteq> EndTop"

lemma inside_no_end: "inside sc \<Longrightarrow> fst (scan_step c sc) \<noteq> ScanEnd"
proof -
  assume i: "inside sc"
  have ev: "ps \<noteq> [] \<Longrightarrow> fst (end_value c ps) \<noteq> ScanEnd" for ps
    by (cases ps) (auto simp: pop_def split: pstate.split)
  have bv: "fst (begin_value c ps) \<noteq> ScanEnd" for ps
    by (simp add: begin_value_def push_def)
  show ?thesis
    using i ev bv by (cases "(c, sc)" rule: scan_step.cases)
      (auto simp: inside_def begin_string_def state0_def pop_def split: list.split)
qed

text \<open>A step that stays inside, fails or closes the outermost value.\<close>

definition keeps_inside :: "sop \<times> scanner \<Rightarrow> bool" where
  "keeps_inside r \<longleftrightarrow>
     inside (snd r) \<or> fst r = ScanError \<or>
     ((fst r = ScanEndObject \<or> fst r = ScanEndArray) \<and> snd (snd r) = [])"

lemma keeps_inside_const: "ps \<noteq> [] \<Longrightarrow> st \<noteq> EndTop \<Longrightarrow> keeps_inside (op, (st, ps))"
  by (simp add: keeps_inside_def inside_def)

lemma keeps_inside_failed: "keeps_inside failed"
  by (simp add: keeps_inside_def)

lemma keeps_inside_end: "ps \<noteq> [] \<Longrightarrow> keeps_inside (end_value c ps)"
  by (cases ps) (auto simp: keeps_inside_def inside_def pop_def split: pstate.split)

lemma keeps_inside_begin: "ps \<noteq> [] \<Longrightarrow> keeps_inside (begin_value c ps)"
  by (simp add: keeps_inside_def inside_def begin_value_def push_def)

lemma keeps_inside_pop: "op = ScanEndObject \<Longrightarrow> keeps_inside (pop op ps)"
  by (cases ps) (auto simp: keeps_inside_def inside_def pop_def)

lemmas keeps_inside_parts =
  keeps_inside_const keeps_inside_failed keeps_inside_end keeps_inside_begin keeps_inside_pop

lemma keeps_inside_step: "ps \<noteq> [] \<Longrightarrow> st \<noteq> EndTop \<Longrightarrow> keeps_inside (scan_step c (st, ps))"
  by (cases st)
    (simp_all add: keeps_inside_parts begin_string_def state0_def split: list.split)

lemma inside_step:
  assumes "inside sc" "scan_step c sc = (op, sc')" "op \<noteq> ScanError"
    "\<not> ((op = ScanEndObject \<or> op = ScanEndArray) \<and> snd sc' = [])"
  shows "inside sc'"
  using assms keeps_inside_step [of "snd sc" "fst sc" c] by (auto simp: keeps_inside_def inside_def)

lemma read_value_inside:
  "inside sc \<Longrightarrow> read_value_aux sc acc s = ReadOk w [] \<Longrightarrow> read_value_aux sc acc (s @ rest) = ReadOk w rest"
proof (induction s arbitrary: sc acc)
  case Nil
  then show ?case using inside_no_end by (auto split: if_splits)
next
  case (Cons c s)
  obtain op sc' where st: "scan_step c sc = (op, sc')" by (cases "scan_step c sc")
  have "op \<noteq> ScanEnd" using inside_no_end [OF Cons.prems(1), of c] st by simp
  then show ?case
    using Cons.IH [of sc' "c # acc"] Cons.prems st inside_step [OF Cons.prems(1) st]
    by (auto split: if_splits)
qed

definition object_text :: "string \<Rightarrow> bool" where
  "object_text v \<longleftrightarrow> prefix ''{'' v \<and> read_raw v = ReadOk v []"

lemma read_raw_object: "object_text v \<Longrightarrow> read_raw (v @ rest) = ReadOk v rest"
proof -
  assume v: "object_text v"
  then obtain s where s: "v = CHR ''{'' # s" by (auto simp: object_text_def prefix_def)
  have step: "scan_step CHR ''{'' scan_start = (ScanBeginObject, (BeginStringOrEmpty, [ParseObjectKey]))"
    by (simp add: begin_value_def is_space_def push_def maxNestingDepth_def)
  obtain w where w: "read_value_aux (BeginStringOrEmpty, [ParseObjectKey]) ''{'' s = ReadOk w []"
    "dropWhile is_space w = v"
    using v s step by (auto simp: object_text_def read_raw_def split: read_value.splits)
  have "read_value_aux (BeginStringOrEmpty, [ParseObjectKey]) ''{'' (s @ rest) = ReadOk w rest"
    by (rule read_value_inside [OF _ w(1)]) (simp add: inside_def)
  then show ?thesis using w(2) s step by (simp add: read_raw_def)
qed

lemma object_text_start: "object_text v \<Longrightarrow> skip_spaces (v @ rest) = v @ rest \<and> v \<noteq> []"
  by (auto simp: object_text_def prefix_def is_space_def)

definition batch_of :: "nat \<Rightarrow> string list \<Rightarrow> elements" where
  "batch_of room vs = (if length vs \<le> room then Elements vs else TooMany)"

lemma add_batch_of: "add_element v (batch_of room vs) = batch_of (Suc room) (v # vs)"
  by (simp add: batch_of_def)

lemma array_loop_objects:
  "list_all object_text vs \<Longrightarrow> vs \<noteq> [] \<Longrightarrow>
   array_loop room True (join '','' vs @ '']'') = batch_of room vs \<and>
   array_loop room False (CHR '','' # join '','' vs @ '']'') = batch_of room vs"
proof (induction vs arbitrary: room rule: induct_list012)
  case (2 v)
  then have v: "object_text v" by simp
  obtain s where s: "v = CHR ''{'' # s" using v by (auto simp: object_text_def prefix_def)
  have last: "array_loop n False '']'' = Elements []" for n
    by (simp add: array_loop.simps is_space_def)
  show ?case
    using read_raw_object [OF v, of "'']''"] s last
    by (auto simp: array_loop.simps [of room] is_space_def batch_of_def split: nat.split)
next
  case (3 v w vs)
  then have v: "object_text v" by simp
  obtain s where s: "v = CHR ''{'' # s" using v by (auto simp: object_text_def prefix_def)
  have IH: "array_loop n False (CHR '','' # join '','' (w # vs) @ '']'') = batch_of n (w # vs)" for n
    using 3 by simp
  show ?case
    using read_raw_object [OF v, of "CHR '','' # join '','' (w # vs) @ '']''"] s IH
    by (auto simp: array_loop.simps [of room] is_space_def add_batch_of split: nat.split)
      (simp_all add: batch_of_def)
qed simp

lemma value_loop_objects:
  "list_all object_text vs \<Longrightarrow> vs \<noteq> [] \<Longrightarrow>
   value_loop room (join [CHR 0x0A] vs) = batch_of room vs \<and>
   value_loop room (CHR 0x0A # join [CHR 0x0A] vs) = batch_of room vs"
proof (induction vs arbitrary: room rule: induct_list012)
  case (2 v)
  then have v: "object_text v" by simp
  have last: "value_loop n [] = Elements []" for n
    by (simp add: value_loop.simps read_raw_def begin_value_def is_space_def)
  show ?case
    using read_raw_object [OF v, of "[]"] last
    by (auto simp: value_loop.simps [of room] read_raw_space is_space_def batch_of_def split: nat.split)
next
  case (3 v w vs)
  then have v: "object_text v" by simp
  have IH: "value_loop n (CHR 0x0A # join [CHR 0x0A] (w # vs)) = batch_of n (w # vs)" for n
    using 3 by simp
  show ?case
    using read_raw_object [OF v, of "CHR 0x0A # join [CHR 0x0A] (w # vs)"] IH
    by (auto simp: value_loop.simps [of room] read_raw_space is_space_def add_batch_of split: nat.split)
      (simp_all add: batch_of_def)
qed simp

section \<open>A small batch\<close>

definition demo_object :: string where
  "demo_object =
     ''{'' @ json_key ''project'' @ '':'' @ json_key ''shop'' @ '','' @ json_key ''message'' @ '':'' @
     json_key ''hi'' @ ''}''"

lemmas scanner_defs =
  begin_value_def begin_string_def push_def pop_def state0_def maxNestingDepth_def is_space_def digit_def

lemma demo_object_text: "object_text demo_object"
  by (simp add: object_text_def demo_object_def json_key_def read_raw_def scanner_defs)

lemma demo_object_valid: "json_valid demo_object" "utf8_valid demo_object" "demo_object \<noteq> ''null''"
  by (simp_all add: json_valid_def demo_object_def json_key_def scan_eof_def scanner_defs utf8_valid_ascii)

lemma demo_object_members:
  "members demo_object = Some [(json_key ''project'', json_key ''shop''), (json_key ''message'', json_key ''hi'')]"
  by (simp add: members_def read_raw_def demo_object_def json_key_def scanner_defs)

definition demo_row :: "string \<Rightarrow> row" where
  "demo_row ts = \<lparr>row_timestamp = ts, row_project = ''shop'', row_level = ''info'', row_message = ''hi'',
     row_context = ''{}'', row_source_ip = []\<rparr>"

lemma demo_object_unquote:
  "unquote (json_key ''project'') = Some ''project''" "unquote (json_key ''shop'') = Some ''shop''"
  "unquote (json_key ''message'') = Some ''message''" "unquote (json_key ''hi'') = Some ''hi''"
  by (simp_all add: json_key_def unquote_def)

lemma demo_object_event:
  "unmarshal_event demo_object = Some (empty_event\<lparr>ev_project := ''shop'', ev_message := ''hi''\<rparr>)"
proof -
  have "json_key k \<noteq> ''null''" for k by (simp add: json_key_def)
  then show ?thesis
    by (simp add: unmarshal_event_def demo_object_valid demo_object_members set_member_def set_string_def
        demo_object_unquote field_of_def field_names_def)
qed

lemma demo_object_row:
  "buildRow demo_config now now' (empty_event\<lparr>ev_project := ''shop'', ev_message := ''hi''\<rparr>) m =
   (Some (demo_row (format_ch now')), m)"
proof -
  have "trim_space ''hi'' = ''hi''" "trim_space ''shop'' = ''shop''" "trim_space [] = []" "projectRe ''shop''"
    by (simp_all add: trim_space_def strip.simps space_seqs_def demo_project)
  moreover have "normalizeLevel [] = ''info''" by code_simp
  moreover have "normalizeContext [] 64 = (''{}'', False)"
    by (simp add: normalizeContext_def trim_space_def strip.simps space_seqs_def)
  moreover have "normalizeEventTime now [] keep = ([], SkewNone)" for keep
    by (simp add: normalizeEventTime_def trim_space_def strip.simps space_seqs_def)
  ultimately show ?thesis
    by (simp add: buildRow_def empty_event_def demo_config_def demo_row_def)
qed

lemma demo_event_row_ok:
  "event_row demo_config now demo_object m = (Some (demo_row (format_ch (snd now))), m)"
  by (simp add: event_row_def sanitise_def demo_object_valid demo_object_event demo_object_row)

lemma demo_batch:
  "batch_elements 3 (''['' @ demo_object @ '']'') = Elements [demo_object]"
  using array_loop_objects [of "[demo_object]" 3] demo_object_text
  by (simp add: batch_elements_def batch_of_def)

lemma demo_max_events: "maxBatchEvents demo_config = 3"
  by (simp add: demo_config_def)

lemma demo_parse:
  "parse_data demo_config clock (''['' @ demo_object @ '']'') m =
   (Rows [demo_row (format_ch (snd (clock 0)))], m)"
  using demo_batch
  by (simp add: parse_data_def demo_event_row_ok is_space_def Let_def demo_max_events)

section \<open>The properties of parseBatch\<close>

text \<open>C1: An accepted batch has at least one row, every row is ready to be stored, and each of
  the at most MAX_BATCH_EVENTS elements is either one of the rows or counted once as an
  invalid event.\<close>

theorem parse_data_accepts:
  assumes "parse_data cfg clock data m = (Rows rows, m')" "ranges_ok cfg" "\<forall>i. time_ok (snd (clock i))"
  shows "\<exists>raws. batch_elements (maxBatchEvents cfg) (skip_spaces data) = Elements raws \<and>
    int (length raws) \<le> maxBatchEvents cfg \<and> rows \<noteq> [] \<and> length rows \<le> length raws \<and>
    list_all (row_ok cfg) rows \<and> invalid_count m' = invalid_count m + int (length raws - length rows)"
proof -
  obtain raws where raws: "batch_elements (maxBatchEvents cfg) (skip_spaces data) = Elements raws"
    "event_rows cfg clock 0 raws m = (rows, m')" "rows \<noteq> []"
    using assms(1) by (auto simp: parse_data_def Let_def split: if_splits elements.splits prod.splits)
  have "1 \<le> maxBatchEvents cfg" using assms(2) by (simp add: ranges_ok_def)
  then have "int (length raws) \<le> maxBatchEvents cfg" using batch_elements_bound [OF raws(1)] by simp
  then show ?thesis using event_rows_spec [OF raws(2) assms(2)] assms(3) raws by blast
qed

lemma parse_data_accepts_witness:
  "\<exists>raws. batch_elements 3 (skip_spaces (''['' @ demo_object @ '']'')) = Elements raws \<and> length raws \<le> 3 \<and>
    row_ok demo_config (demo_row (format_ch (unix 1700000000 0)))"
proof -
  have "time_ok (unix 1700000000 0)" by (simp add: time_ok_def unix_def)
  then show ?thesis
    using parse_data_accepts [OF demo_parse [of "\<lambda>_. (unix 1700000000 0, unix 1700000000 0)"] demo_config_ok]
    by (auto simp: demo_max_events)
qed

text \<open>C28: JSON objects mean the same sent as one array and sent one after another on lines of
  their own, and more of them than MAX_BATCH_EVENTS are refused with 413 in both forms
  before a single one is decoded.\<close>

theorem batch_forms_agree:
  assumes "list_all object_text vs" "vs \<noteq> []"
  shows "parse_data cfg clock (''['' @ join '','' vs @ '']'') m = parse_data cfg clock (join [CHR 0x0A] vs) m \<and>
    (maxBatchEvents cfg < int (length vs) \<longrightarrow>
      parse_data cfg clock (join [CHR 0x0A] vs) m = (Rejected 413 ''too_many_events'', m))"
proof -
  obtain v ws where v: "vs = v # ws" "object_text v" using assms by (cases vs) auto
  obtain s where s: "v = CHR ''{'' # s" using v(2) by (auto simp: object_text_def prefix_def)
  obtain s' where s': "join [CHR 0x0A] vs = CHR ''{'' # s'" using v(1) s by (cases ws) auto
  have len: "length vs \<le> nat n \<longleftrightarrow> \<not> n < int (length vs)" for n using assms(2) by (cases vs) auto
  have "batch_elements n (''['' @ join '','' vs @ '']'') = batch_of (nat n) vs" for n
    using array_loop_objects [OF assms, of "nat n"] by (simp add: batch_elements_def)
  moreover have "batch_elements n (join [CHR 0x0A] vs) = batch_of (nat n) vs" for n
    using value_loop_objects [OF assms, of "nat n"] s' by (simp add: batch_elements_def)
  ultimately show ?thesis
    using s' len by (simp add: parse_data_def is_space_def batch_of_def)
qed

lemma batch_forms_agree_witness:
  "parse_data demo_config (\<lambda>_. (unix 0 0, unix 0 0))
     (''['' @ join '','' [demo_object, demo_object, demo_object, demo_object] @ '']'') (newMetrics [] [] 0) =
   (Rejected 413 ''too_many_events'', newMetrics [] [] 0)"
  using batch_forms_agree [of "[demo_object, demo_object, demo_object, demo_object]" demo_config
      "\<lambda>_. (unix 0 0, unix 0 0)" "newMetrics [] [] 0"] demo_object_text
  by (simp add: demo_max_events del: join.simps)

end
