(* ===== verification/Insert.thy ===== *)
theory Insert
  imports Config Metrics Http
begin

text \<open>
  The way of one batch into ClickHouse (\<open>gateway/ingest.go\<close>): \<open>insertOnce\<close>, the retry
  loop \<open>insertWithRetry\<close> and \<open>retryableInsertErr\<close>. What the network, the clock and the
  \<open>draining\<close> flag answer is an argument, one entry per attempt.
\<close>

section \<open>The insert URL\<close>

definition hex_upper :: "nat \<Rightarrow> char" where
  "hex_upper n = (if n < 10 then char_of (48 + n) else char_of (55 + n))"

text \<open>\<open>url.QueryEscape\<close>.\<close>

definition query_escape :: "string \<Rightarrow> string" where
  "query_escape s =
     concat (map (\<lambda>c.
       if digit c \<or> (97 \<le> byte_of (lower_byte c) \<and> byte_of (lower_byte c) \<le> 122) \<or> c \<in> set ''-_.~'' then [c]
       else if c = CHR '' '' then ''+''
       else [CHR ''%'', hex_upper (byte_of c div 16), hex_upper (byte_of c mod 16)]) s)"

text \<open>\<open>url.Values.Encode\<close> orders the three parameters by name.\<close>

definition insertURL :: "config \<Rightarrow> string" where
  "insertURL cfg =
     chBaseURL cfg @ ''/?'' @ ''async_insert=1&query='' @
     query_escape (''INSERT INTO '' @ chDatabase cfg @ ''.'' @ chTable cfg @
       '' (timestamp, project, level, message, context, source_ip) FORMAT JSONEachRow'') @
     ''&wait_for_async_insert=1''"

section \<open>One attempt\<close>

text \<open>A request to ClickHouse as it goes out, and what comes back: no response at all, or a
  status with the part of the body that could be read.\<close>

record ch_request =
  rq_method :: string
  rq_url :: string
  rq_headers :: "(string \<times> string) list"
  rq_body :: string
  rq_timeout :: int

datatype reply = NoReply | Reply nat string

datatype insert_error = TransportError | ChStatusError nat string

text \<open>\<open>Error\<close> of \<open>chStatusError\<close>, as it appears in the log.\<close>

definition ch_error_text :: "nat \<Rightarrow> string \<Rightarrow> string" where
  "ch_error_text code msg = ''clickhouse '' @ itoa (int code) @ '': '' @ msg"

text \<open>One attempt's surroundings: \<open>draining\<close> as read by the retry loop and by \<open>insertOnce\<close>,
  the reply and the time it took.\<close>

record attempt_env =
  at_drain :: bool
  at_draining :: bool
  at_reply :: reply
  at_seconds :: float64

definition insert_request :: "config \<Rightarrow> bool \<Rightarrow> string \<Rightarrow> ch_request" where
  "insert_request cfg draining body =
     \<lparr>rq_method = ''POST'', rq_url = insertURL cfg,
      rq_headers =
        [(''X-ClickHouse-User'', chUser cfg)] @
        (if chKey cfg \<noteq> [] then [(''X-ClickHouse-Key'', chKey cfg)] else []) @
        [(''Content-Type'', ''application/x-ndjson'')],
      rq_body = body, rq_timeout = (if draining then 3 * 1000000000 else 15 * 1000000000)\<rparr>"

text \<open>\<open>sendable\<close> says whether \<open>http.NewRequestWithContext\<close> accepts a URL. The result is the
  request sent, if any, and the error.\<close>

definition insertOnce ::
  "(string \<Rightarrow> bool) \<Rightarrow> config \<Rightarrow> attempt_env \<Rightarrow> string \<Rightarrow> metrics \<Rightarrow>
   ch_request list \<times> insert_error option \<times> metrics" where
  "insertOnce sendable cfg a body m =
     (if \<not> sendable (insertURL cfg) then ([], Some TransportError, m)
      else
        (let m' = m\<lparr>m_insertDur := hist_observe (at_seconds a) (m_insertDur m)\<rparr> in
         ([insert_request cfg (at_draining a) body],
          (case at_reply a of
             NoReply \<Rightarrow> Some TransportError
           | Reply code b \<Rightarrow>
               if code \<noteq> 200 then Some (ChStatusError code (trim_space (take 512 b))) else None),
          m')))"

fun retryableInsertErr :: "insert_error \<Rightarrow> bool" where
  "retryableInsertErr (ChStatusError code msg) \<longleftrightarrow> code \<noteq> 400"
| "retryableInsertErr TransportError \<longleftrightarrow> True"

section \<open>The retry loop\<close>

text \<open>What the loop leaves behind: the error, the sleeps (ns) and the requests sent.\<close>

record insert_run =
  run_error :: "insert_error option"
  run_sleeps :: "int list"
  run_sent :: "ch_request list"
  run_metrics :: metrics

text \<open>\<open>left\<close> is how many attempts \<open>attempt <= retries\<close> still allows.\<close>

fun retry_loop ::
  "(string \<Rightarrow> bool) \<Rightarrow> config \<Rightarrow> (nat \<Rightarrow> attempt_env) \<Rightarrow> string \<Rightarrow> nat \<Rightarrow> nat \<Rightarrow> int \<Rightarrow>
   insert_run \<Rightarrow> insert_run" where
  "retry_loop sendable cfg env body attempt 0 backoff r = r"
| "retry_loop sendable cfg env body attempt (Suc left) backoff r =
     (if 0 < attempt \<and> at_drain (env attempt) then r
      else
        (let (m, sleeps, backoff') =
               (if 0 < attempt
                then ((run_metrics r)\<lparr>m_insertRetries := m_insertRetries (run_metrics r) + 1\<rparr>,
                      run_sleeps r @ [backoff],
                      if backoff < 5 * 1000000000 then 2 * backoff else backoff)
                else (run_metrics r, run_sleeps r, backoff));
             (sent, err, m') = insertOnce sendable cfg (env attempt) body m;
             r' = \<lparr>run_error = err, run_sleeps = sleeps, run_sent = run_sent r @ sent, run_metrics = m'\<rparr>
         in case err of
              None \<Rightarrow> r'
            | Some e \<Rightarrow>
                if \<not> retryableInsertErr e then r'
                else retry_loop sendable cfg env body (Suc attempt) left backoff' r'))"

text \<open>\<open>at_drain (env 0)\<close> is the flag as read on entry.\<close>

definition insertWithRetry ::
  "(string \<Rightarrow> bool) \<Rightarrow> config \<Rightarrow> (nat \<Rightarrow> attempt_env) \<Rightarrow> string \<Rightarrow> metrics \<Rightarrow> insert_run" where
  "insertWithRetry sendable cfg env body m =
     (let retries = (if at_drain (env 0) then 0 else maxRetries cfg) in
      retry_loop sendable cfg env body 0 (nat (retries + 1)) (200 * 1000000)
        \<lparr>run_error = None, run_sleeps = [], run_sent = [], run_metrics = m\<rparr>)"

section \<open>What the retry loop does\<close>

definition attempt_error :: "(string \<Rightarrow> bool) \<Rightarrow> config \<Rightarrow> attempt_env \<Rightarrow> insert_error option" where
  "attempt_error sendable cfg a =
     (if \<not> sendable (insertURL cfg) then Some TransportError
      else case at_reply a of
        NoReply \<Rightarrow> Some TransportError
      | Reply code b \<Rightarrow> if code \<noteq> 200 then Some (ChStatusError code (trim_space (take 512 b))) else None)"

definition worth_retrying :: "insert_error option \<Rightarrow> bool" where
  "worth_retrying err \<longleftrightarrow> (case err of None \<Rightarrow> False | Some e \<Rightarrow> retryableInsertErr e)"

text \<open>The sleep before retry \<open>k + 1\<close>: it doubles five times and then stays at 6.4 seconds.\<close>

definition backoff_at :: "nat \<Rightarrow> int" where
  "backoff_at k = 200000000 * 2 ^ min k 5"

lemma backoff_next:
  "backoff_at k < 5000000000 \<Longrightarrow> 2 * backoff_at k = backoff_at (Suc k)"
  "\<not> backoff_at k < 5000000000 \<Longrightarrow> backoff_at k = backoff_at (Suc k)"
proof -
  have "(backoff_at k < 5000000000 \<longrightarrow> 2 * backoff_at k = backoff_at (Suc k)) \<and>
    (\<not> backoff_at k < 5000000000 \<longrightarrow> backoff_at k = backoff_at (Suc k))"
  proof (cases "k < 5")
    case True
    then have "k \<in> {0, 1, 2, 3, 4}" by auto
    then show ?thesis by (auto simp: backoff_at_def)
  qed (simp add: backoff_at_def min_def)
  then show "backoff_at k < 5000000000 \<Longrightarrow> 2 * backoff_at k = backoff_at (Suc k)"
    "\<not> backoff_at k < 5000000000 \<Longrightarrow> backoff_at k = backoff_at (Suc k)" by blast+
qed

lemma insertOnce_result:
  "insertOnce sendable cfg a body m =
     (if sendable (insertURL cfg) then [insert_request cfg (at_draining a) body] else [],
      attempt_error sendable cfg a,
      if sendable (insertURL cfg) then m\<lparr>m_insertDur := hist_observe (at_seconds a) (m_insertDur m)\<rparr> else m)"
  by (simp add: insertOnce_def attempt_error_def Let_def)

definition retries_only :: "metrics \<Rightarrow> metrics \<Rightarrow> int \<Rightarrow> bool" where
  "retries_only m m' n \<longleftrightarrow>
     m' = m\<lparr>m_insertRetries := m_insertRetries m + n, m_insertDur := m_insertDur m'\<rparr>"

lemma retries_only_refl: "retries_only m m 0"
  by (simp add: retries_only_def)

lemma retries_only_trans: "retries_only m m' a \<Longrightarrow> retries_only m' m'' b \<Longrightarrow> retries_only m m'' (a + b)"
  unfolding retries_only_def by (cases m; cases m'; cases m'') (simp add: algebra_simps)

text \<open>The retries among the attempts: every attempt but number 0.\<close>

definition retried :: "nat list \<Rightarrow> nat list" where
  "retried ks = filter ((<) 0) ks"

definition loop_result ::
  "(string \<Rightarrow> bool) \<Rightarrow> config \<Rightarrow> (nat \<Rightarrow> attempt_env) \<Rightarrow> string \<Rightarrow> nat \<Rightarrow> nat \<Rightarrow>
   insert_run \<Rightarrow> insert_run \<Rightarrow> bool" where
  "loop_result sendable cfg env body attempt j r r' \<longleftrightarrow>
     (let ks = [attempt..<attempt + j] in
      run_error r' = (if j = 0 then run_error r else attempt_error sendable cfg (env (attempt + j - 1))) \<and>
      run_sleeps r' = run_sleeps r @ map (\<lambda>k. backoff_at (k - 1)) (retried ks) \<and>
      run_sent r' = run_sent r @
        (if sendable (insertURL cfg) then map (\<lambda>k. insert_request cfg (at_draining (env k)) body) ks else []) \<and>
      retries_only (run_metrics r) (run_metrics r') (int (length (retried ks))))"

definition loop_course :: "(string \<Rightarrow> bool) \<Rightarrow> config \<Rightarrow> (nat \<Rightarrow> attempt_env) \<Rightarrow> nat \<Rightarrow> nat \<Rightarrow> nat \<Rightarrow> bool" where
  "loop_course sendable cfg env attempt left j \<longleftrightarrow>
     j \<le> left \<and>
     (\<forall>k\<in>{attempt..<attempt + j}.
        (0 < k \<longrightarrow> \<not> at_drain (env k)) \<and>
        (Suc k < attempt + j \<longrightarrow> worth_retrying (attempt_error sendable cfg (env k)))) \<and>
     (j = left \<or>
      0 < j \<and> \<not> worth_retrying (attempt_error sendable cfg (env (attempt + j - 1))) \<or>
      0 < attempt + j \<and> at_drain (env (attempt + j)))"

lemma loop_result_trans:
  assumes "loop_result sendable cfg env body attempt 1 r r1"
    "loop_result sendable cfg env body (Suc attempt) j r1 r2"
  shows "loop_result sendable cfg env body attempt (Suc j) r r2"
proof -
  have ks: "[attempt..<attempt + Suc j] = [attempt..<attempt + 1] @ [Suc attempt..<Suc attempt + j]"
    by (simp add: upt_conv_Cons)
  have m: "retries_only (run_metrics r) (run_metrics r2)
      (int (length (retried [attempt..<attempt + 1])) + int (length (retried [Suc attempt..<Suc attempt + j])))"
    using assms retries_only_trans by (auto simp: loop_result_def Let_def)
  show ?thesis
    using assms m unfolding loop_result_def Let_def ks by (auto simp: retried_def)
qed

lemma retry_loop_course:
  assumes "backoff = backoff_at (attempt - 1)"
  shows "\<exists>j. loop_course sendable cfg env attempt left j \<and>
    loop_result sendable cfg env body attempt j r (retry_loop sendable cfg env body attempt left backoff r)"
  using assms
proof (induction left arbitrary: attempt backoff r)
  case 0
  then show ?case
    by (intro exI [of _ 0]) (simp add: loop_course_def loop_result_def retried_def retries_only_refl)
next
  case (Suc left)
  show ?case
  proof (cases "0 < attempt \<and> at_drain (env attempt)")
    case True
    then show ?thesis
      by (intro exI [of _ 0]) (simp add: loop_course_def loop_result_def retried_def retries_only_refl)
  next
    case False
    define r1 where "r1 = \<lparr>run_error = attempt_error sendable cfg (env attempt),
       run_sleeps = run_sleeps r @ (if 0 < attempt then [backoff] else []),
       run_sent = run_sent r @ (if sendable (insertURL cfg) then [insert_request cfg (at_draining (env attempt)) body] else []),
       run_metrics = (let m = (if 0 < attempt then (run_metrics r)\<lparr>m_insertRetries := m_insertRetries (run_metrics r) + 1\<rparr>
           else run_metrics r) in
         if sendable (insertURL cfg)
         then m\<lparr>m_insertDur := hist_observe (at_seconds (env attempt)) (m_insertDur m)\<rparr> else m)\<rparr>"
    define b1 where "b1 = (if 0 < attempt then if backoff < 5 * 1000000000 then 2 * backoff else backoff else backoff)"
    have step: "retry_loop sendable cfg env body attempt (Suc left) backoff r =
        (if worth_retrying (attempt_error sendable cfg (env attempt))
         then retry_loop sendable cfg env body (Suc attempt) left b1 r1 else r1)"
      using False by (auto simp: insertOnce_result r1_def b1_def worth_retrying_def Let_def split: option.split)
    have b1: "b1 = backoff_at (Suc attempt - 1)"
      by (cases attempt) (simp_all add: b1_def Suc.prems backoff_next)
    have one: "loop_result sendable cfg env body attempt 1 r r1"
      by (auto simp: loop_result_def retried_def r1_def retries_only_def Suc.prems Let_def)
    show ?thesis
    proof (cases "worth_retrying (attempt_error sendable cfg (env attempt))")
      case w: False
      have "loop_course sendable cfg env attempt (Suc left) 1"
        using w False by (auto simp: loop_course_def)
      with one w show ?thesis unfolding step by auto
    next
      case w: True
      obtain j where j: "loop_course sendable cfg env (Suc attempt) left j"
        "loop_result sendable cfg env body (Suc attempt) j r1 (retry_loop sendable cfg env body (Suc attempt) left b1 r1)"
        using Suc.IH [OF b1] by blast
      have "loop_course sendable cfg env attempt (Suc left) (Suc j)"
      proof -
        have range: "{attempt..<attempt + Suc j} = insert attempt {Suc attempt..<Suc attempt + j}" by auto
        show ?thesis using j(1) w False unfolding loop_course_def range by auto
      qed
      moreover have "loop_result sendable cfg env body attempt (Suc j) r
          (retry_loop sendable cfg env body (Suc attempt) left b1 r1)"
        by (rule loop_result_trans [OF one j(2)])
      ultimately show ?thesis using w unfolding step by auto
    qed
  qed
qed

text \<open>
  The attempts that are made, in terms of the configuration alone: attempt \<open>k\<close> is made when
  every earlier one failed in a way worth retrying and shutdown had not begun before it.
\<close>

definition attempts_allowed :: "config \<Rightarrow> (nat \<Rightarrow> attempt_env) \<Rightarrow> nat" where
  "attempts_allowed cfg env = (if at_drain (env 0) then 1 else nat (maxRetries cfg) + 1)"

definition attempt_made :: "(string \<Rightarrow> bool) \<Rightarrow> config \<Rightarrow> (nat \<Rightarrow> attempt_env) \<Rightarrow> nat \<Rightarrow> bool" where
  "attempt_made sendable cfg env k \<longleftrightarrow>
     k < attempts_allowed cfg env \<and>
     (\<forall>i<k. worth_retrying (attempt_error sendable cfg (env i)) \<and> \<not> at_drain (env (Suc i)))"

lemma course_attempts:
  assumes "loop_course sendable cfg env 0 (attempts_allowed cfg env) j"
  shows "0 < j \<and> (\<forall>k. attempt_made sendable cfg env k \<longleftrightarrow> k < j)"
proof -
  have j: "0 < j" using assms by (cases j) (auto simp: loop_course_def attempts_allowed_def split: if_splits)
  moreover have "attempt_made sendable cfg env k" if "k < j" for k
    using assms that by (auto simp: loop_course_def attempt_made_def)
  moreover have "\<not> attempt_made sendable cfg env k" if "j \<le> k" for k
  proof
    assume m: "attempt_made sendable cfg env k"
    then have "j \<noteq> attempts_allowed cfg env" using that by (auto simp: attempt_made_def)
    then consider "\<not> worth_retrying (attempt_error sendable cfg (env (j - 1)))" | "at_drain (env j)"
      using assms by (auto simp: loop_course_def)
    then show False
      using m that j by cases (auto simp: attempt_made_def dest!: spec [of _ "j - 1"])
  qed
  ultimately show ?thesis by (meson not_less)
qed

lemma retried_from_zero: "retried [0..<j] = [1..<j]"
  by (cases j) (simp_all add: retried_def upt_conv_Cons filter_id_conv del: upt_Suc)

lemma insertWithRetry_run:
  assumes "0 \<le> maxRetries cfg"
  obtains n where "0 < n" "n \<le> attempts_allowed cfg env"
    "\<And>k. attempt_made sendable cfg env k \<longleftrightarrow> k < n"
    "run_error (insertWithRetry sendable cfg env body m) = attempt_error sendable cfg (env (n - 1))"
    "run_sleeps (insertWithRetry sendable cfg env body m) = map backoff_at [0..<n - 1]"
    "run_sent (insertWithRetry sendable cfg env body m) =
      (if sendable (insertURL cfg) then map (\<lambda>k. insert_request cfg (at_draining (env k)) body) [0..<n] else [])"
    "retries_only m (run_metrics (insertWithRetry sendable cfg env body m)) (int (n - 1))"
proof -
  have n: "nat ((if at_drain (env 0) then 0 else maxRetries cfg) + 1) = attempts_allowed cfg env"
    using assms by (simp add: attempts_allowed_def nat_add_distrib)
  let ?r0 = "\<lparr>run_error = None, run_sleeps = [], run_sent = [], run_metrics = m\<rparr>"
  have b: "200 * 1000000 = backoff_at (0 - 1)" by (simp add: backoff_at_def)
  obtain j where j: "loop_course sendable cfg env 0 (attempts_allowed cfg env) j"
    "loop_result sendable cfg env body 0 j ?r0 (insertWithRetry sendable cfg env body m)"
    using retry_loop_course [OF b, of sendable cfg env "attempts_allowed cfg env" body ?r0]
    by (auto simp: insertWithRetry_def n Let_def)
  have "map (\<lambda>k. backoff_at (k - 1)) [1..<j] = map backoff_at [0..<j - 1]"
    by (rule nth_equalityI) simp_all
  then show thesis
    using j course_attempts [OF j(1)]
    by (intro that [of j]) (auto simp: loop_result_def loop_course_def retried_from_zero Let_def)
qed

text \<open>C31: \<open>insertWithRetry\<close> makes at least one attempt and exactly those the specification
  allows, all with the same body; between them it sleeps 0.2, 0.4, 0.8, 1.6, 3.2 and then
  6.4 seconds each time and counts one retry; its result is the last attempt's.\<close>

theorem insertWithRetry_attempts:
  assumes "0 \<le> maxRetries cfg" "sendable (insertURL cfg)"
  shows "let r = insertWithRetry sendable cfg env body m in
    \<exists>n. 0 < n \<and> n \<le> attempts_allowed cfg env \<and> (\<forall>k. attempt_made sendable cfg env k \<longleftrightarrow> k < n) \<and>
      run_error r = attempt_error sendable cfg (env (n - 1)) \<and>
      run_sleeps r = map backoff_at [0..<n - 1] \<and>
      run_sent r = map (\<lambda>k. insert_request cfg (at_draining (env k)) body) [0..<n] \<and>
      retries_only m (run_metrics r) (int (n - 1))"
proof -
  obtain n where "0 < n" "n \<le> attempts_allowed cfg env"
    "\<And>k. attempt_made sendable cfg env k \<longleftrightarrow> k < n"
    "run_error (insertWithRetry sendable cfg env body m) = attempt_error sendable cfg (env (n - 1))"
    "run_sleeps (insertWithRetry sendable cfg env body m) = map backoff_at [0..<n - 1]"
    "run_sent (insertWithRetry sendable cfg env body m) =
      map (\<lambda>k. insert_request cfg (at_draining (env k)) body) [0..<n]"
    "retries_only m (run_metrics (insertWithRetry sendable cfg env body m)) (int (n - 1))"
    using assms by (elim insertWithRetry_run [of cfg env sendable body m]) auto
  then show ?thesis unfolding Let_def by blast
qed

text \<open>C32: A batch is reported as stored exactly when one of the allowed attempts is answered
  with 200; once shutdown has begun one attempt is all there is, without a sleep, and in any
  case the loop sleeps at most 6.4 seconds per configured retry.\<close>

theorem insertWithRetry_stored:
  assumes "0 \<le> maxRetries cfg"
  shows "let r = insertWithRetry sendable cfg env body m in
    (run_error r = None \<longleftrightarrow>
      (\<exists>k. attempt_made sendable cfg env k \<and> attempt_error sendable cfg (env k) = None)) \<and>
    (at_drain (env 0) \<longrightarrow> run_sleeps r = [] \<and> length (run_sent r) \<le> 1) \<and>
    sum_list (run_sleeps r) \<le> 6400000000 * maxRetries cfg"
  (is "let r = ?r in ?stored r \<and> ?quick r \<and> ?bounded r")
proof -
  obtain n where n: "0 < n" "n \<le> attempts_allowed cfg env"
    "\<And>k. attempt_made sendable cfg env k \<longleftrightarrow> k < n"
    "run_error ?r = attempt_error sendable cfg (env (n - 1))" "run_sleeps ?r = map backoff_at [0..<n - 1]"
    "length (run_sent ?r) \<le> n"
    using assms by (elim insertWithRetry_run [of cfg env sendable body m]) (auto split: if_splits)
  have "k = n - 1" if "k < n" "attempt_error sendable cfg (env k) = None" for k
  proof (rule ccontr)
    assume "k \<noteq> n - 1"
    then have "attempt_made sendable cfg env (n - 1)" "k < n - 1" using n(1,3) that(1) by auto
    then show False using that(2) by (auto simp: attempt_made_def worth_retrying_def)
  qed
  then have "?stored ?r" using n by (metis diff_less less_numeral_extra(1))
  moreover have "?quick ?r" using n(2,5,6) by (auto simp: attempts_allowed_def)
  moreover have "?bounded ?r"
  proof -
    have "backoff_at k \<le> 6400000000" for k
      using power_increasing [of "min k 5" 5 "2 :: int"] by (simp add: backoff_at_def)
    then have "sum_list (map backoff_at ks) \<le> 6400000000 * int (length ks)" for ks
      by (induction ks) (auto simp: algebra_simps intro: add_mono)
    from this [of "[0..<n - 1]"] have "sum_list (run_sleeps ?r) \<le> 6400000000 * int (n - 1)"
      by (simp add: n(5))
    moreover have "int (n - 1) \<le> maxRetries cfg"
      using n(1,2) assms by (auto simp: attempts_allowed_def split: if_splits)
    ultimately show ?thesis by simp
  qed
  ultimately show ?thesis by (simp add: Let_def)
qed

text \<open>A server that is overloaded once and then answers.\<close>

definition demo_attempts :: "nat \<Rightarrow> attempt_env" where
  "demo_attempts k = \<lparr>at_drain = False, at_draining = False,
     at_reply = (if k = 0 then Reply 503 ''busy'' else Reply 200 []), at_seconds = Fin 0\<rparr>"

lemma demo_attempt_error:
  "attempt_error (\<lambda>_. True) demo_config (demo_attempts (Suc k)) = None"
  "worth_retrying (attempt_error (\<lambda>_. True) demo_config (demo_attempts 0))"
  by (simp_all add: attempt_error_def demo_attempts_def worth_retrying_def)

lemma demo_retries: "0 \<le> maxRetries demo_config" "attempts_allowed demo_config demo_attempts = 2"
  by (simp_all add: attempts_allowed_def demo_attempts_def demo_config_def)

lemma insertWithRetry_attempts_witness:
  "run_sleeps (insertWithRetry (\<lambda>_. True) demo_config demo_attempts ''x'' (newMetrics [] [] 0)) = [200000000]"
proof -
  have "attempt_made (\<lambda>_. True) demo_config demo_attempts 1"
    using demo_attempt_error(2) by (auto simp: attempt_made_def demo_retries demo_attempts_def)
  moreover obtain n where n: "n \<le> 2" "\<And>k. attempt_made (\<lambda>_. True) demo_config demo_attempts k \<longleftrightarrow> k < n"
    "run_sleeps (insertWithRetry (\<lambda>_. True) demo_config demo_attempts ''x'' (newMetrics [] [] 0)) =
      map backoff_at [0..<n - 1]"
    using insertWithRetry_attempts [OF demo_retries(1), of "\<lambda>_. True" demo_attempts "''x''" "newMetrics [] [] 0"]
    unfolding Let_def demo_retries(2) by blast
  ultimately have "n = 2" by simp
  then show ?thesis using n(3) by (simp add: backoff_at_def)
qed

lemma insertWithRetry_stored_witness:
  "run_error (insertWithRetry (\<lambda>_. True) demo_config demo_attempts ''x'' (newMetrics [] [] 0)) = None"
proof -
  have "attempt_made (\<lambda>_. True) demo_config demo_attempts 1"
    using demo_attempt_error(2) by (auto simp: attempt_made_def demo_retries demo_attempts_def)
  moreover have "attempt_error (\<lambda>_. True) demo_config (demo_attempts 1) = None"
    using demo_attempt_error(1) [of 0] by simp
  ultimately show ?thesis
    using insertWithRetry_stored [OF demo_retries(1), of "\<lambda>_. True" demo_attempts "''x''" "newMetrics [] [] 0"]
    by (auto simp: Let_def)
qed

end
