(* ===== verification/Spool.thy ===== *)
theory Spool
  imports Insert Row
begin

text \<open>
  The state of the ingest pipeline and its disk spool (\<open>gateway/ingest.go\<close>): file names and
  their order, \<open>spool\<close>, \<open>resumeSpoolSeq\<close>, \<open>replayOnce\<close>, \<open>quarantine\<close>, \<open>cleanupTmp\<close>,
  \<open>updateSpoolGauge\<close>, and \<open>flush\<close>, which calls \<open>spool\<close>. The spool directory is part of the
  state; what the operating system answers to each call is an argument.
\<close>

section \<open>The spool directory\<close>

datatype entry = Plain string | Folder

type_synonym dir = "(string \<times> entry) list"

definition dir_ok :: "dir \<Rightarrow> bool" where
  "dir_ok d \<longleftrightarrow> distinct (map fst d)"

definition dir_del :: "string \<Rightarrow> dir \<Rightarrow> dir" where
  "dir_del n d = filter (\<lambda>e. fst e \<noteq> n) d"

definition dir_put :: "string \<Rightarrow> string \<Rightarrow> dir \<Rightarrow> dir" where
  "dir_put n b d = (n, Plain b) # dir_del n d"

text \<open>\<open>os.Rename\<close> when the system lets it: the source is a file and the target no directory.\<close>

definition dir_rename :: "bool \<Rightarrow> string \<Rightarrow> string \<Rightarrow> dir \<Rightarrow> bool \<times> dir" where
  "dir_rename ok src dst d =
     (case map_of d src of
        Some (Plain b) \<Rightarrow>
          if ok \<and> map_of d dst \<noteq> Some Folder then (True, dir_put dst b (dir_del src d)) else (False, d)
      | _ \<Rightarrow> (False, d))"

text \<open>\<open>os.Remove\<close>.\<close>

definition dir_remove :: "bool \<Rightarrow> string \<Rightarrow> dir \<Rightarrow> bool \<times> dir" where
  "dir_remove ok n d =
     (if ok \<and> map_of d n \<noteq> None then (True, dir_del n d) else (False, d))"

section \<open>Names\<close>

definition spoolFileName :: "int \<Rightarrow> int \<Rightarrow> string" where
  "spoolFileName pid seq = itoa pid @ ''-'' @ pad_zeros 12 seq @ ''.ndjson''"

definition parseSpoolSeq :: "string \<Rightarrow> int option" where
  "parseSpoolSeq name =
     (case cut CHR ''-'' name of
        None \<Rightarrow> None
      | Some (_, rest) \<Rightarrow>
          (case cut CHR ''.'' rest of None \<Rightarrow> None | Some (digits, _) \<Rightarrow> parse_uint64 digits))"

definition replayable :: "string \<Rightarrow> bool" where
  "replayable name \<longleftrightarrow> suffix ''.ndjson'' name"

text \<open>The comparison of \<open>sort.Slice\<close> in \<open>spoolFilesList\<close>.\<close>

definition spool_before :: "string \<Rightarrow> string \<Rightarrow> bool" where
  "spool_before a b =
     (case (parseSpoolSeq a, parseSpoolSeq b) of
        (Some sa, Some sb) \<Rightarrow> if sa \<noteq> sb then sa < sb else a < b
      | (Some _, None) \<Rightarrow> True
      | (None, Some _) \<Rightarrow> False
      | (None, None) \<Rightarrow> a < b)"

definition plain_names :: "dir \<Rightarrow> string list" where
  "plain_names d = map fst (filter (\<lambda>e. snd e \<noteq> Folder) d)"

text \<open>\<open>listed\<close> says whether \<open>os.ReadDir\<close> succeeds. It returns the entries ordered by name;
  no caller depends on that order (\<open>spoolFilesList\<close> sorts by a total order).\<close>

definition spoolFilesList :: "bool \<Rightarrow> dir \<Rightarrow> string list" where
  "spoolFilesList listed d =
     (if listed then isort spool_before (filter replayable (plain_names d)) else [])"

section \<open>The ingester\<close>

record ingester =
  ing_ch :: "string list"
  ing_closed :: bool
  ing_bufBytes :: int
  ing_spoolSeq :: int
  ing_stopReplay :: bool
  ing_draining :: bool
  ing_dir :: dir
  ing_m :: metrics

definition newIngester :: "dir \<Rightarrow> metrics \<Rightarrow> ingester" where
  "newIngester d m =
     \<lparr>ing_ch = [], ing_closed = False, ing_bufBytes = 0, ing_spoolSeq = 0, ing_stopReplay = False,
      ing_draining = False, ing_dir = d, ing_m = m\<rparr>"

definition ing_depth :: "ingester \<Rightarrow> int" where
  "ing_depth s = int (length (ing_ch s))"

definition ing_capacity :: "config \<Rightarrow> int" where
  "ing_capacity cfg = bufferSize cfg"

definition depthBytes :: "ingester \<Rightarrow> int" where
  "depthBytes s = ing_bufBytes s"

definition add_dropped :: "int \<Rightarrow> ingester \<Rightarrow> ingester" where
  "add_dropped n s = s\<lparr>ing_m := (ing_m s)\<lparr>m_dropped := m_dropped (ing_m s) + n\<rparr>\<rparr>"

definition add_inserted :: "int \<Rightarrow> ingester \<Rightarrow> ingester" where
  "add_inserted n s = s\<lparr>ing_m := (ing_m s)\<lparr>m_inserted := m_inserted (ing_m s) + n\<rparr>\<rparr>"

section \<open>Gauges and the sequence number\<close>

fun entry_size :: "entry \<Rightarrow> int" where
  "entry_size (Plain b) = int (length b)"
| "entry_size Folder = 0"

text \<open>\<open>stat\<close> says for which names \<open>e.Info()\<close> succeeds.\<close>

definition spool_bytes :: "(string \<Rightarrow> bool) \<Rightarrow> dir \<Rightarrow> int" where
  "spool_bytes stat d = sum_list (map (\<lambda>(n, e). if stat n then entry_size e else 0) d)"

definition spool_files :: "dir \<Rightarrow> int" where
  "spool_files d = int (length (filter replayable (plain_names d)))"

definition updateSpoolGauge :: "bool \<Rightarrow> (string \<Rightarrow> bool) \<Rightarrow> ingester \<Rightarrow> ingester" where
  "updateSpoolGauge listed stat s =
     (if listed
      then s\<lparr>ing_m := (ing_m s)\<lparr>m_spoolFiles := spool_files (ing_dir s),
                m_spoolBytes := spool_bytes stat (ing_dir s)\<rparr>\<rparr>
      else s)"

definition max_seq :: "string list \<Rightarrow> int" where
  "max_seq names =
     fold (\<lambda>n acc. case parseSpoolSeq n of Some q \<Rightarrow> if acc < q then q else acc | None \<Rightarrow> acc) names 0"

definition resumeSpoolSeq :: "bool \<Rightarrow> ingester \<Rightarrow> ingester" where
  "resumeSpoolSeq listed s =
     (if \<not> listed then s
      else
        (let maxSeq = max_seq (plain_names (ing_dir s)) in
         if ing_spoolSeq s < maxSeq then s\<lparr>ing_spoolSeq := maxSeq\<rparr> else s))"

definition cleanupTmp :: "bool \<Rightarrow> (string \<Rightarrow> bool) \<Rightarrow> ingester \<Rightarrow> ingester" where
  "cleanupTmp listed removable s =
     (if \<not> listed then s
      else s\<lparr>ing_dir := filter (\<lambda>(n, e). e = Folder \<or> \<not> suffix ''.tmp'' n \<or> \<not> removable n) (ing_dir s)\<rparr>)"

section \<open>spool\<close>

text \<open>What \<open>writeFileSync\<close> leaves: nothing touched, the named bytes with an error, or the file.\<close>

datatype write_outcome = Written | NotOpened | Partial string

record spool_os =
  os_write :: write_outcome
  os_rename :: bool
  os_remove :: bool
  os_listed :: bool
  os_stat :: "string \<Rightarrow> bool"

fun writeFileSync :: "write_outcome \<Rightarrow> string \<Rightarrow> string \<Rightarrow> dir \<Rightarrow> bool \<times> dir" where
  "writeFileSync Written path body d =
     (if map_of d path = Some Folder then (False, d) else (True, dir_put path body d))"
| "writeFileSync NotOpened path body d = (False, d)"
| "writeFileSync (Partial part) path body d =
     (False, if map_of d path = Some Folder then d else dir_put path part d)"

text \<open>The counter is a uint64.\<close>

definition next_seq :: "int \<Rightarrow> int" where
  "next_seq q = (q + 1) mod 2 ^ 64"

definition spool :: "config \<Rightarrow> int \<Rightarrow> spool_os \<Rightarrow> string \<Rightarrow> int \<Rightarrow> ingester \<Rightarrow> ingester" where
  "spool cfg pid os body n s =
     (if spoolDir cfg = [] then add_dropped n s
      else if spoolMaxFiles cfg \<le> m_spoolFiles (ing_m s) then add_dropped n s
      else if 0 < spoolMaxBytes cfg \<and>
              spoolMaxBytes cfg < m_spoolBytes (ing_m s) + int (length body) then add_dropped n s
      else
        (let seq = next_seq (ing_spoolSeq s);
             s1 = s\<lparr>ing_spoolSeq := seq\<rparr>;
             name = spoolFileName pid seq;
             tmp = name @ ''.tmp'' in
         case writeFileSync (os_write os) tmp body (ing_dir s1) of
           (False, d) \<Rightarrow> add_dropped n (s1\<lparr>ing_dir := snd (dir_remove (os_remove os) tmp d)\<rparr>)
         | (True, d) \<Rightarrow>
             (case dir_rename (os_rename os) tmp name d of
                (False, d') \<Rightarrow> add_dropped n (s1\<lparr>ing_dir := snd (dir_remove (os_remove os) tmp d')\<rparr>)
              | (True, d') \<Rightarrow> updateSpoolGauge (os_listed os) (os_stat os) (s1\<lparr>ing_dir := d'\<rparr>))))"

section \<open>flush\<close>

definition flush_body :: "string list \<Rightarrow> string" where
  "flush_body batch = join [CHR 0x0A] batch"

definition flush ::
  "(string \<Rightarrow> bool) \<Rightarrow> config \<Rightarrow> int \<Rightarrow> (nat \<Rightarrow> attempt_env) \<Rightarrow> spool_os \<Rightarrow> string list \<Rightarrow>
   ingester \<Rightarrow> ingester" where
  "flush sendable cfg pid env os batch s =
     (let body = flush_body batch;
          r = insertWithRetry sendable cfg env body (ing_m s);
          s1 = s\<lparr>ing_m := run_metrics r\<rparr> in
      case run_error r of
        Some e \<Rightarrow>
          spool cfg pid os body (int (length batch))
            (s1\<lparr>ing_m := (ing_m s1)\<lparr>m_insertFailed := m_insertFailed (ing_m s1) + 1\<rparr>\<rparr>)
      | None \<Rightarrow> add_inserted (int (length batch)) s1)"

section \<open>Replay\<close>

definition events_in :: "string \<Rightarrow> int" where
  "events_in body = int (count_list body (CHR 0x0A)) + 1"

text \<open>The surroundings of one file of a sweep.\<close>

record replay_env =
  re_stop :: bool
  re_read :: bool
  re_attempt :: attempt_env
  re_remove :: bool
  re_rename :: bool

definition quarantine :: "bool \<Rightarrow> string \<Rightarrow> string \<Rightarrow> ingester \<Rightarrow> ingester" where
  "quarantine renamed name body s =
     (case dir_rename renamed name (name @ ''.bad'') (ing_dir s) of
        (False, d) \<Rightarrow> s
      | (True, d) \<Rightarrow>
          (let s1 = add_dropped (events_in body) (s\<lparr>ing_dir := d\<rparr>) in
           s1\<lparr>ing_m := (ing_m s1)\<lparr>m_spoolQuarantined := m_spoolQuarantined (ing_m s1) + 1\<rparr>\<rparr>))"

text \<open>One file: whether the sweep goes on, and the state.\<close>

definition replay_file ::
  "(string \<Rightarrow> bool) \<Rightarrow> config \<Rightarrow> replay_env \<Rightarrow> string \<Rightarrow> ingester \<Rightarrow> bool \<times> ingester" where
  "replay_file sendable cfg e name s =
     (case (if re_read e then map_of (ing_dir s) name else None) of
        Some (Plain body) \<Rightarrow>
          (case insertOnce sendable cfg (re_attempt e) body (ing_m s) of
             (_, Some err, m) \<Rightarrow>
               (let s1 = s\<lparr>ing_m := m\<rparr> in
                case err of
                  ChStatusError code _ \<Rightarrow>
                    if code = 400 then (True, quarantine (re_rename e) name body s1) else (False, s1)
                | TransportError \<Rightarrow> (False, s1))
           | (_, None, m) \<Rightarrow>
               (let s1 = add_inserted (events_in body) (s\<lparr>ing_m := m\<rparr>) in
                case dir_remove (re_remove e) name (ing_dir s1) of
                  (True, d) \<Rightarrow> (True, s1\<lparr>ing_dir := d\<rparr>)
                | (False, d) \<Rightarrow>
                    (case dir_rename (re_rename e) name (name @ ''.delivered'') d of
                       (True, d') \<Rightarrow> (True, s1\<lparr>ing_dir := d'\<rparr>)
                     | (False, d') \<Rightarrow> (False, s1))))
      | _ \<Rightarrow> (True, s))"

fun replay_files ::
  "(string \<Rightarrow> bool) \<Rightarrow> config \<Rightarrow> (nat \<Rightarrow> replay_env) \<Rightarrow> nat \<Rightarrow> string list \<Rightarrow> ingester \<Rightarrow> ingester" where
  "replay_files sendable cfg env k [] s = s"
| "replay_files sendable cfg env k (name # names) s =
     (if re_stop (env k) then s
      else case replay_file sendable cfg (env k) name s of
        (False, s') \<Rightarrow> s'
      | (True, s') \<Rightarrow> replay_files sendable cfg env (Suc k) names s')"

definition replayOnce ::
  "(string \<Rightarrow> bool) \<Rightarrow> config \<Rightarrow> bool \<Rightarrow> (nat \<Rightarrow> replay_env) \<Rightarrow> bool \<Rightarrow> (string \<Rightarrow> bool) \<Rightarrow>
   ingester \<Rightarrow> ingester" where
  "replayOnce sendable cfg listed env listed' stat s =
     updateSpoolGauge listed' stat
       (replay_files sendable cfg env 0 (spoolFilesList listed (ing_dir s)) s)"

section \<open>start\<close>

text \<open>The preparation of the spool before the worker starts; \<open>made\<close> is whether
  \<open>os.MkdirAll\<close> succeeded. The result says whether the replay loop is started.\<close>

definition start ::
  "config \<Rightarrow> bool \<Rightarrow> bool \<Rightarrow> (string \<Rightarrow> bool) \<Rightarrow> bool \<Rightarrow> bool \<Rightarrow> (string \<Rightarrow> bool) \<Rightarrow>
   ingester \<Rightarrow> bool \<times> ingester" where
  "start cfg made listed removable listed' listed'' stat s =
     (if spoolDir cfg \<noteq> [] \<and> made
      then (True, updateSpoolGauge listed'' stat (resumeSpoolSeq listed' (cleanupTmp listed removable s)))
      else (False, s))"

end
