(* ===== verification/SpoolFacts.thy ===== *)
theory SpoolFacts
  imports Spool
begin

text \<open>
  What the spool guarantees: names and numbers are inverse, the files come back first in
  first out, a new batch never overwrites a file, the caps hold, and every event of a file
  is delivered, counted as lost or still there.
\<close>

section \<open>Names\<close>

lemma cut_append_Some: "cut c s = Some (a, b) \<Longrightarrow> cut c (s @ t) = Some (a, b @ t)"
  by (induction s arbitrary: a) (auto split: if_splits)

lemma itoa_no_dash: "0 \<le> pid \<Longrightarrow> CHR ''-'' \<notin> set (itoa pid)"
  using decimal_no_sep [OF decimal_dec, of pid "CHR ''-''"] by (simp add: itoa_def digit_def)

lemma parse_spoolFileName:
  assumes "0 \<le> pid" "0 \<le> seq" "seq < 2 ^ 64"
  shows "parseSpoolSeq (spoolFileName pid seq @ ext) = Some seq"
proof -
  have "cut CHR ''.'' (pad_zeros 12 seq @ CHR ''.'' # ''ndjson'' @ ext) = Some (pad_zeros 12 seq, ''ndjson'' @ ext)"
    by (rule cut_append, rule decimal_no_sep [OF decimal_pad_zeros]) (use assms in \<open>simp_all add: digit_def\<close>)
  moreover have "cut CHR ''-'' (itoa pid @ CHR ''-'' # pad_zeros 12 seq @ CHR ''.'' # ''ndjson'' @ ext) =
      Some (itoa pid, pad_zeros 12 seq @ CHR ''.'' # ''ndjson'' @ ext)"
    by (rule cut_append) (rule itoa_no_dash [OF assms(1)])
  ultimately show ?thesis
    using assms by (simp add: parseSpoolSeq_def spoolFileName_def parse_uint64_pad_zeros)
qed

lemma replayable_spoolFileName [simp]: "replayable (spoolFileName pid seq)"
  by (simp add: replayable_def spoolFileName_def suffix_def)

lemma not_replayable_append:
  "ext \<in> {''.tmp'', ''.bad'', ''.delivered''} \<Longrightarrow> \<not> replayable (n @ ext)"
  by (auto simp: replayable_def suffix_to_prefix)

text \<open>A replayable name keeps its number under the suffixes the spool appends.\<close>

lemma replayable_cut:
  assumes "replayable n" "cut CHR ''-'' n = Some (a, b)"
  shows "CHR ''.'' \<in> set b"
proof -
  obtain u where u: "n = u @ ''.ndjson''" using assms(1) by (auto simp: replayable_def suffix_def)
  have n: "n = a @ CHR ''-'' # b" using cut_Some [OF assms(2)] by simp
  have "suffix ''.ndjson'' b"
  proof -
    have "suffix ''.ndjson'' n" using u by (auto simp: suffix_def)
    moreover have "\<not> suffix (CHR ''-'' # b) ''.ndjson''" by (auto dest!: set_mono_suffix)
    moreover have "suffix (CHR ''-'' # b) n" using n by (auto simp: suffix_def)
    ultimately have "suffix ''.ndjson'' (CHR ''-'' # b)" using suffix_same_cases by blast
    then show ?thesis by (simp add: suffix_Cons)
  qed
  then show ?thesis by (auto dest!: set_mono_suffix)
qed

lemma parse_append:
  assumes "replayable n" "CHR ''-'' \<notin> set ext"
  shows "parseSpoolSeq (n @ ext) = parseSpoolSeq n"
proof (cases "cut CHR ''-'' n")
  case None
  then have "cut CHR ''-'' (n @ ext) = None" using assms(2) by (simp add: cut_None)
  then show ?thesis using None by (simp add: parseSpoolSeq_def)
next
  case (Some p)
  obtain a b where p: "p = (a, b)" by (cases p)
  then have "CHR ''.'' \<in> set b" using replayable_cut assms(1) Some by blast
  then obtain d r where "cut CHR ''.'' b = Some (d, r)" using cut_None by (metis not_Some_eq prod.exhaust)
  then show ?thesis
    using cut_append_Some [of "CHR ''-''" n a b ext] Some p cut_append_Some [of "CHR ''.''" b d r ext]
    by (simp add: parseSpoolSeq_def)
qed

section \<open>The order of a sweep\<close>

interpretation spool_order: comparator spool_before
proof
  fix x y z :: string
  show "\<not> spool_before x x" by (auto simp: spool_before_def split: option.split)
  show "spool_before x y \<Longrightarrow> spool_before y z \<Longrightarrow> spool_before x z"
    by (auto simp: spool_before_def split: option.splits if_splits)
  show "x \<noteq> y \<Longrightarrow> spool_before x y \<or> spool_before y x"
    by (auto simp: spool_before_def split: option.split)
qed

lemma distinct_plain_names: "dir_ok d \<Longrightarrow> distinct (plain_names d)"
  by (auto simp: dir_ok_def plain_names_def distinct_map intro: inj_on_subset)

lemma plain_names_map_of: "dir_ok d \<Longrightarrow> n \<in> set (plain_names d) \<longleftrightarrow> (\<exists>b. map_of d n = Some (Plain b))"
  unfolding dir_ok_def plain_names_def
  by (auto simp: map_of_eq_Some_iff image_iff) (metis entry.exhaust)

text \<open>C33: The sweep visits every replayable file once, in the order of the numbers in their
  names, files without a number last, whatever order the directory is read in.\<close>

theorem spoolFilesList_fifo:
  assumes "dir_ok d"
  shows "let names = spoolFilesList True d in
    distinct names \<and> set names = {n. replayable n \<and> (\<exists>b. map_of d n = Some (Plain b))} \<and>
    (\<forall>i j. i < j \<and> j < length names \<longrightarrow>
      (case (parseSpoolSeq (names ! i), parseSpoolSeq (names ! j)) of
         (Some a, Some b) \<Rightarrow> a \<le> b | (None, Some b) \<Rightarrow> False | _ \<Rightarrow> True)) \<and>
    (\<forall>d'. mset d' = mset d \<longrightarrow> spoolFilesList True d' = names)"
proof -
  let ?ns = "filter replayable (plain_names d)"
  let ?names = "isort spool_before ?ns"
  have dist: "distinct ?ns" using distinct_plain_names [OF assms] by simp
  have sorted: "sorted_wrt spool_before ?names" by (rule spool_order.sorted_isort [OF dist])
  have "case (parseSpoolSeq (?names ! i), parseSpoolSeq (?names ! j)) of
      (Some a, Some b) \<Rightarrow> a \<le> b | (None, Some b) \<Rightarrow> False | _ \<Rightarrow> True" if "i < j" "j < length ?names" for i j
    using sorted_wrt_nth_less [OF sorted that] by (auto simp: spool_before_def split: option.splits if_splits)
  moreover have "isort spool_before (filter replayable (plain_names d')) = ?names" if "mset d' = mset d" for d'
  proof -
    have m: "mset (filter replayable (plain_names d')) = mset ?ns"
      using that by (simp add: plain_names_def mset_filter)
    then have "distinct (filter replayable (plain_names d'))" using dist mset_eq_imp_distinct_iff by blast
    then show ?thesis using m sorted by (intro spool_order.isort_unique) simp_all
  qed
  moreover have "set ?names = {n. replayable n \<and> (\<exists>b. map_of d n = Some (Plain b))}"
    using plain_names_map_of [OF assms] by auto
  moreover have "distinct ?names" using dist by simp
  ultimately show ?thesis unfolding spoolFilesList_def Let_def if_True by blast
qed

section \<open>The directory as a map with a weight\<close>

lemma map_of_dir_del [spool_simps]: "map_of (dir_del n d) m = (if m = n then None else map_of d m)"
  by (induction d) (auto simp: dir_del_def)

lemma map_of_dir_put [spool_simps]: "map_of (dir_put n b d) m = (if m = n then Some (Plain b) else map_of d m)"
  by (simp add: dir_put_def map_of_dir_del)

lemma dir_ok_del [spool_simps]: "dir_ok d \<Longrightarrow> dir_ok (dir_del n d)"
  by (auto simp: dir_ok_def dir_del_def distinct_map intro: inj_on_subset)

lemma dir_ok_put [spool_simps]: "dir_ok d \<Longrightarrow> dir_ok (dir_put n b d)"
  using dir_ok_del [of d n] by (auto simp: dir_ok_def dir_put_def dir_del_def)

definition dir_sum :: "(string \<Rightarrow> entry \<Rightarrow> int) \<Rightarrow> dir \<Rightarrow> int" where
  "dir_sum f d = sum_list (map (\<lambda>(n, e). f n e) d)"

definition at_name :: "(string \<Rightarrow> entry \<Rightarrow> int) \<Rightarrow> dir \<Rightarrow> string \<Rightarrow> int" where
  "at_name f d n = (case map_of d n of None \<Rightarrow> 0 | Some e \<Rightarrow> f n e)"

lemma dir_sum_del [spool_simps]: "dir_ok d \<Longrightarrow> dir_sum f (dir_del n d) = dir_sum f d - at_name f d n"
proof (induction d)
  case (Cons x d)
  obtain k e where x: "x = (k, e)" by (cases x)
  have "n \<notin> fst ` set d \<Longrightarrow> dir_del n d = d" by (induction d) (auto simp: dir_del_def)
  moreover have "at_name f d n = 0" if "n \<notin> fst ` set d"
  proof -
    have "map_of d n = None" using that by (simp add: map_of_eq_None_iff)
    then show ?thesis by (simp add: at_name_def)
  qed
  ultimately show ?case
    using Cons x by (auto simp: dir_sum_def dir_del_def at_name_def dir_ok_def split: option.splits)
qed (simp add: dir_sum_def dir_del_def at_name_def)

lemma dir_sum_put [spool_simps]:
  "dir_ok d \<Longrightarrow> dir_sum f (dir_put n b d) = dir_sum f d - at_name f d n + f n (Plain b)"
  using dir_sum_del [of d f n] by (simp add: dir_put_def dir_sum_def)

lemma at_name_put [spool_simps]: "at_name f (dir_put n b d) m = (if m = n then f n (Plain b) else at_name f d m)"
  by (simp add: at_name_def spool_simps)

lemma at_name_del [spool_simps]: "at_name f (dir_del n d) m = (if m = n then 0 else at_name f d m)"
  by (simp add: at_name_def spool_simps)

definition file_weight :: "string \<Rightarrow> entry \<Rightarrow> int" where
  "file_weight n e = (if replayable n \<and> e \<noteq> Folder then 1 else 0)"

definition event_weight :: "string \<Rightarrow> entry \<Rightarrow> int" where
  "event_weight n e = (case e of Plain b \<Rightarrow> if replayable n then events_in b else 0 | Folder \<Rightarrow> 0)"

lemma spool_files_sum: "spool_files d = dir_sum file_weight d"
  by (induction d) (auto simp: spool_files_def dir_sum_def file_weight_def plain_names_def)

lemma spool_bytes_sum: "spool_bytes stat d = dir_sum (\<lambda>n e. if stat n then entry_size e else 0) d"
  by (simp add: spool_bytes_def dir_sum_def)

text \<open>The events that wait on disk.\<close>

definition spooled :: "dir \<Rightarrow> int" where
  "spooled d = dir_sum event_weight d"

lemma at_name_none [spool_simps]: "map_of d n = None \<Longrightarrow> at_name f d n = 0"
  by (simp add: at_name_def)

section \<open>A new file never replaces another\<close>

text \<open>Every number in the directory has been given out.\<close>

definition seqs_used :: "ingester \<Rightarrow> bool" where
  "seqs_used s \<longleftrightarrow>
     dir_ok (ing_dir s) \<and> 0 \<le> ing_spoolSeq s \<and>
     (\<forall>n b q. map_of (ing_dir s) n = Some (Plain b) \<and> parseSpoolSeq n = Some q \<longrightarrow> q \<le> ing_spoolSeq s)"

lemma max_seq_upper:
  "n \<in> set ns \<Longrightarrow> parseSpoolSeq n = Some q \<Longrightarrow> q \<le> max_seq ns"
proof -
  define f where "f = (\<lambda>n (acc :: int). case parseSpoolSeq n of Some q \<Rightarrow> if acc < q then q else acc | None \<Rightarrow> acc)"
  have mono: "acc \<le> fold f ns acc" for ns acc
    by (induction ns arbitrary: acc) (auto simp: f_def split: option.splits intro: order_trans less_imp_le)
  have "n \<in> set ns \<Longrightarrow> parseSpoolSeq n = Some q \<Longrightarrow> q \<le> fold f ns acc" for acc
  proof (induction ns arbitrary: acc)
    case (Cons k ns)
    show ?case
    proof (cases "n = k")
      case True
      then have "q \<le> f k acc" using Cons.prems(2) by (simp add: f_def)
      then show ?thesis using mono [of "f k acc" ns] by simp
    next
      case False
      then show ?thesis using Cons by simp
    qed
  qed simp
  then show "n \<in> set ns \<Longrightarrow> parseSpoolSeq n = Some q \<Longrightarrow> q \<le> max_seq ns"
    by (simp add: max_seq_def f_def [abs_def])
qed

lemma resume_seqs_used:
  assumes "dir_ok (ing_dir s)" "0 \<le> ing_spoolSeq s"
  shows "seqs_used (resumeSpoolSeq True s)"
proof -
  have "q \<le> max_seq (plain_names (ing_dir s))" if "map_of (ing_dir s) n = Some (Plain b)" "parseSpoolSeq n = Some q" for n b q
    using max_seq_upper [OF _ that(2)] plain_names_map_of [OF assms(1)] that(1) by blast
  moreover have "ing_dir (resumeSpoolSeq True s) = ing_dir s"
    "ing_spoolSeq (resumeSpoolSeq True s) = max (ing_spoolSeq s) (max_seq (plain_names (ing_dir s)))"
    by (simp_all add: resumeSpoolSeq_def Let_def)
  ultimately show ?thesis unfolding seqs_used_def using assms by (metis le_max_iff_disj)
qed

text \<open>What \<open>spool\<close> can do to the directory: nothing, or a new file under a name not in use,
  possibly with the temporary file left behind.\<close>

lemma dir_rename_result:
  "dir_rename ok src dst d = (True, d') \<longleftrightarrow>
     (\<exists>b. map_of d src = Some (Plain b) \<and> ok \<and> map_of d dst \<noteq> Some Folder \<and> d' = dir_put dst b (dir_del src d))"
  "dir_rename ok src dst d = (False, d') \<longleftrightarrow>
     d' = d \<and> \<not> (\<exists>b. map_of d src = Some (Plain b) \<and> ok \<and> map_of d dst \<noteq> Some Folder)"
  by (auto simp: dir_rename_def split: option.splits entry.splits if_splits)

lemma dir_remove_result:
  "dir_remove ok n d = (True, d') \<longleftrightarrow> ok \<and> map_of d n \<noteq> None \<and> d' = dir_del n d"
  "dir_remove ok n d = (False, d') \<longleftrightarrow> \<not> (ok \<and> map_of d n \<noteq> None) \<and> d' = d"
  by (auto simp: dir_remove_def)

lemma seq_name_free:
  assumes "seqs_used s" "0 \<le> pid" "ing_spoolSeq s < q" "q < 2 ^ 64"
  shows "map_of (ing_dir s) (spoolFileName pid q @ ext) \<in> {None, Some Folder}"
proof -
  have "parseSpoolSeq (spoolFileName pid q @ ext) = Some q"
    using assms by (intro parse_spoolFileName) (auto simp: seqs_used_def)
  then have "map_of (ing_dir s) (spoolFileName pid q @ ext) \<noteq> Some (Plain b)" for b
    using assms(1,3) unfolding seqs_used_def by (meson leD)
  then show ?thesis by (cases "map_of (ing_dir s) (spoolFileName pid q @ ext)") (auto, metis entry.exhaust)
qed

text \<open>A directory that differs in one name, and its weights with it.\<close>

definition only_changes :: "string \<Rightarrow> dir \<Rightarrow> dir \<Rightarrow> bool" where
  "only_changes n d d' \<longleftrightarrow>
     dir_ok d' \<and> (\<forall>m. m \<noteq> n \<longrightarrow> map_of d' m = map_of d m) \<and>
     (\<forall>f. dir_sum f d' = dir_sum f d - at_name f d n + at_name f d' n)"

lemma only_changes_refl [spool_simps]: "dir_ok d \<Longrightarrow> only_changes n d d"
  by (simp add: only_changes_def)

lemma only_changes_put [spool_simps]: "dir_ok d \<Longrightarrow> only_changes n d (dir_put n b d)"
  by (simp add: only_changes_def spool_simps)

lemma only_changes_del [spool_simps]: "dir_ok d \<Longrightarrow> only_changes n d (dir_del n d)"
  by (simp add: only_changes_def spool_simps)

lemma only_changes_trans: "only_changes n d d1 \<Longrightarrow> only_changes n d1 d2 \<Longrightarrow> only_changes n d d2"
  by (simp add: only_changes_def)

lemma only_changes_ok: "only_changes n d d' \<Longrightarrow> dir_ok d'"
  by (simp add: only_changes_def)

lemma only_changes_remove: "dir_ok d \<Longrightarrow> only_changes n d (snd (dir_remove ok n d))"
  by (simp add: dir_remove_def spool_simps)

lemma writeFileSync_changes: "dir_ok d \<Longrightarrow> only_changes n d (snd (writeFileSync w n b d))"
  by (cases w) (simp_all add: spool_simps)

lemma writeFileSync_written: "writeFileSync w n b d = (True, d') \<Longrightarrow> d' = dir_put n b d"
  by (cases w) (auto split: if_splits)

text \<open>The two ways \<open>spool\<close> ends: the batch is counted as lost, or it is a file of its own.\<close>

definition spool_lost :: "int \<Rightarrow> int \<Rightarrow> ingester \<Rightarrow> ingester \<Rightarrow> bool" where
  "spool_lost pid n s s' \<longleftrightarrow>
     (\<exists>q d. s' = add_dropped n (s\<lparr>ing_spoolSeq := q, ing_dir := d\<rparr>) \<and>
       (q = ing_spoolSeq s \<and> d = ing_dir s \<or>
        q = next_seq (ing_spoolSeq s) \<and> only_changes (spoolFileName pid q @ ''.tmp'') (ing_dir s) d))"

definition spool_kept :: "config \<Rightarrow> int \<Rightarrow> spool_os \<Rightarrow> string \<Rightarrow> ingester \<Rightarrow> ingester \<Rightarrow> bool" where
  "spool_kept cfg pid os body s s' \<longleftrightarrow>
     (\<exists>q name d1 d.
       q = next_seq (ing_spoolSeq s) \<and> name = spoolFileName pid q \<and>
       s' = updateSpoolGauge (os_listed os) (os_stat os) (s\<lparr>ing_spoolSeq := q, ing_dir := d\<rparr>) \<and>
       only_changes (name @ ''.tmp'') (ing_dir s) d1 \<and> only_changes name d1 d \<and>
       map_of d name = Some (Plain body) \<and> map_of d (name @ ''.tmp'') = None \<and>
       spoolDir cfg \<noteq> [] \<and> m_spoolFiles (ing_m s) < spoolMaxFiles cfg \<and>
       (0 < spoolMaxBytes cfg \<longrightarrow> m_spoolBytes (ing_m s) + int (length body) \<le> spoolMaxBytes cfg))"

lemma spool_ends:
  assumes "dir_ok (ing_dir s)"
  shows "spool_lost pid n s (spool cfg pid os body n s) \<or> spool_kept cfg pid os body s (spool cfg pid os body n s)"
proof -
  define q where "q = next_seq (ing_spoolSeq s)"
  define name where "name = spoolFileName pid q"
  define tmp where "tmp = name @ ''.tmp''"
  obtain ok d where w: "writeFileSync (os_write os) tmp body (ing_dir s) = (ok, d)"
    by (cases "writeFileSync (os_write os) tmp body (ing_dir s)")
  obtain ok' d' where r: "dir_rename (os_rename os) tmp name d = (ok', d')"
    by (cases "dir_rename (os_rename os) tmp name d")
  have ch: "only_changes tmp (ing_dir s) d" using writeFileSync_changes [OF assms, of tmp] w by (metis snd_conv)
  have "spool_lost pid n s (add_dropped n s)"
    unfolding spool_lost_def by (intro exI [of _ "ing_spoolSeq s"] exI [of _ "ing_dir s"]) simp
  moreover have "spool_lost pid n s (add_dropped n (s\<lparr>ing_spoolSeq := q, ing_dir := snd (dir_remove (os_remove os) tmp d)\<rparr>))"
    unfolding spool_lost_def
    using only_changes_trans [OF ch only_changes_remove [OF only_changes_ok [OF ch]]]
    by (intro exI [of _ q] exI [of _ "snd (dir_remove (os_remove os) tmp d)"]) (simp add: q_def name_def tmp_def)
  moreover have "spool_kept cfg pid os body s
      (updateSpoolGauge (os_listed os) (os_stat os) (s\<lparr>ing_spoolSeq := q, ing_dir := d'\<rparr>))"
    if "ok" "ok'" "spoolDir cfg \<noteq> []" "m_spoolFiles (ing_m s) < spoolMaxFiles cfg"
      "0 < spoolMaxBytes cfg \<longrightarrow> m_spoolBytes (ing_m s) + int (length body) \<le> spoolMaxBytes cfg"
  proof -
    have d: "d = dir_put tmp body (ing_dir s)" using writeFileSync_written w that(1) by simp
    then have "d' = dir_put name body (dir_del tmp d)"
      using r that(2) by (auto simp: dir_rename_result spool_simps)
    moreover have "only_changes tmp (ing_dir s) (dir_del tmp d)"
      using ch by (metis only_changes_del only_changes_ok only_changes_trans)
    moreover have "name \<noteq> tmp" by (simp add: tmp_def)
    ultimately have "only_changes tmp (ing_dir s) (dir_del tmp d) \<and> only_changes name (dir_del tmp d) d' \<and>
        map_of d' name = Some (Plain body) \<and> map_of d' tmp = None"
      using only_changes_ok by (auto simp: spool_simps)
    then show ?thesis
      unfolding spool_kept_def using that(3-5) q_def name_def tmp_def by blast
  qed
  moreover have "\<not> ok' \<Longrightarrow> d' = d" using r by (cases ok') (auto simp: dir_rename_result)
  ultimately show ?thesis
    by (auto simp: spool_def Let_def q_def [symmetric] name_def [symmetric] tmp_def [symmetric] w r
        split: bool.split)
qed

lemma seqs_used_changes:
  assumes "seqs_used s" "only_changes (spoolFileName pid q @ ext) (ing_dir s) d" "0 \<le> pid"
    "ing_spoolSeq s \<le> q" "q < 2 ^ 64"
  shows "seqs_used (s\<lparr>ing_spoolSeq := q, ing_dir := d\<rparr>)"
proof -
  let ?n = "spoolFileName pid q @ ext"
  have q: "0 \<le> q" using assms by (simp add: seqs_used_def)
  have "p \<le> q" if "map_of d n = Some (Plain b)" "parseSpoolSeq n = Some p" for n b p
  proof (cases "n = ?n")
    case True
    then show ?thesis using that(2) parse_spoolFileName [OF assms(3) q assms(5)] by simp
  next
    case False
    then have "map_of (ing_dir s) n = Some (Plain b)" using assms(2) that(1) by (simp add: only_changes_def)
    then have "p \<le> ing_spoolSeq s" using assms(1) that(2) unfolding seqs_used_def by blast
    then show ?thesis using assms(4) by simp
  qed
  then show ?thesis using q only_changes_ok [OF assms(2)] by (auto simp: seqs_used_def)
qed

lemma seqs_used_simps [simp]:
  "seqs_used (add_dropped n s) = seqs_used s" "seqs_used (add_inserted n s) = seqs_used s"
  "seqs_used (updateSpoolGauge listed stat s) = seqs_used s" "seqs_used (s\<lparr>ing_m := m\<rparr>) = seqs_used s"
  by (simp_all add: seqs_used_def add_dropped_def add_inserted_def updateSpoolGauge_def)

lemma ing_dir_simps [simp]:
  "ing_dir (add_dropped n s) = ing_dir s" "ing_dir (add_inserted n s) = ing_dir s"
  "ing_dir (updateSpoolGauge listed stat s) = ing_dir s"
  by (simp_all add: add_dropped_def add_inserted_def updateSpoolGauge_def)

lemma dropped_simps [simp]:
  "m_dropped (ing_m (add_dropped n s)) = m_dropped (ing_m s) + n"
  "m_dropped (ing_m (add_inserted n s)) = m_dropped (ing_m s)"
  "m_dropped (ing_m (updateSpoolGauge listed stat s)) = m_dropped (ing_m s)"
  "m_inserted (ing_m (add_dropped n s)) = m_inserted (ing_m s)"
  "m_inserted (ing_m (add_inserted n s)) = m_inserted (ing_m s) + n"
  "m_inserted (ing_m (updateSpoolGauge listed stat s)) = m_inserted (ing_m s)"
  by (simp_all add: add_dropped_def add_inserted_def updateSpoolGauge_def)

lemma next_seq_small: "0 \<le> q \<Longrightarrow> q < 2 ^ 64 - 1 \<Longrightarrow> next_seq q = q + 1"
  by (simp add: next_seq_def)

lemma files_survive:
  assumes "seqs_used s" "0 \<le> pid" "ing_spoolSeq s < q" "q < 2 ^ 64"
    "only_changes (spoolFileName pid q @ ext) (ing_dir s) d" "map_of (ing_dir s) n = Some (Plain b)"
  shows "map_of d n = Some (Plain b)"
  using assms seq_name_free [OF assms(1-4), of ext] by (cases "n = spoolFileName pid q @ ext") (auto simp: only_changes_def)

lemma spool_keeps_seqs:
  assumes "seqs_used s" "0 \<le> pid" "ing_spoolSeq s < 2 ^ 64 - 1"
  shows "seqs_used (spool cfg pid os body n s)"
proof -
  have q: "next_seq (ing_spoolSeq s) = ing_spoolSeq s + 1"
    using assms(1,3) by (intro next_seq_small) (auto simp: seqs_used_def)
  have ok: "dir_ok (ing_dir s)" using assms(1) by (simp add: seqs_used_def)
  from spool_ends [OF ok, of pid n cfg os body] show ?thesis
  proof
    assume "spool_lost pid n s (spool cfg pid os body n s)"
    then show ?thesis
      using assms q seqs_used_changes [OF assms(1) _ assms(2)] unfolding spool_lost_def by fastforce
  next
    assume "spool_kept cfg pid os body s (spool cfg pid os body n s)"
    then obtain name d1 d where k: "name = spoolFileName pid (ing_spoolSeq s + 1)"
      "spool cfg pid os body n s = updateSpoolGauge (os_listed os) (os_stat os) (s\<lparr>ing_spoolSeq := ing_spoolSeq s + 1, ing_dir := d\<rparr>)"
      "only_changes (name @ ''.tmp'') (ing_dir s) d1" "only_changes name d1 d"
      unfolding spool_kept_def q by blast
    have "seqs_used (s\<lparr>ing_spoolSeq := ing_spoolSeq s + 1, ing_dir := d1\<rparr>)"
      using seqs_used_changes [OF assms(1) k(3) [unfolded k(1)] assms(2)] assms(3) by simp
    from seqs_used_changes [OF this, of pid "ing_spoolSeq s + 1" "[]" d] show ?thesis
      using k assms(2,3) by simp
  qed
qed

text \<open>C10: Once the counter has been resumed from the directory, spooling a batch never touches a
  file that is already there, whatever fails on the way; either the batch is a replayable
  file of its own under a name not used before, or all its events are counted as dropped.
  The counter stays ahead of every file, so this holds for the next batch as well.\<close>

theorem spool_never_overwrites:
  assumes "seqs_used s" "0 \<le> pid" "ing_spoolSeq s < 2 ^ 64 - 1"
  shows "let s' = spool cfg pid os body n s in
    seqs_used s' \<and>
    (\<forall>m b. map_of (ing_dir s) m = Some (Plain b) \<longrightarrow> map_of (ing_dir s') m = Some (Plain b)) \<and>
    (m_dropped (ing_m s') = m_dropped (ing_m s) + n \<or>
     m_dropped (ing_m s') = m_dropped (ing_m s) \<and>
     (\<exists>name. replayable name \<and> (\<forall>b. map_of (ing_dir s) name \<noteq> Some (Plain b)) \<and>
       map_of (ing_dir s') name = Some (Plain body)))"
proof -
  let ?s' = "spool cfg pid os body n s" and ?q = "ing_spoolSeq s + 1"
  have q: "next_seq (ing_spoolSeq s) = ?q"
    using assms(1,3) by (intro next_seq_small) (auto simp: seqs_used_def)
  have ok: "dir_ok (ing_dir s)" using assms(1) by (simp add: seqs_used_def)
  note survive = files_survive [OF assms(1,2), of ?q]
  from spool_ends [OF ok, of pid n cfg os body]
  have "(\<forall>m b. map_of (ing_dir s) m = Some (Plain b) \<longrightarrow> map_of (ing_dir ?s') m = Some (Plain b)) \<and>
    (m_dropped (ing_m ?s') = m_dropped (ing_m s) + n \<or>
     m_dropped (ing_m ?s') = m_dropped (ing_m s) \<and>
     (\<exists>name. replayable name \<and> (\<forall>b. map_of (ing_dir s) name \<noteq> Some (Plain b)) \<and>
       map_of (ing_dir ?s') name = Some (Plain body)))"
  proof
    assume "spool_lost pid n s ?s'"
    then show ?thesis using survive assms(3) unfolding spool_lost_def q by auto
  next
    assume "spool_kept cfg pid os body s ?s'"
    then obtain name d1 d where k: "name = spoolFileName pid ?q"
      "?s' = updateSpoolGauge (os_listed os) (os_stat os) (s\<lparr>ing_spoolSeq := ?q, ing_dir := d\<rparr>)"
      "only_changes (name @ ''.tmp'') (ing_dir s) d1" "only_changes name d1 d" "map_of d name = Some (Plain body)"
      unfolding spool_kept_def q by blast
    have free: "map_of (ing_dir s) name \<in> {None, Some Folder}"
      using seq_name_free [OF assms(1,2), of ?q "[]"] assms(3) k(1) by simp
    have "map_of d m = Some (Plain b)" if "map_of (ing_dir s) m = Some (Plain b)" for m b
    proof -
      have "map_of d1 m = Some (Plain b)" using survive [OF _ _ k(3) [unfolded k(1)] that] assms(3) by simp
      moreover have "m \<noteq> name" using free that by auto
      ultimately show ?thesis using k(4) by (simp add: only_changes_def)
    qed
    moreover have "replayable name \<and> (\<forall>b. map_of (ing_dir s) name \<noteq> Some (Plain b)) \<and>
        map_of (ing_dir ?s') name = Some (Plain body)"
      using k free by auto
    moreover have "m_dropped (ing_m ?s') = m_dropped (ing_m s)" "ing_dir ?s' = d" using k(2) by simp_all
    ultimately show ?thesis by auto
  qed
  then show ?thesis using spool_keeps_seqs [OF assms] by (simp add: Let_def)
qed

text \<open>A file whose name carries the number 2^64 - 1 leaves the counter no room: it wraps to 0
  and the next batch takes the name of number 0, replacing whatever undelivered batch that
  file held.\<close>

theorem spool_seq_wraps:
  assumes "dir_ok d" "0 \<le> pid" "map_of d (itoa pid @ ''-18446744073709551615.ndjson'') = Some (Plain b)"
    "map_of d (spoolFileName pid 0) = Some (Plain old)"
    "map_of d (spoolFileName pid 0 @ ''.tmp'') \<noteq> Some Folder"
    "spoolDir cfg \<noteq> []" "m_spoolFiles m < spoolMaxFiles cfg" "spoolMaxBytes cfg = 0"
    "os_write os = Written" "os_rename os"
  shows "map_of (ing_dir (spool cfg pid os body n (resumeSpoolSeq True (newIngester d m)))) (spoolFileName pid 0) =
    Some (Plain body)"
proof -
  have p: "parseSpoolSeq (itoa pid @ ''-18446744073709551615.ndjson'') = Some (2 ^ 64 - 1)"
  proof -
    have "cut CHR ''-'' (itoa pid @ CHR ''-'' # ''18446744073709551615.ndjson'') =
        Some (itoa pid, ''18446744073709551615.ndjson'')"
      by (rule cut_append) (rule itoa_no_dash [OF assms(2)])
    then show ?thesis
      by (simp add: parseSpoolSeq_def parse_uint64_def decimal_def digit_def digits_value_def)
  qed
  have upper: "max_seq ns \<le> 2 ^ 64 - 1" for ns
  proof -
    have "acc \<le> 2 ^ 64 - 1 \<Longrightarrow>
      fold (\<lambda>n acc. case parseSpoolSeq n of Some q \<Rightarrow> if acc < q then q else acc | None \<Rightarrow> acc) ns acc \<le> 2 ^ 64 - 1" for acc
    proof (induction ns arbitrary: acc)
      case (Cons k ns)
      have "q < 2 ^ 64" if "parseSpoolSeq k = Some q" for q
        using that parse_uint64_bound by (fastforce simp: parseSpoolSeq_def split: option.splits prod.splits)
      then show ?case using Cons by (force split: option.split)
    qed simp
    then show ?thesis by (simp add: max_seq_def)
  qed
  have "2 ^ 64 - 1 \<le> max_seq (plain_names d)"
    using max_seq_upper [OF _ p] plain_names_map_of [OF assms(1)] assms(3) by blast
  then have "max_seq (plain_names d) = 2 ^ 64 - 1" using upper [of "plain_names d"] by linarith
  then have r: "resumeSpoolSeq True (newIngester d m) = (newIngester d m)\<lparr>ing_spoolSeq := 2 ^ 64 - 1\<rparr>"
    by (simp add: resumeSpoolSeq_def newIngester_def)
  have "next_seq (2 ^ 64 - 1) = 0" by (simp add: next_seq_def)
  then show ?thesis
    unfolding r using assms
    by (simp add: spool_def newIngester_def Let_def dir_rename_def spool_simps split: option.split)
qed

section \<open>The caps\<close>

definition gauge_accurate :: "ingester \<Rightarrow> bool" where
  "gauge_accurate s \<longleftrightarrow>
     m_spoolFiles (ing_m s) = spool_files (ing_dir s) \<and>
     m_spoolBytes (ing_m s) = spool_bytes (\<lambda>_. True) (ing_dir s)"

lemma entry_size_nonneg: "0 \<le> entry_size e"
  by (cases e) simp_all

text \<open>C35: With gauges that match the directory, a successful write keeps the number of replayable
  files within SPOOL_MAX_FILES and the bytes of all files within SPOOL_MAX_BYTES, and leaves
  the gauges accurate.\<close>

theorem spool_respects_caps:
  assumes "gauge_accurate s" "dir_ok (ing_dir s)" "os_listed os" "os_stat os = (\<lambda>_. True)"
    "m_dropped (ing_m (spool cfg pid os body n s)) = m_dropped (ing_m s)" "0 < n"
  shows "let s' = spool cfg pid os body n s in
    gauge_accurate s' \<and> spool_files (ing_dir s') \<le> spoolMaxFiles cfg \<and>
    (0 < spoolMaxBytes cfg \<longrightarrow> spool_bytes (\<lambda>_. True) (ing_dir s') \<le> spoolMaxBytes cfg)"
proof -
  let ?s' = "spool cfg pid os body n s"
  let ?size = "\<lambda>(n :: string) e. entry_size e"
  have "\<not> spool_lost pid n s ?s'" using assms(5,6) by (auto simp: spool_lost_def)
  then obtain q name d1 d where k: "name = spoolFileName pid q"
    "?s' = updateSpoolGauge (os_listed os) (os_stat os) (s\<lparr>ing_spoolSeq := q, ing_dir := d\<rparr>)"
    "only_changes (name @ ''.tmp'') (ing_dir s) d1" "only_changes name d1 d" "map_of d name = Some (Plain body)"
    "map_of d (name @ ''.tmp'') = None" "m_spoolFiles (ing_m s) < spoolMaxFiles cfg"
    "0 < spoolMaxBytes cfg \<longrightarrow> m_spoolBytes (ing_m s) + int (length body) \<le> spoolMaxBytes cfg"
    using spool_ends [OF assms(2), of pid n cfg os body] unfolding spool_kept_def by blast
  have tmp: "map_of d1 (name @ ''.tmp'') = None" using k(4,6) by (simp add: only_changes_def)
  have sum: "dir_sum f d = dir_sum f (ing_dir s) - at_name f (ing_dir s) (name @ ''.tmp'') - at_name f d1 name + f name (Plain body)"
    for f using k(3-5) tmp by (simp add: only_changes_def at_name_def)
  have pos: "0 \<le> at_name f e m" if "\<And>k v. 0 \<le> f k v" for f e m
    using that by (simp add: at_name_def split: option.split)
  have "0 \<le> at_name file_weight e m" for e m by (rule pos) (simp add: file_weight_def)
  then have "spool_files d \<le> spool_files (ing_dir s) + 1"
    using sum [of file_weight] by (simp add: spool_files_sum file_weight_def k(1)) (smt (verit))
  moreover have "0 \<le> at_name ?size e m" for e m by (rule pos) (simp add: entry_size_nonneg)
  then have "spool_bytes (\<lambda>_. True) d \<le> spool_bytes (\<lambda>_. True) (ing_dir s) + int (length body)"
    using sum [of ?size] by (simp add: spool_bytes_sum) (smt (verit))
  ultimately show ?thesis
    using assms(1,3,4) k(2,7,8) by (auto simp: Let_def gauge_accurate_def updateSpoolGauge_def)
qed

section \<open>Replay\<close>

text \<open>Whether the file was inserted but could neither be removed nor set aside: only then is
  it delivered and still in the queue.\<close>

definition stuck :: "(string \<Rightarrow> bool) \<Rightarrow> config \<Rightarrow> replay_env \<Rightarrow> string \<Rightarrow> ingester \<Rightarrow> bool" where
  "stuck sendable cfg e name s \<longleftrightarrow>
     attempt_error sendable cfg (re_attempt e) = None \<and> re_read e \<and> \<not> re_remove e \<and>
     \<not> (re_rename e \<and> map_of (ing_dir s) (name @ ''.delivered'') \<noteq> Some Folder)"

definition accounted :: "ingester \<Rightarrow> int" where
  "accounted s = spooled (ing_dir s) + m_inserted (ing_m s) + m_dropped (ing_m s)"

lemma rename_away_sum:
  assumes "dir_ok d" "map_of d n = Some (Plain b)" "ext \<in> {''.bad'', ''.delivered''}" "replayable n"
  shows "spooled (dir_put (n @ ext) b (dir_del n d)) = spooled d - events_in b"
proof -
  have "\<not> replayable (n @ ext)" using assms(3) not_replayable_append by blast
  moreover have "at_name event_weight d (n @ ext) = 0"
    using calculation by (auto simp: at_name_def event_weight_def split: option.split entry.split)
  ultimately show ?thesis
    using assms by (auto simp: spooled_def spool_simps event_weight_def at_name_def split: if_splits)
qed

lemma removed_sum:
  "dir_ok d \<Longrightarrow> map_of d n = Some (Plain b) \<Longrightarrow> replayable n \<Longrightarrow> spooled (dir_del n d) = spooled d - events_in b"
  by (simp add: spooled_def spool_simps at_name_def event_weight_def)

text \<open>The four things that can happen to a file of the sweep.\<close>

definition timed :: "(string \<Rightarrow> bool) \<Rightarrow> config \<Rightarrow> attempt_env \<Rightarrow> ingester \<Rightarrow> ingester" where
  "timed sendable cfg a s =
     (if sendable (insertURL cfg)
      then s\<lparr>ing_m := (ing_m s)\<lparr>m_insertDur := hist_observe (at_seconds a) (m_insertDur (ing_m s))\<rparr>\<rparr> else s)"

lemma timed_simps [simp]:
  "ing_dir (timed sendable cfg a s) = ing_dir s"
  "m_dropped (ing_m (timed sendable cfg a s)) = m_dropped (ing_m s)"
  "m_inserted (ing_m (timed sendable cfg a s)) = m_inserted (ing_m s)"
  "ing_spoolSeq (timed sendable cfg a s) = ing_spoolSeq s"
  by (simp_all add: timed_def)

lemma replay_file_unread:
  "\<not> (re_read e \<and> map_of (ing_dir s) name = Some (Plain body)) \<Longrightarrow> (\<forall>b. map_of (ing_dir s) name = Some (Plain b) \<longrightarrow> b = body) \<Longrightarrow>
   replay_file sendable cfg e name s = (True, s)"
  by (auto simp: replay_file_def split: option.split entry.split)

lemma replay_file_read:
  assumes "re_read e" "map_of (ing_dir s) name = Some (Plain body)"
  shows "replay_file sendable cfg e name s =
    (case attempt_error sendable cfg (re_attempt e) of
       Some err \<Rightarrow>
         if \<exists>msg. err = ChStatusError 400 msg
         then (True, quarantine (re_rename e) name body (timed sendable cfg (re_attempt e) s))
         else (False, timed sendable cfg (re_attempt e) s)
     | None \<Rightarrow>
         (let s1 = add_inserted (events_in body) (timed sendable cfg (re_attempt e) s) in
          if re_remove e then (True, s1\<lparr>ing_dir := dir_del name (ing_dir s)\<rparr>)
          else if re_rename e \<and> map_of (ing_dir s) (name @ ''.delivered'') \<noteq> Some Folder
          then (True, s1\<lparr>ing_dir := dir_put (name @ ''.delivered'') body (dir_del name (ing_dir s))\<rparr>)
          else (False, s1)))"
  using assms
  by (auto simp: replay_file_def insertOnce_result timed_def Let_def dir_remove_def dir_rename_def
      split: option.split insert_error.split)

lemma quarantine_result:
  assumes "map_of (ing_dir s) name = Some (Plain body)"
  shows "quarantine renamed name body s =
    (if renamed \<and> map_of (ing_dir s) (name @ ''.bad'') \<noteq> Some Folder
     then (let s1 = add_dropped (events_in body) (s\<lparr>ing_dir := dir_put (name @ ''.bad'') body (dir_del name (ing_dir s))\<rparr>) in
           s1\<lparr>ing_m := (ing_m s1)\<lparr>m_spoolQuarantined := m_spoolQuarantined (ing_m s1) + 1\<rparr>\<rparr>)
     else s)"
  using assms by (simp add: quarantine_def dir_rename_def)

lemma quarantine_accounts:
  assumes "dir_ok (ing_dir s)" "map_of (ing_dir s) name = Some (Plain body)" "replayable name"
  shows "dir_ok (ing_dir (quarantine renamed name body s)) \<and>
    accounted (quarantine renamed name body s) = accounted s"
  using assms rename_away_sum [OF assms(1,2) _ assms(3), of "''.bad''"]
  by (simp add: quarantine_result [OF assms(2)] accounted_def Let_def spool_simps)

lemma timed_accounts [simp]: "accounted (timed sendable cfg a s) = accounted s"
  by (simp add: accounted_def)

lemma replay_file_accounts:
  assumes "replay_file sendable cfg e name s = (go, s')" "dir_ok (ing_dir s)" "replayable name"
  shows "dir_ok (ing_dir s') \<and> (go \<longrightarrow> accounted s' = accounted s) \<and> accounted s \<le> accounted s' \<and>
    (\<not> stuck sendable cfg e name s \<longrightarrow> accounted s' = accounted s)"
proof (cases "re_read e \<and> (\<exists>body. map_of (ing_dir s) name = Some (Plain body))")
  case False
  then have "replay_file sendable cfg e name s = (True, s)"
    by (auto simp: replay_file_def split: option.split entry.split)
  then show ?thesis using assms by simp
next
  case True
  then obtain body where b: "re_read e" "map_of (ing_dir s) name = Some (Plain body)" by blast
  note sums = rename_away_sum [OF assms(2) b(2) _ assms(3)] removed_sum [OF assms(2) b(2) assms(3)]
  have ev: "0 \<le> events_in body" by (simp add: events_in_def)
  have q: "dir_ok (ing_dir (quarantine (re_rename e) name body (timed sendable cfg (re_attempt e) s)))"
    "accounted (quarantine (re_rename e) name body (timed sendable cfg (re_attempt e) s)) = accounted s"
    using quarantine_accounts [of "timed sendable cfg (re_attempt e) s" name body] assms(2,3) b(2) by simp_all
  show ?thesis
  proof (cases "attempt_error sendable cfg (re_attempt e)")
    case None
    then show ?thesis
      using assms(1,2) b(1) ev unfolding replay_file_read [OF b]
      by (auto simp: accounted_def sums stuck_def Let_def spool_simps split: if_splits)
  next
    case (Some err)
    then show ?thesis
      using assms(1,2) q unfolding replay_file_read [OF b] by (auto split: if_splits)
  qed
qed

text \<open>What every file of a sweep preserves, the sweep preserves.\<close>

lemma replay_files_preserve:
  assumes "\<And>k name s go s'. P s \<Longrightarrow> name \<in> set names \<Longrightarrow> \<not> re_stop (env k) \<Longrightarrow>
      replay_file sendable cfg (env k) name s = (go, s') \<Longrightarrow> P s'"
    and "P s"
  shows "P (replay_files sendable cfg env k names s)"
  using assms
proof (induction names arbitrary: k s)
  case (Cons name names)
  obtain go s' where r: "replay_file sendable cfg (env k) name s = (go, s')"
    by (cases "replay_file sendable cfg (env k) name s")
  show ?case
  proof (cases "re_stop (env k)")
    case False
    then have "P s'" using Cons.prems r by (meson list.set_intros(1))
    moreover have "P (replay_files sendable cfg env (Suc k) names s')"
      using Cons.IH [of s' "Suc k"] Cons.prems(1) \<open>P s'\<close> by (meson list.set_intros(2))
    ultimately show ?thesis using False r by (cases go) simp_all
  qed (simp add: Cons.prems)
qed simp

lemma replay_file_entries:
  assumes "replay_file sendable cfg e name s = (go, s')" "map_of (ing_dir s') m = Some x"
  shows "map_of (ing_dir s) m = Some x \<or>
    (\<exists>b ext. x = Plain b \<and> ext \<in> {''.bad'', ''.delivered''} \<and> m = name @ ext \<and> map_of (ing_dir s) name = Some (Plain b))"
proof (cases "re_read e \<and> (\<exists>body. map_of (ing_dir s) name = Some (Plain body))")
  case False
  then have "replay_file sendable cfg e name s = (True, s)"
    by (auto simp: replay_file_def split: option.split entry.split)
  then show ?thesis using assms by simp
next
  case True
  then obtain body where b: "re_read e" "map_of (ing_dir s) name = Some (Plain body)" by blast
  have q: "map_of (ing_dir (quarantine r name body (timed sendable cfg a s))) m = Some x \<Longrightarrow>
      map_of (ing_dir s) m = Some x \<or> x = Plain body \<and> m = name @ ''.bad''" for r a
    using b(2) by (auto simp: quarantine_result Let_def spool_simps split: if_splits)
  show ?thesis
  proof (cases "attempt_error sendable cfg (re_attempt e)")
    case None
    then show ?thesis
      using assms b unfolding replay_file_read [OF b] by (auto simp: Let_def spool_simps split: if_splits)
  next
    case (Some err)
    then show ?thesis
      using assms b(2) q unfolding replay_file_read [OF b] by (auto split: if_splits)
  qed
qed

lemma replay_file_seq: "replay_file sendable cfg e name s = (go, s') \<Longrightarrow> ing_spoolSeq s' = ing_spoolSeq s"
  by (auto simp: replay_file_def quarantine_def add_dropped_def add_inserted_def Let_def
      split: option.splits entry.splits prod.splits insert_error.splits if_splits bool.splits)

lemma replay_file_seqs_used:
  assumes "replay_file sendable cfg e name s = (go, s')" "replayable name" "seqs_used s"
  shows "seqs_used s'"
proof -
  have "q \<le> ing_spoolSeq s" if "map_of (ing_dir s') n = Some (Plain b)" "parseSpoolSeq n = Some q" for n b q
    using replay_file_entries [OF assms(1) that(1)]
  proof
    assume "map_of (ing_dir s) n = Some (Plain b)"
    then show ?thesis using assms(3) that(2) unfolding seqs_used_def by blast
  next
    assume "\<exists>b' ext. Plain b = Plain b' \<and> ext \<in> {''.bad'', ''.delivered''} \<and> n = name @ ext \<and>
        map_of (ing_dir s) name = Some (Plain b')"
    then obtain ext where ext: "ext \<in> {''.bad'', ''.delivered''}" "n = name @ ext"
      "map_of (ing_dir s) name = Some (Plain b)" by blast
    have "CHR ''-'' \<notin> set ext" using ext(1) by auto
    then have "parseSpoolSeq name = Some q" using parse_append [OF assms(2)] that(2) ext(2) by simp
    then show ?thesis using assms(3) ext(3) unfolding seqs_used_def by blast
  qed
  moreover have "dir_ok (ing_dir s')"
    using replay_file_accounts [OF assms(1) _ assms(2)] assms(3) by (simp add: seqs_used_def)
  ultimately show ?thesis
    using assms(3) replay_file_seq [OF assms(1)] by (auto simp: seqs_used_def)
qed

lemma listed_replayable: "n \<in> set (spoolFilesList listed d) \<Longrightarrow> replayable n"
  by (simp add: spoolFilesList_def split: if_splits)

lemma replayOnce_dir:
  "ing_dir (replayOnce sendable cfg listed env listed' stat s) =
     ing_dir (replay_files sendable cfg env 0 (spoolFilesList listed (ing_dir s)) s)"
  "accounted (replayOnce sendable cfg listed env listed' stat s) =
     accounted (replay_files sendable cfg env 0 (spoolFilesList listed (ing_dir s)) s)"
  by (simp_all add: replayOnce_def accounted_def)

definition no_folder :: "dir \<Rightarrow> bool" where
  "no_folder d \<longleftrightarrow> (\<forall>n. map_of d n \<noteq> Some Folder)"

lemma replay_file_no_folder:
  "replay_file sendable cfg e name s = (go, s') \<Longrightarrow> no_folder (ing_dir s) \<Longrightarrow> no_folder (ing_dir s')"
  unfolding no_folder_def using replay_file_entries by (metis entry.distinct(1))

text \<open>C17: A replay sweep loses no event silently: each one is still in a replayable file,
  inserted, or counted as dropped. Whatever fails, the sum never falls; it stays the same
  unless a delivered file can neither be removed nor renamed.\<close>

theorem replayOnce_accounts:
  assumes "dir_ok (ing_dir s)"
  shows "let s' = replayOnce sendable cfg listed env listed' stat s in
    accounted s \<le> accounted s' \<and>
    (no_folder (ing_dir s) \<and> (\<forall>k. re_remove (env k) \<or> re_rename (env k)) \<longrightarrow> accounted s' = accounted s)"
proof -
  let ?names = "spoolFilesList listed (ing_dir s)"
  let ?r = "replay_files sendable cfg env 0 ?names s"
  have "dir_ok (ing_dir ?r) \<and> accounted s \<le> accounted ?r"
    by (rule replay_files_preserve)
      (use replay_file_accounts listed_replayable assms in \<open>blast intro: order_trans\<close>, simp add: assms)
  moreover have "dir_ok (ing_dir ?r) \<and> no_folder (ing_dir ?r) \<and> accounted ?r = accounted s"
    if n: "no_folder (ing_dir s)" "\<forall>k. re_remove (env k) \<or> re_rename (env k)"
  proof (rule replay_files_preserve)
    fix k name t go t'
    assume "dir_ok (ing_dir t) \<and> no_folder (ing_dir t) \<and> accounted t = accounted s" "name \<in> set ?names"
      "replay_file sendable cfg (env k) name t = (go, t')"
    moreover from this have "\<not> stuck sendable cfg (env k) name t" using n(2) by (auto simp: stuck_def no_folder_def)
    ultimately show "dir_ok (ing_dir t') \<and> no_folder (ing_dir t') \<and> accounted t' = accounted s"
      using replay_file_accounts listed_replayable replay_file_no_folder by metis
  qed (simp add: assms n(1))
  ultimately show ?thesis by (simp add: Let_def replayOnce_dir)
qed

text \<open>A sweep in which the database accepts or rejects every file.\<close>

definition settled :: "(string \<Rightarrow> bool) \<Rightarrow> config \<Rightarrow> replay_env \<Rightarrow> bool" where
  "settled sendable cfg e \<longleftrightarrow>
     \<not> re_stop e \<and> re_read e \<and> re_remove e \<and> re_rename e \<and>
     (case attempt_error sendable cfg (re_attempt e) of
        None \<Rightarrow> True | Some err \<Rightarrow> (\<exists>msg. err = ChStatusError 400 msg))"

lemma replay_file_settled:
  assumes "settled sendable cfg e" "no_folder (ing_dir s)" "replay_file sendable cfg e name s = (go, s')"
  shows "go \<and> map_of (ing_dir s') name = None"
proof (cases "\<exists>body. map_of (ing_dir s) name = Some (Plain body)")
  case False
  then have "map_of (ing_dir s) name = None"
    using assms(2) by (metis entry.exhaust no_folder_def option.exhaust)
  then show ?thesis using assms(3) by (simp add: replay_file_def split: if_splits)
next
  case True
  then obtain body where b: "re_read e" "map_of (ing_dir s) name = Some (Plain body)"
    using assms(1) by (auto simp: settled_def)
  show ?thesis
    using assms b(2) unfolding replay_file_read [OF b]
    by (auto simp: settled_def Let_def spool_simps quarantine_result no_folder_def split: option.splits)
qed

lemma replay_files_settled:
  assumes "\<forall>k. settled sendable cfg (env k)" "no_folder (ing_dir s)"
    "\<forall>m x. map_of (ing_dir s) m = Some x \<and> replayable m \<longrightarrow> m \<in> set names"
  shows "replayable m \<Longrightarrow> map_of (ing_dir (replay_files sendable cfg env k names s)) m = None"
  using assms
proof (induction names arbitrary: k s)
  case Nil
  then show ?case by (cases "map_of (ing_dir s) m") auto
next
  case (Cons name names)
  obtain go s' where r: "replay_file sendable cfg (env k) name s = (go, s')"
    by (cases "replay_file sendable cfg (env k) name s")
  have set: "settled sendable cfg (env k)" using Cons.prems(2) by blast
  note gone = replay_file_settled [OF set Cons.prems(3) r]
  have "m' \<in> set names" if "map_of (ing_dir s') m' = Some x" "replayable m'" for m' x
    using replay_file_entries [OF r that(1)] Cons.prems(4) that gone not_replayable_append by fastforce
  then have "map_of (ing_dir (replay_files sendable cfg env (Suc k) names s')) m = None"
    using Cons.IH [of s' "Suc k"] Cons.prems(1,2) replay_file_no_folder [OF r Cons.prems(3)] by blast
  then show ?case using gone r set by (simp add: settled_def)
qed

lemma spooled_none: "dir_ok d \<Longrightarrow> (\<And>m. replayable m \<Longrightarrow> map_of d m = None) \<Longrightarrow> spooled d = 0"
proof -
  assume a: "dir_ok d" "\<And>m. replayable m \<Longrightarrow> map_of d m = None"
  have "\<not> replayable n" if "(n, e) \<in> set d" for n e
  proof -
    have "map_of d n = Some e" using a(1) that by (simp add: dir_ok_def)
    then show ?thesis using a(2) by force
  qed
  then have "event_weight n e = 0" if "(n, e) \<in> set d" for n e
    using that by (auto simp: event_weight_def split: entry.split)
  then have "map (\<lambda>(n, e). event_weight n e) d = map (\<lambda>_. 0) d" by (intro map_cong) auto
  then show ?thesis unfolding spooled_def dir_sum_def by (simp only:) simp
qed

text \<open>C34: A sweep that gets an answer for every file empties the queue: a file the database
  rejects with 400 is set aside and blocks nothing behind it, every other file is delivered,
  and the counters of inserted and dropped events grow by exactly the events that were
  waiting.\<close>

theorem replayOnce_drains:
  assumes "dir_ok (ing_dir s)" "no_folder (ing_dir s)" "\<forall>k. settled sendable cfg (env k)"
  shows "let s' = replayOnce sendable cfg True env True stat s in
    spoolFilesList True (ing_dir s') = [] \<and> m_spoolFiles (ing_m s') = 0 \<and>
    m_inserted (ing_m s') + m_dropped (ing_m s') =
      m_inserted (ing_m s) + m_dropped (ing_m s) + spooled (ing_dir s)"
proof -
  let ?names = "spoolFilesList True (ing_dir s)"
  let ?r = "replay_files sendable cfg env 0 ?names s"
  have names: "\<forall>m x. map_of (ing_dir s) m = Some x \<and> replayable m \<longrightarrow> m \<in> set ?names"
    using plain_names_map_of [OF assms(1)] assms(2)
    by (auto simp: spoolFilesList_def no_folder_def) (metis entry.exhaust)
  note none = replay_files_settled [OF assms(3,2) names, of _ 0]
  have ok: "dir_ok (ing_dir ?r) \<and> no_folder (ing_dir ?r) \<and> accounted ?r = accounted s"
  proof (rule replay_files_preserve)
    fix k name t go t'
    assume "dir_ok (ing_dir t) \<and> no_folder (ing_dir t) \<and> accounted t = accounted s" "name \<in> set ?names"
      "replay_file sendable cfg (env k) name t = (go, t')"
    moreover have "go" using replay_file_settled assms(3) calculation by blast
    ultimately show "dir_ok (ing_dir t') \<and> no_folder (ing_dir t') \<and> accounted t' = accounted s"
      using replay_file_accounts listed_replayable replay_file_no_folder by metis
  qed (simp add: assms)
  have "filter replayable (plain_names (ing_dir ?r)) = []"
    using none plain_names_map_of [of "ing_dir ?r"] ok by (auto simp: filter_empty_conv)
  moreover have "spooled (ing_dir ?r) = 0" using spooled_none none ok by blast
  ultimately show ?thesis
    using ok
    by (simp add: Let_def replayOnce_def updateSpoolGauge_def spool_files_def spoolFilesList_def [of _ "ing_dir ?r"] accounted_def)
qed

section \<open>A small spool\<close>

definition demo_os :: spool_os where
  "demo_os = \<lparr>os_write = Written, os_rename = True, os_remove = True, os_listed = True, os_stat = (\<lambda>_. True)\<rparr>"

definition demo_ingester :: "dir \<Rightarrow> ingester" where
  "demo_ingester d = updateSpoolGauge True (\<lambda>_. True) (newIngester d (newMetrics [] [] 0))"

definition demo_replay :: "nat \<Rightarrow> replay_env" where
  "demo_replay k = \<lparr>re_stop = False, re_read = True, re_attempt = demo_attempts (k + 1), re_remove = True, re_rename = True\<rparr>"

lemma demo_empty_spool:
  "seqs_used (demo_ingester [])" "gauge_accurate (demo_ingester [])" "dir_ok (ing_dir (demo_ingester []))"
  "ing_spoolSeq (demo_ingester []) = 0"
  by (simp_all add: demo_ingester_def seqs_used_def gauge_accurate_def dir_ok_def newIngester_def
      updateSpoolGauge_def spool_files_def spool_bytes_def)

definition demo_file :: string where
  "demo_file = spoolFileName 1 0"

lemma demo_file_simps [simp]: "replayable demo_file" "demo_file \<noteq> ''x''" "demo_file \<noteq> demo_file @ ''.tmp''"
proof -
  show r: "replayable demo_file" by (simp add: demo_file_def)
  have "\<not> replayable ''x''" by (simp add: replayable_def suffix_to_prefix)
  then show "demo_file \<noteq> ''x''" using r by metis
qed simp

lemma demo_names: "itoa 1 @ ''-18446744073709551615.ndjson'' \<noteq> spoolFileName 1 0"
  "itoa 1 @ ''-18446744073709551615.ndjson'' \<noteq> spoolFileName 1 0 @ ''.tmp''"
  by (simp_all add: spoolFileName_def pad_zeros_def Let_def dec.simps numeral_eq_Suc)

lemma spoolFilesList_fifo_witness:
  "set (spoolFilesList True [(demo_file, Plain ''a''), (''x'', Folder)]) = {demo_file}"
proof -
  have "dir_ok [(demo_file, Plain ''a''), (''x'', Folder)]" by (simp add: dir_ok_def)
  then have "set (spoolFilesList True [(demo_file, Plain ''a''), (''x'', Folder)]) =
      {n. replayable n \<and> (\<exists>b. map_of [(demo_file, Plain ''a''), (''x'', Folder)] n = Some (Plain b))}"
    using spoolFilesList_fifo [of "[(demo_file, Plain ''a''), (''x'', Folder)]"] unfolding Let_def by blast
  then show ?thesis by auto
qed

lemma spool_never_overwrites_witness:
  "seqs_used (spool demo_config 1 demo_os ''a'' 1 (demo_ingester []))"
  using spool_never_overwrites [OF demo_empty_spool(1), of 1 demo_config demo_os "''a''" 1]
  by (simp add: demo_empty_spool Let_def)

lemma demo_spool_kept:
  assumes "spoolDir cfg \<noteq> []" "0 < spoolMaxFiles cfg" "1 \<le> spoolMaxBytes cfg"
  shows "m_dropped (ing_m (spool cfg 1 demo_os ''a'' 1 (demo_ingester []))) = m_dropped (ing_m (demo_ingester []))"
proof -
  have g: "m_spoolFiles (ing_m (demo_ingester [])) = 0" "m_spoolBytes (ing_m (demo_ingester [])) = 0" "ing_dir (demo_ingester []) = []"
    by (simp_all add: demo_ingester_def newIngester_def updateSpoolGauge_def spool_files_def plain_names_def spool_bytes_def)
  have "writeFileSync Written t b [] = (True, [(t, Plain b)])" for t b by (simp add: dir_put_def dir_del_def)
  moreover have "dir_rename True t n [(t, Plain b)] = (True, dir_put n b (dir_del t [(t, Plain b)]))" if "t \<noteq> n" for t n b
    using that by (simp add: dir_rename_def)
  ultimately show ?thesis using assms by (simp add: spool_def g Let_def demo_os_def del: writeFileSync.simps)
qed

lemma spool_respects_caps_witness:
  "spool_files (ing_dir (spool (demo_config\<lparr>spoolDir := ''s''\<rparr>) 1 demo_os ''a'' 1 (demo_ingester []))) \<le> 3"
proof -
  let ?cfg = "demo_config\<lparr>spoolDir := ''s''\<rparr>"
  have c: "spoolMaxFiles ?cfg = 3" "spoolMaxBytes ?cfg = 4000" by (simp_all add: demo_config_def)
  show ?thesis
    using spool_respects_caps [OF demo_empty_spool(2,3), of demo_os ?cfg 1 "''a''" 1] demo_spool_kept [of ?cfg] c
    by (simp add: Let_def demo_os_def)
qed

lemma spool_seq_wraps_witness:
  "map_of (ing_dir (spool (demo_config\<lparr>spoolDir := ''s'', spoolMaxBytes := 0\<rparr>) 1 demo_os ''new'' 1
     (resumeSpoolSeq True (newIngester
        [(itoa 1 @ ''-18446744073709551615.ndjson'', Plain []), (spoolFileName 1 0, Plain ''old'')]
        (newMetrics [] [] 0))))) (spoolFileName 1 0) = Some (Plain ''new'')"
  by (rule spool_seq_wraps [where b = "[]" and old = "''old''"])
    (use demo_names in \<open>simp_all add: dir_ok_def demo_os_def demo_config_def newMetrics_def\<close>)

lemma demo_settled: "settled (\<lambda>_. True) demo_config (demo_replay k)"
  using demo_attempt_error(1) [of k] by (simp add: settled_def demo_replay_def)

lemma demo_one_file:
  "dir_ok (ing_dir (demo_ingester [(demo_file, Plain ''a'')]))"
  "no_folder (ing_dir (demo_ingester [(demo_file, Plain ''a'')]))"
  by (simp_all add: demo_ingester_def newIngester_def dir_ok_def no_folder_def)

lemma replayOnce_accounts_witness:
  "accounted (replayOnce (\<lambda>_. True) demo_config True demo_replay True (\<lambda>_. True)
     (demo_ingester [(demo_file, Plain ''a'')])) = accounted (demo_ingester [(demo_file, Plain ''a'')])"
  using replayOnce_accounts [OF demo_one_file(1)] demo_one_file(2)
  by (auto simp: Let_def demo_replay_def)

lemma replayOnce_drains_witness:
  "m_inserted (ing_m (replayOnce (\<lambda>_. True) demo_config True demo_replay True (\<lambda>_. True)
     (demo_ingester [(demo_file, Plain ''a'')]))) +
   m_dropped (ing_m (replayOnce (\<lambda>_. True) demo_config True demo_replay True (\<lambda>_. True)
     (demo_ingester [(demo_file, Plain ''a'')]))) = 1"
  using replayOnce_drains [OF demo_one_file, of "\<lambda>_. True" demo_config demo_replay "\<lambda>_. True"] demo_settled
  by (simp add: Let_def demo_ingester_def newIngester_def newMetrics_def spooled_def dir_sum_def event_weight_def
      events_in_def)

end
