(* ===== verification/Ingest.thy ===== *)
theory Ingest
  imports SpoolFacts JsonFacts
begin

text \<open>
  The accepting end of the pipeline: \<open>enqueue\<close> of \<open>gateway/ingest.go\<close>, which serialises a
  batch of rows and puts it into the bounded buffer all or nothing.
\<close>

section \<open>enqueue\<close>

text \<open>The serialised rows. Encoding a struct of strings cannot fail, so the loop drops none.\<close>

definition enqueue_lines :: "row list \<Rightarrow> string \<Rightarrow> string list" where
  "enqueue_lines rows ip = map (\<lambda>r. encode_row (r\<lparr>row_source_ip := ip\<rparr>)) rows"

definition line_bytes :: "string list \<Rightarrow> int" where
  "line_bytes lines = sum_list (map (\<lambda>l. int (length l)) lines)"

text \<open>The loop over the lines: a send that does not block, or a drop. The result is the
  channel, the accepted and the dropped lines, and the bytes admitted.\<close>

fun admit :: "int \<Rightarrow> string list \<Rightarrow> string list \<Rightarrow> string list \<times> int \<times> int \<times> int" where
  "admit room ch [] = (ch, 0, 0, 0)"
| "admit room ch (line # lines) =
     (if int (length ch) < room then
        (case admit room (ch @ [line]) lines of
           (ch', accepted, dropped, admitted) \<Rightarrow> (ch', accepted + 1, dropped, admitted + int (length line)))
      else
        (case admit room ch lines of
           (ch', accepted, dropped, admitted) \<Rightarrow> (ch', accepted, dropped + 1, admitted)))"

text \<open>(accepted, dropped), and the state.\<close>

definition enqueue :: "config \<Rightarrow> row list \<Rightarrow> string \<Rightarrow> ingester \<Rightarrow> (int \<times> int) \<times> ingester" where
  "enqueue cfg rows ip s =
     (let lines = enqueue_lines rows ip; total = line_bytes lines in
      if ing_closed s \<or> ing_capacity cfg < ing_depth s + int (length lines) \<or>
         (0 < bufferMaxBytes cfg \<and> bufferMaxBytes cfg < ing_bufBytes s + total)
      then ((0, int (length lines)), s)
      else
        (case admit (ing_capacity cfg) (ing_ch s) lines of
           (ch, accepted, dropped, admitted) \<Rightarrow>
             ((accepted, dropped), s\<lparr>ing_ch := ch, ing_bufBytes := ing_bufBytes s + admitted\<rparr>)))"

section \<open>What enqueue decides\<close>

lemma admit_all:
  "int (length ch + length lines) \<le> room \<Longrightarrow>
   admit room ch lines = (ch @ lines, int (length lines), 0, line_bytes lines)"
  by (induction lines arbitrary: ch) (simp_all add: line_bytes_def)

definition fits :: "config \<Rightarrow> string list \<Rightarrow> ingester \<Rightarrow> bool" where
  "fits cfg lines s \<longleftrightarrow>
     \<not> ing_closed s \<and> ing_depth s + int (length lines) \<le> bufferSize cfg \<and>
     (0 < bufferMaxBytes cfg \<longrightarrow> ing_bufBytes s + line_bytes lines \<le> bufferMaxBytes cfg)"

lemma enqueue_result:
  "enqueue cfg rows ip s =
     (if fits cfg (enqueue_lines rows ip) s
      then ((int (length rows), 0),
            s\<lparr>ing_ch := ing_ch s @ enqueue_lines rows ip,
              ing_bufBytes := ing_bufBytes s + line_bytes (enqueue_lines rows ip)\<rparr>)
      else ((0, int (length rows)), s))"
proof -
  have "length (enqueue_lines rows ip) = length rows" by (simp add: enqueue_lines_def)
  then show ?thesis
    by (auto simp: enqueue_def fits_def ing_capacity_def ing_depth_def admit_all Let_def)
qed

section \<open>What flush settles\<close>

definition one_line :: "string \<Rightarrow> bool" where
  "one_line l \<longleftrightarrow> CHR 0x0A \<notin> set l"

lemma enqueue_lines_one_line: "list_all one_line (enqueue_lines rows ip)"
  using encode_row_printable [of "CHR 0x0A"] by (auto simp: enqueue_lines_def one_line_def list_all_iff)

lemma count_join_newlines:
  "list_all one_line ls \<Longrightarrow> ls \<noteq> [] \<Longrightarrow> count_list (join [CHR 0x0A] ls) (CHR 0x0A) = length ls - 1"
  by (induction ls rule: induct_list012) (auto simp: one_line_def count_list_0_iff [symmetric])

lemma events_in_flush_body [acct_simps]:
  "list_all one_line batch \<Longrightarrow> batch \<noteq> [] \<Longrightarrow> events_in (flush_body batch) = int (length batch)"
  by (cases batch) (simp_all add: events_in_def flush_body_def count_join_newlines)

lemma not_replayable_weight: "\<not> replayable n \<Longrightarrow> at_name event_weight d n = 0"
  by (auto simp: at_name_def event_weight_def split: option.split entry.split)

lemma no_file_weight: "map_of d n \<in> {None, Some Folder} \<Longrightarrow> at_name event_weight d n = 0"
  by (auto simp: at_name_def event_weight_def)

lemma spool_accounts:
  assumes "seqs_used s" "0 \<le> pid" "ing_spoolSeq s < 2 ^ 64 - 1" "events_in body = n"
  shows "accounted (spool cfg pid os body n s) = accounted s + n"
proof -
  let ?s' = "spool cfg pid os body n s" and ?q = "ing_spoolSeq s + 1"
  have q: "next_seq (ing_spoolSeq s) = ?q"
    using assms(1,3) by (intro next_seq_small) (auto simp: seqs_used_def)
  have ok: "dir_ok (ing_dir s)" using assms(1) by (simp add: seqs_used_def)
  have tmp: "spooled d = spooled (ing_dir s)" if "only_changes (spoolFileName pid r @ ''.tmp'') (ing_dir s) d" for d r
    using that not_replayable_append [of "''.tmp''"] by (simp add: only_changes_def spooled_def not_replayable_weight)
  from spool_ends [OF ok, of pid n cfg os body] show ?thesis
  proof
    assume "spool_lost pid n s ?s'"
    then show ?thesis using tmp unfolding spool_lost_def by (auto simp: accounted_def)
  next
    assume "spool_kept cfg pid os body s ?s'"
    then obtain name d1 d where k: "name = spoolFileName pid ?q"
      "?s' = updateSpoolGauge (os_listed os) (os_stat os) (s\<lparr>ing_spoolSeq := ?q, ing_dir := d\<rparr>)"
      "only_changes (name @ ''.tmp'') (ing_dir s) d1" "only_changes name d1 d" "map_of d name = Some (Plain body)"
      unfolding spool_kept_def q by blast
    have "map_of (ing_dir s) name \<in> {None, Some Folder}"
      using seq_name_free [OF assms(1,2), of ?q "[]"] assms(3) k(1) by simp
    then have "map_of d1 name \<in> {None, Some Folder}" using k(3) by (simp add: only_changes_def)
    then have "spooled d = spooled d1 + event_weight name (Plain body)"
      using k(4,5) no_file_weight by (simp add: only_changes_def spooled_def at_name_def)
    then show ?thesis
      using tmp k assms(4) by (simp add: accounted_def event_weight_def)
  qed
qed

text \<open>\<open>spool\<close> and the retry loop leave the buffer alone.\<close>

definition same_buffer :: "ingester \<Rightarrow> ingester \<Rightarrow> bool" where
  "same_buffer s s' \<longleftrightarrow>
     ing_ch s' = ing_ch s \<and> ing_closed s' = ing_closed s \<and> ing_bufBytes s' = ing_bufBytes s \<and>
     ing_stopReplay s' = ing_stopReplay s \<and> ing_draining s' = ing_draining s"

lemma same_buffer_simps [simp]:
  "same_buffer s (add_dropped n t) = same_buffer s t" "same_buffer s (add_inserted n t) = same_buffer s t"
  "same_buffer s (updateSpoolGauge listed stat t) = same_buffer s t"
  "same_buffer s (t\<lparr>ing_m := m\<rparr>) = same_buffer s t" "same_buffer s (t\<lparr>ing_dir := d\<rparr>) = same_buffer s t"
  "same_buffer s (t\<lparr>ing_spoolSeq := q\<rparr>) = same_buffer s t" "same_buffer s s"
  by (simp_all add: same_buffer_def add_dropped_def add_inserted_def updateSpoolGauge_def)

lemma spool_same_buffer: "same_buffer s t \<Longrightarrow> same_buffer s (spool cfg pid os body n t)"
  by (simp add: spool_def Let_def split: prod.split bool.split)

lemma flush_same_buffer: "same_buffer s (flush sendable cfg pid env os batch s)"
  by (simp add: flush_def Let_def spool_same_buffer split: option.split)

lemma replay_file_same_buffer: "replay_file sendable cfg e name s = (go, s') \<Longrightarrow> same_buffer s s'"
  by (auto simp: replay_file_def quarantine_def Let_def
      split: option.splits entry.splits prod.splits insert_error.splits if_splits bool.splits)

lemma retries_only_counters:
  "retries_only m m' n \<Longrightarrow> m_inserted m' = m_inserted m \<and> m_dropped m' = m_dropped m"
  unfolding retries_only_def by (metis metrics.select_convs(2,3) metrics.surjective metrics.update_convs(5,14))

lemma flush_accounts:
  assumes "seqs_used s" "0 \<le> pid" "ing_spoolSeq s < 2 ^ 64 - 1" "0 \<le> maxRetries cfg"
    "list_all one_line batch" "batch \<noteq> []"
  shows "accounted (flush sendable cfg pid env os batch s) = accounted s + int (length batch) \<and>
    seqs_used (flush sendable cfg pid env os batch s)"
proof -
  let ?r = "insertWithRetry sendable cfg env (flush_body batch) (ing_m s)"
  obtain n where "retries_only (ing_m s) (run_metrics ?r) (int (n - 1))"
    using insertWithRetry_run [OF assms(4)] by metis
  then have c: "m_inserted (run_metrics ?r) = m_inserted (ing_m s)" "m_dropped (run_metrics ?r) = m_dropped (ing_m s)"
    using retries_only_counters by blast+
  have "accounted (spool cfg pid os (flush_body batch) (int (length batch)) t) = accounted t + int (length batch) \<and>
      seqs_used (spool cfg pid os (flush_body batch) (int (length batch)) t)"
    if "seqs_used t" "ing_spoolSeq t = ing_spoolSeq s" for t
    using that spool_accounts [of t pid "flush_body batch"] spool_keeps_seqs [of t pid] assms(2,3,5,6)
    by (simp add: acct_simps)
  then show ?thesis
    using assms(1) c by (auto simp: flush_def Let_def accounted_def split: option.split)
qed

text \<open>C16: A batch leaves memory exactly once: when \<open>flush\<close> returns, every event of it is counted
  as inserted, counted as dropped, or in a replayable file, whatever the network and the
  file system did, and the buffer is as it was.\<close>

theorem flush_settles:
  assumes "seqs_used s" "0 \<le> pid" "ing_spoolSeq s < 2 ^ 64 - 1" "0 \<le> maxRetries cfg"
    "list_all one_line batch" "batch \<noteq> []"
  shows "let s' = flush sendable cfg pid env os batch s in
    spooled (ing_dir s') + m_inserted (ing_m s') + m_dropped (ing_m s') =
      spooled (ing_dir s) + m_inserted (ing_m s) + m_dropped (ing_m s) + int (length batch) \<and>
    (run_error (insertWithRetry sendable cfg env (flush_body batch) (ing_m s)) = None \<longrightarrow>
      m_inserted (ing_m s') = m_inserted (ing_m s) + int (length batch) \<and> ing_dir s' = ing_dir s) \<and>
    same_buffer s s'"
proof -
  obtain n where "retries_only (ing_m s) (run_metrics (insertWithRetry sendable cfg env (flush_body batch) (ing_m s))) (int (n - 1))"
    using insertWithRetry_run [OF assms(4)] by metis
  then show ?thesis
    using flush_accounts [OF assms] flush_same_buffer retries_only_counters
    by (auto simp: Let_def accounted_def flush_def)
qed

lemma flush_settles_witness:
  "same_buffer (demo_ingester []) (flush (\<lambda>_. True) demo_config 1 demo_attempts demo_os [''a'', ''b''] (demo_ingester [])) \<and>
   one_line ''a''"
  using flush_settles [OF demo_empty_spool(1), of 1 demo_config "[''a'', ''b'']" "\<lambda>_. True" demo_attempts demo_os]
  by (simp add: Let_def demo_empty_spool demo_retries one_line_def)

text \<open>C30: \<open>enqueue\<close> is all or nothing. It takes the batch exactly when the buffer is open and has
  room for all its rows and all its bytes, and then appends one line per row, in order and
  stamped with the sender's address; otherwise it changes nothing and reports every row as
  dropped.\<close>

theorem enqueue_all_or_nothing:
  "(case enqueue cfg rows ip s of ((accepted, dropped), s') \<Rightarrow>
     accepted + dropped = int (length rows) \<and>
     (if fits cfg (enqueue_lines rows ip) s
      then dropped = 0 \<and> ing_ch s' = ing_ch s @ map (\<lambda>r. encode_row (r\<lparr>row_source_ip := ip\<rparr>)) rows \<and>
        ing_bufBytes s' = ing_bufBytes s + line_bytes (enqueue_lines rows ip) \<and>
        list_all one_line (enqueue_lines rows ip)
      else accepted = 0 \<and> s' = s))"
  using enqueue_lines_one_line [of rows ip] by (auto simp: enqueue_result enqueue_lines_def)

end
