(* ===== verification/Pipeline.thy ===== *)
theory Pipeline
  imports Ingest
begin

text \<open>
  The ingester at work (\<open>gateway/ingest.go\<close>): the handlers' \<open>enqueue\<close>, the goroutines
  \<open>worker\<close> and \<open>replayLoop\<close> and the three steps of \<open>stop\<close>, in any interleaving. The step
  relation is labelled, so that a run records what was accepted and what was flushed.
\<close>

section \<open>The state\<close>

text \<open>Where the worker is: in its \<open>select\<close>, about to flush (\<open>True\<close>: the channel is closed and
  this is the last flush), about to release the batch's bytes, or gone.\<close>

datatype worker_pc = Selecting | Flushing bool | Releasing bool | Gone

text \<open>The replay loop: in its \<open>select\<close>, inside a sweep with the files still to visit, in the
  deferred \<open>updateSpoolGauge\<close> before and after reading the directory, or gone.\<close>

datatype replay_pc = Waiting | Sweeping "string list" | Measuring | Storing int int | Left

record pipeline =
  p_ing :: ingester
  p_batch :: "string list"
  p_batchBytes :: int
  p_worker :: worker_pc
  p_replay :: replay_pc

datatype action =
    Accept "string list" | Refuse nat | Receive | Tick | Finish
  | Flush "string list" | FreeBytes
  | SweepStart | SweepFile replay_env | SweepEnd | Measure | StoreGauge | ReplayExit
  | Drain | StopReplay | CloseBuffer

definition maxBatchBytes :: int where
  "maxBatchBytes = 8 * 2 ^ 20"

definition batch_full :: "config \<Rightarrow> string list \<Rightarrow> int \<Rightarrow> bool" where
  "batch_full cfg batch bytes \<longleftrightarrow> batchSize cfg \<le> int (length batch) \<or> maxBatchBytes \<le> bytes"

section \<open>The steps\<close>

text \<open>
  \<open>enqueue\<close> is one step because it runs under \<open>enqueueMu\<close>; so are \<open>flush\<close> and one file of a
  sweep, which touch the channel in no way and different files of the spool. The guard of a
  flush leaves out the wrap-around of the uint64 counter, which is treated on its own.
\<close>

inductive pstep :: "(string \<Rightarrow> bool) \<Rightarrow> config \<Rightarrow> int \<Rightarrow> pipeline \<Rightarrow> action \<Rightarrow> pipeline \<Rightarrow> bool"
  for sendable :: "string \<Rightarrow> bool" and cfg :: config and pid :: int
where
  enqueue_all: "enqueue cfg rows ip (p_ing p) = ((accepted, dropped), s') \<Longrightarrow> accepted \<noteq> 0 \<or> rows = [] \<Longrightarrow>
    pstep sendable cfg pid p (Accept (enqueue_lines rows ip)) (p\<lparr>p_ing := s'\<rparr>)"
| enqueue_none: "enqueue cfg rows ip (p_ing p) = ((0, dropped), s') \<Longrightarrow> rows \<noteq> [] \<Longrightarrow>
    pstep sendable cfg pid p (Refuse (length rows)) (p\<lparr>p_ing := s'\<rparr>)"
| receive: "p_worker p = Selecting \<Longrightarrow> ing_ch (p_ing p) = line # rest \<Longrightarrow>
    batch = p_batch p @ [line] \<Longrightarrow> bytes = p_batchBytes p + int (length line) \<Longrightarrow>
    pstep sendable cfg pid p Receive
      (p\<lparr>p_ing := (p_ing p)\<lparr>ing_ch := rest\<rparr>, p_batch := batch, p_batchBytes := bytes,
         p_worker := (if batch_full cfg batch bytes then Flushing False else Selecting)\<rparr>)"
| tick: "p_worker p = Selecting \<Longrightarrow> p_batch p \<noteq> [] \<Longrightarrow>
    pstep sendable cfg pid p Tick (p\<lparr>p_worker := Flushing False\<rparr>)"
| channel_closed: "p_worker p = Selecting \<Longrightarrow> ing_ch (p_ing p) = [] \<Longrightarrow> ing_closed (p_ing p) \<Longrightarrow>
    pstep sendable cfg pid p Finish (p\<lparr>p_worker := (if p_batch p = [] then Gone else Flushing True)\<rparr>)"
| flush_batch: "p_worker p = Flushing final \<Longrightarrow> ing_spoolSeq (p_ing p) < 2 ^ 64 - 1 \<Longrightarrow>
    pstep sendable cfg pid p (Flush (p_batch p))
      (p\<lparr>p_ing := flush sendable cfg pid env os (p_batch p) (p_ing p), p_worker := Releasing final\<rparr>)"
| release_bytes: "p_worker p = Releasing final \<Longrightarrow>
    pstep sendable cfg pid p FreeBytes
      (p\<lparr>p_ing := (p_ing p)\<lparr>ing_bufBytes := ing_bufBytes (p_ing p) - p_batchBytes p\<rparr>,
         p_batch := [], p_batchBytes := 0, p_worker := (if final then Gone else Selecting)\<rparr>)"
| sweep_start: "p_replay p = Waiting \<Longrightarrow>
    pstep sendable cfg pid p SweepStart (p\<lparr>p_replay := Sweeping (spoolFilesList listed (ing_dir (p_ing p)))\<rparr>)"
| sweep_file: "p_replay p = Sweeping (name # names) \<Longrightarrow> \<not> ing_stopReplay (p_ing p) \<Longrightarrow>
    replay_file sendable cfg e name (p_ing p) = (go, s') \<Longrightarrow>
    pstep sendable cfg pid p (SweepFile e)
      (p\<lparr>p_ing := s', p_replay := (if go then Sweeping names else Measuring)\<rparr>)"
| sweep_end: "p_replay p = Sweeping names \<Longrightarrow> names = [] \<or> ing_stopReplay (p_ing p) \<Longrightarrow>
    pstep sendable cfg pid p SweepEnd (p\<lparr>p_replay := Measuring\<rparr>)"
| measure_spool: "p_replay p = Measuring \<Longrightarrow>
    pstep sendable cfg pid p Measure
      (p\<lparr>p_replay := (if listed
           then Storing (spool_files (ing_dir (p_ing p))) (spool_bytes stat (ing_dir (p_ing p)))
           else Waiting)\<rparr>)"
| store_gauge: "p_replay p = Storing files bytes \<Longrightarrow>
    pstep sendable cfg pid p StoreGauge
      (p\<lparr>p_ing := (p_ing p)\<lparr>ing_m := (ing_m (p_ing p))\<lparr>m_spoolFiles := files, m_spoolBytes := bytes\<rparr>\<rparr>,
         p_replay := Waiting\<rparr>)"
| replay_exit: "p_replay p = Waiting \<Longrightarrow> ing_stopReplay (p_ing p) \<Longrightarrow>
    pstep sendable cfg pid p ReplayExit (p\<lparr>p_replay := Left\<rparr>)"
| drain: "\<not> ing_draining (p_ing p) \<Longrightarrow>
    pstep sendable cfg pid p Drain (p\<lparr>p_ing := (p_ing p)\<lparr>ing_draining := True\<rparr>\<rparr>)"
| stop_replay: "ing_draining (p_ing p) \<Longrightarrow> \<not> ing_stopReplay (p_ing p) \<Longrightarrow>
    pstep sendable cfg pid p StopReplay (p\<lparr>p_ing := (p_ing p)\<lparr>ing_stopReplay := True\<rparr>\<rparr>)"
| close_buffer: "ing_stopReplay (p_ing p) \<Longrightarrow> \<not> ing_closed (p_ing p) \<Longrightarrow>
    pstep sendable cfg pid p CloseBuffer (p\<lparr>p_ing := (p_ing p)\<lparr>ing_closed := True\<rparr>\<rparr>)"

text \<open>What \<open>start\<close> hands over: an empty buffer, a resumed counter, and a replay loop if there is
  a spool.\<close>

definition initial :: "config \<Rightarrow> pipeline \<Rightarrow> bool" where
  "initial cfg p \<longleftrightarrow>
     ing_ch (p_ing p) = [] \<and> ing_bufBytes (p_ing p) = 0 \<and> \<not> ing_closed (p_ing p) \<and>
     \<not> ing_stopReplay (p_ing p) \<and> \<not> ing_draining (p_ing p) \<and> seqs_used (p_ing p) \<and>
     p_batch p = [] \<and> p_batchBytes p = 0 \<and> p_worker p = Selecting \<and> p_replay p \<in> {Waiting, Left}"

inductive runs :: "(string \<Rightarrow> bool) \<Rightarrow> config \<Rightarrow> int \<Rightarrow> pipeline \<Rightarrow> action list \<Rightarrow> pipeline \<Rightarrow> bool"
  for sendable :: "string \<Rightarrow> bool" and cfg :: config and pid :: int
where
  runs_none: "runs sendable cfg pid p [] p"
| runs_step: "runs sendable cfg pid p as q \<Longrightarrow> pstep sendable cfg pid q a r \<Longrightarrow> runs sendable cfg pid p (as @ [a]) r"

section \<open>Invariants\<close>

definition replay_names :: "replay_pc \<Rightarrow> string list" where
  "replay_names r = (case r of Sweeping ns \<Rightarrow> ns | _ \<Rightarrow> [])"

text \<open>The buffer: its bytes are counted exactly, both caps hold, and the batch is bounded.\<close>

definition buffer_inv :: "config \<Rightarrow> pipeline \<Rightarrow> bool" where
  "buffer_inv cfg p \<longleftrightarrow>
     ing_bufBytes (p_ing p) = line_bytes (ing_ch (p_ing p)) + line_bytes (p_batch p) \<and>
     p_batchBytes p = line_bytes (p_batch p) \<and>
     int (length (ing_ch (p_ing p))) \<le> bufferSize cfg \<and>
     (0 < bufferMaxBytes cfg \<longrightarrow> ing_bufBytes (p_ing p) \<le> bufferMaxBytes cfg) \<and>
     int (length (p_batch p)) \<le> batchSize cfg \<and>
     list_all one_line (ing_ch (p_ing p)) \<and> list_all one_line (p_batch p)"

text \<open>The control: a batch under construction is not full, one being flushed is not empty.\<close>

definition control_inv :: "config \<Rightarrow> pipeline \<Rightarrow> bool" where
  "control_inv cfg p \<longleftrightarrow>
     (case p_worker p of
        Selecting \<Rightarrow> \<not> batch_full cfg (p_batch p) (p_batchBytes p)
      | Gone \<Rightarrow> p_batch p = [] \<and> ing_ch (p_ing p) = [] \<and> ing_closed (p_ing p)
      | Flushing final \<Rightarrow> p_batch p \<noteq> [] \<and> (final \<longrightarrow> ing_ch (p_ing p) = [] \<and> ing_closed (p_ing p))
      | Releasing final \<Rightarrow> p_batch p \<noteq> [] \<and> (final \<longrightarrow> ing_ch (p_ing p) = [] \<and> ing_closed (p_ing p))) \<and>
     (ing_closed (p_ing p) \<longrightarrow> ing_stopReplay (p_ing p)) \<and> (ing_stopReplay (p_ing p) \<longrightarrow> ing_draining (p_ing p)) \<and>
     list_all replayable (replay_names (p_replay p)) \<and> seqs_used (p_ing p)"

lemma line_bytes_simps [simp]:
  "line_bytes [] = 0" "line_bytes (l # ls) = int (length l) + line_bytes ls"
  "line_bytes (ls @ ms) = line_bytes ls + line_bytes ms"
  by (simp_all add: line_bytes_def)

lemma line_bytes_nonneg: "0 \<le> line_bytes ls"
  by (induction ls) simp_all

lemma seqs_used_frame [simp]:
  "seqs_used (s\<lparr>ing_ch := x\<rparr>) = seqs_used s" "seqs_used (s\<lparr>ing_closed := b\<rparr>) = seqs_used s"
  "seqs_used (s\<lparr>ing_bufBytes := n\<rparr>) = seqs_used s" "seqs_used (s\<lparr>ing_stopReplay := b\<rparr>) = seqs_used s"
  "seqs_used (s\<lparr>ing_draining := b\<rparr>) = seqs_used s"
  by (simp_all add: seqs_used_def)

lemma accounted_frame [simp]:
  "accounted (s\<lparr>ing_ch := x\<rparr>) = accounted s" "accounted (s\<lparr>ing_closed := b\<rparr>) = accounted s"
  "accounted (s\<lparr>ing_bufBytes := n\<rparr>) = accounted s" "accounted (s\<lparr>ing_stopReplay := b\<rparr>) = accounted s"
  "accounted (s\<lparr>ing_draining := b\<rparr>) = accounted s"
  by (simp_all add: accounted_def)

lemma enqueue_cases:
  assumes "enqueue cfg rows ip s = ((accepted, dropped), s')"
  obtains "accepted = int (length rows)" "dropped = 0" "fits cfg (enqueue_lines rows ip) s"
      "s' = s\<lparr>ing_ch := ing_ch s @ enqueue_lines rows ip, ing_bufBytes := ing_bufBytes s + line_bytes (enqueue_lines rows ip)\<rparr>"
    | "accepted = 0" "dropped = int (length rows)" "s' = s"
  using assms unfolding enqueue_result by (auto split: if_splits)

lemma fits_bounds:
  "fits cfg ls s \<Longrightarrow> int (length (ing_ch s @ ls)) \<le> bufferSize cfg \<and>
   (0 < bufferMaxBytes cfg \<longrightarrow> ing_bufBytes s + line_bytes ls \<le> bufferMaxBytes cfg)"
  by (simp add: fits_def ing_depth_def)

lemma same_buffer_fields:
  "same_buffer s s' \<Longrightarrow> ing_ch s' = ing_ch s \<and> ing_bufBytes s' = ing_bufBytes s \<and> ing_closed s' = ing_closed s \<and>
     ing_stopReplay s' = ing_stopReplay s \<and> ing_draining s' = ing_draining s"
  by (simp add: same_buffer_def)

lemma flush_fields [simp]:
  "ing_ch (flush sendable cfg pid env os b s) = ing_ch s"
  "ing_bufBytes (flush sendable cfg pid env os b s) = ing_bufBytes s"
  "ing_closed (flush sendable cfg pid env os b s) = ing_closed s"
  "ing_stopReplay (flush sendable cfg pid env os b s) = ing_stopReplay s"
  "ing_draining (flush sendable cfg pid env os b s) = ing_draining s"
  using flush_same_buffer [of s] by (simp_all add: same_buffer_def)

lemma listed_all_replayable [simp]: "list_all replayable (spoolFilesList listed d)"
  using listed_replayable by (auto simp: list_all_iff)

lemma buffer_step:
  assumes "pstep sendable cfg pid p a p'" "buffer_inv cfg p" "control_inv cfg p" "0 \<le> batchSize cfg"
  shows "buffer_inv cfg p'"
  using assms
proof (cases rule: pstep.cases)
  case (enqueue_all rows ip accepted dropped s')
  from enqueue_all(3) show ?thesis
    by (rule enqueue_cases)
      (use enqueue_all(2,4) assms(2) enqueue_lines_one_line [of rows ip]
         fits_bounds [of cfg "enqueue_lines rows ip" "p_ing p"] in \<open>auto simp: buffer_inv_def\<close>)
next
  case (enqueue_none rows ip dropped s')
  from enqueue_none(3) show ?thesis
    by (rule enqueue_cases)
      (use enqueue_none(2,4) assms(2) in \<open>auto simp: buffer_inv_def\<close>)
next
  case (receive line rest batch bytes)
  then have "\<not> batch_full cfg (p_batch p) (p_batchBytes p)" using assms(3) by (simp add: control_inv_def)
  then show ?thesis using receive assms(2) by (auto simp: buffer_inv_def batch_full_def)
next
  case (flush_batch final env os)
  then show ?thesis
    using assms(2) by (auto simp: buffer_inv_def)
next
  case (release_bytes final)
  then show ?thesis
    using assms(2,4) line_bytes_nonneg [of "p_batch p"] by (auto simp: buffer_inv_def)
next
  case (sweep_file name names e go s')
  then show ?thesis
    using assms(2) same_buffer_fields [OF replay_file_same_buffer [OF sweep_file(5)]]
    by (auto simp: buffer_inv_def)
qed (auto simp: buffer_inv_def)

lemma control_step:
  assumes "pstep sendable cfg pid p a p'" "buffer_inv cfg p" "control_inv cfg p" "0 < batchSize cfg"
    "0 \<le> pid" "0 \<le> maxRetries cfg"
  shows "control_inv cfg p'"
  using assms
proof (cases rule: pstep.cases)
  case (enqueue_all rows ip accepted dropped s')
  from enqueue_all(3) show ?thesis
    by (rule enqueue_cases)
      (use enqueue_all(2) assms(3) in \<open>auto simp: control_inv_def fits_def split: worker_pc.splits\<close>)
next
  case (enqueue_none rows ip dropped s')
  from enqueue_none(3) show ?thesis
    by (rule enqueue_cases)
      (use enqueue_none(2,4) assms(3) in \<open>auto simp: control_inv_def\<close>)
next
  case (flush_batch final env os)
  then have "p_batch p \<noteq> []" using assms(3) by (simp add: control_inv_def)
  then have "seqs_used (flush sendable cfg pid env os (p_batch p) (p_ing p))"
    using flush_accounts flush_batch(4) assms(2,3,5,6) by (simp add: control_inv_def buffer_inv_def)
  then show ?thesis
    using flush_batch assms(3) by (auto simp: control_inv_def)
next
  case (release_bytes final)
  then show ?thesis
    using assms(3,4) by (auto simp: control_inv_def batch_full_def maxBatchBytes_def)
next
  case (sweep_file name names e go s')
  then have "replayable name" "list_all replayable names" "seqs_used (p_ing p)"
    using assms(3) by (simp_all add: control_inv_def replay_names_def)
  then show ?thesis
    using sweep_file assms(3) same_buffer_fields [OF replay_file_same_buffer] replay_file_seqs_used
    by (auto simp: control_inv_def replay_names_def split: worker_pc.splits)
next
  case (sweep_start listed)
  then show ?thesis
    using assms(3) by (auto simp: control_inv_def replay_names_def split: worker_pc.splits)
qed (use assms(3) in \<open>auto simp: control_inv_def replay_names_def seqs_used_def split: worker_pc.splits replay_pc.splits\<close>)

section \<open>Refinement: a bounded FIFO queue\<close>

text \<open>
  The abstract machine: a queue of accepted events and the number of events settled, that is
  delivered, counted as lost or waiting on disk. Accepting appends; flushing settles a batch
  from the front; a delivered file that cannot be retired is counted again.
\<close>

record ledger =
  queue :: "string list"
  settled_events :: int

inductive lstep :: "ledger \<Rightarrow> action \<Rightarrow> ledger \<Rightarrow> bool" where
  l_accept: "lstep l (Accept ls) (l\<lparr>queue := queue l @ ls\<rparr>)"
| l_settle: "queue l = batch @ rest \<Longrightarrow>
    lstep l (Flush batch) (l\<lparr>queue := rest, settled_events := settled_events l + int (length batch)\<rparr>)"
| l_again: "\<not> re_remove e \<Longrightarrow> 0 \<le> n \<Longrightarrow>
    lstep l (SweepFile e) (l\<lparr>settled_events := settled_events l + n\<rparr>)"
| l_retired: "lstep l (SweepFile e) l"
| l_other: "a \<notin> range Accept \<union> range Flush \<union> range SweepFile \<Longrightarrow> lstep l a l"

inductive_cases lstep_acceptE: "lstep l (Accept ls) l'"
inductive_cases lstep_flushE: "lstep l (Flush batch) l'"
inductive_cases lstep_sweepE: "lstep l (SweepFile e) l'"

text \<open>The abstraction: a batch that is flushed but whose bytes are not yet released is settled.\<close>

definition unsettled :: "pipeline \<Rightarrow> string list" where
  "unsettled p = (case p_worker p of Releasing _ \<Rightarrow> [] | _ \<Rightarrow> p_batch p) @ ing_ch (p_ing p)"

definition ledger_of :: "pipeline \<Rightarrow> ledger" where
  "ledger_of p = \<lparr>queue = unsettled p, settled_events = accounted (p_ing p)\<rparr>"

locale simulation =
  fixes cstep :: "'s \<Rightarrow> 'a \<Rightarrow> 's \<Rightarrow> bool"
    and astep :: "'t \<Rightarrow> 'a \<Rightarrow> 't \<Rightarrow> bool"
    and inv :: "'s \<Rightarrow> bool"
    and abs :: "'s \<Rightarrow> 't"
  assumes keeps: "cstep s a s' \<Longrightarrow> inv s \<Longrightarrow> inv s'"
    and simulates: "cstep s a s' \<Longrightarrow> inv s \<Longrightarrow> astep (abs s) a (abs s')"
begin

inductive cruns :: "'s \<Rightarrow> 'a list \<Rightarrow> 's \<Rightarrow> bool" where
  "cruns s [] s"
| "cruns s as t \<Longrightarrow> cstep t a u \<Longrightarrow> cruns s (as @ [a]) u"

inductive aruns :: "'t \<Rightarrow> 'a list \<Rightarrow> 't \<Rightarrow> bool" where
  "aruns s [] s"
| "aruns s as t \<Longrightarrow> astep t a u \<Longrightarrow> aruns s (as @ [a]) u"

lemma inv_cruns: "cruns s as s' \<Longrightarrow> inv s \<Longrightarrow> inv s'"
  by (induction rule: cruns.induct) (auto intro: keeps)

lemma run_simulates: "cruns s as s' \<Longrightarrow> inv s \<Longrightarrow> aruns (abs s) as (abs s')"
  by (induction rule: cruns.induct) (auto intro: aruns.intros simulates inv_cruns)

end

definition pipeline_inv :: "config \<Rightarrow> pipeline \<Rightarrow> bool" where
  "pipeline_inv cfg p \<longleftrightarrow> buffer_inv cfg p \<and> control_inv cfg p"

lemma ledger_stutter:
  "a \<notin> range Accept \<union> range Flush \<union> range SweepFile \<Longrightarrow> ledger_of p' = ledger_of p \<Longrightarrow> lstep (ledger_of p) a (ledger_of p')"
  using l_other by metis

lemma ledger_step:
  assumes "pstep sendable cfg pid p a p'" "pipeline_inv cfg p" "0 \<le> pid" "0 \<le> maxRetries cfg"
  shows "lstep (ledger_of p) a (ledger_of p')"
  using assms(1)
proof (cases rule: pstep.cases)
  case (enqueue_all rows ip accepted dropped s')
  have "ledger_of p' = (ledger_of p)\<lparr>queue := queue (ledger_of p) @ enqueue_lines rows ip\<rparr>"
    using enqueue_all(3)
    by (rule enqueue_cases)
      (use enqueue_all(2,4) in \<open>auto simp: ledger_of_def unsettled_def enqueue_lines_def split: worker_pc.split\<close>)
  then show ?thesis using enqueue_all(1) l_accept by metis
next
  case (enqueue_none rows ip dropped s')
  from enqueue_none(3) have "s' = p_ing p" by (rule enqueue_cases) (use enqueue_none(4) in auto)
  then show ?thesis using enqueue_none by (intro ledger_stutter) auto
next
  case (flush_batch final env os)
  have inv: "p_batch p \<noteq> []" "list_all one_line (p_batch p)" "seqs_used (p_ing p)"
    using assms(2) flush_batch(3) by (auto simp: pipeline_inv_def control_inv_def buffer_inv_def)
  have "ledger_of p' = (ledger_of p)\<lparr>queue := ing_ch (p_ing p),
      settled_events := settled_events (ledger_of p) + int (length (p_batch p))\<rparr>"
    using flush_batch(2) flush_accounts [OF inv(3) assms(3) flush_batch(4) assms(4) inv(2,1)]
    by (simp add: ledger_of_def unsettled_def)
  moreover have "queue (ledger_of p) = p_batch p @ ing_ch (p_ing p)"
    using flush_batch(3) by (simp add: ledger_of_def unsettled_def)
  ultimately show ?thesis using l_settle flush_batch(1) by metis
next
  case (sweep_file name names e go s')
  have inv: "replayable name" "dir_ok (ing_dir (p_ing p))"
    using assms(2) sweep_file(3) by (auto simp: pipeline_inv_def control_inv_def replay_names_def seqs_used_def)
  define n where "n = accounted s' - accounted (p_ing p)"
  have "0 \<le> n" "re_remove e \<Longrightarrow> n = 0"
    using replay_file_accounts [OF sweep_file(5) inv(2,1)] by (auto simp: n_def stuck_def)
  moreover have "ledger_of p' = (ledger_of p)\<lparr>settled_events := settled_events (ledger_of p) + n\<rparr>"
    using sweep_file(2) same_buffer_fields [OF replay_file_same_buffer [OF sweep_file(5)]]
    by (auto simp: ledger_of_def unsettled_def n_def split: worker_pc.split)
  ultimately show ?thesis
    using sweep_file(1) l_again [of e n "ledger_of p"] l_retired [of "ledger_of p" e] by (cases "re_remove e") auto
qed ((rule ledger_stutter; auto simp: ledger_of_def unsettled_def accounted_def split: worker_pc.split)+)

text \<open>The interpretation fixes what a deployment fixes: the configuration, the process id and
  whether the insert URL can be parsed.\<close>

record deployment =
  dep_cfg :: config
  dep_pid :: int
  dep_sendable :: "string \<Rightarrow> bool"

definition deployed :: "deployment \<Rightarrow> bool" where
  "deployed d \<longleftrightarrow> ranges_ok (dep_cfg d) \<and> 0 \<le> dep_pid d"

definition dstep :: "deployment \<times> pipeline \<Rightarrow> action \<Rightarrow> deployment \<times> pipeline \<Rightarrow> bool" where
  "dstep s a s' \<longleftrightarrow>
     fst s' = fst s \<and> pstep (dep_sendable (fst s)) (dep_cfg (fst s)) (dep_pid (fst s)) (snd s) a (snd s')"

definition dinv :: "deployment \<times> pipeline \<Rightarrow> bool" where
  "dinv s \<longleftrightarrow> deployed (fst s) \<and> pipeline_inv (dep_cfg (fst s)) (snd s)"

lemma pipeline_step_inv:
  assumes "pstep sendable cfg pid p a p'" "pipeline_inv cfg p" "ranges_ok cfg" "0 \<le> pid"
  shows "pipeline_inv cfg p'"
  using assms buffer_step control_step unfolding pipeline_inv_def ranges_ok_def by (meson less_imp_le)

interpretation pipe: simulation dstep lstep dinv "\<lambda>s. ledger_of (snd s)"
proof
  fix s s' :: "deployment \<times> pipeline" and a
  assume "dstep s a s'" "dinv s"
  then show "dinv s'" "lstep (ledger_of (snd s)) a (ledger_of (snd s'))"
    using pipeline_step_inv ledger_step
    by (auto simp: dstep_def dinv_def deployed_def ranges_ok_def)
qed

lemma runs_cruns: "runs sendable cfg pid p as p' \<Longrightarrow>
  pipe.cruns (\<lparr>dep_cfg = cfg, dep_pid = pid, dep_sendable = sendable\<rparr>, p) as
    (\<lparr>dep_cfg = cfg, dep_pid = pid, dep_sendable = sendable\<rparr>, p')"
proof (induction rule: runs.induct)
  case (runs_step p as q a r)
  have "dstep (\<lparr>dep_cfg = cfg, dep_pid = pid, dep_sendable = sendable\<rparr>, q) a
      (\<lparr>dep_cfg = cfg, dep_pid = pid, dep_sendable = sendable\<rparr>, r)"
    using runs_step(2) by (simp add: dstep_def)
  with runs_step(3) show ?case by (rule pipe.cruns.intros)
qed (rule pipe.cruns.intros)

lemma initial_inv: "initial cfg p \<Longrightarrow> ranges_ok cfg \<Longrightarrow> pipeline_inv cfg p"
  by (auto simp: initial_def pipeline_inv_def buffer_inv_def control_inv_def ranges_ok_def batch_full_def
      maxBatchBytes_def replay_names_def)

lemma reachable_inv:
  "runs sendable cfg pid p as p' \<Longrightarrow> initial cfg p \<Longrightarrow> ranges_ok cfg \<Longrightarrow> 0 \<le> pid \<Longrightarrow> pipeline_inv cfg p'"
  using pipe.inv_cruns [OF runs_cruns] initial_inv by (fastforce simp: dinv_def deployed_def)

lemma reachable_ledger:
  "runs sendable cfg pid p as p' \<Longrightarrow> initial cfg p \<Longrightarrow> ranges_ok cfg \<Longrightarrow> 0 \<le> pid \<Longrightarrow>
   pipe.aruns (ledger_of p) as (ledger_of p')"
  using pipe.run_simulates [OF runs_cruns] initial_inv by (fastforce simp: dinv_def deployed_def)

text \<open>What the abstract machine did, read off the labels.\<close>

definition accepted_lines :: "action list \<Rightarrow> string list" where
  "accepted_lines as = concat (map (\<lambda>a. case a of Accept ls \<Rightarrow> ls | _ \<Rightarrow> []) as)"

definition flushed_lines :: "action list \<Rightarrow> string list" where
  "flushed_lines as = concat (map (\<lambda>a. case a of Flush ls \<Rightarrow> ls | _ \<Rightarrow> []) as)"

definition retires :: "action list \<Rightarrow> bool" where
  "retires as \<longleftrightarrow> (\<forall>a \<in> set as. case a of SweepFile e \<Rightarrow> re_remove e | _ \<Rightarrow> True)"

lemma aruns_history:
  "pipe.aruns l as l' \<Longrightarrow>
     queue l @ accepted_lines as = flushed_lines as @ queue l' \<and>
     settled_events l + int (length (flushed_lines as)) \<le> settled_events l' \<and>
     (retires as \<longrightarrow> settled_events l' = settled_events l + int (length (flushed_lines as)))"
proof (induction rule: pipe.aruns.induct)
  case (2 l as m a n)
  from 2(2) show ?case
    by (cases rule: lstep.cases)
      (use 2(3) in \<open>auto simp: accepted_lines_def flushed_lines_def retires_def split: action.splits\<close>)
qed (simp add: accepted_lines_def flushed_lines_def)

section \<open>What holds of every run\<close>

text \<open>C5: From start to any later moment, in any interleaving of handlers, worker, replay loop and
  shutdown, the accepted events are the flushed ones followed by those still in memory, each
  once and in order; and every flushed event is inserted, counted as dropped or in a
  replayable file. The count can only exceed that when a delivered file cannot be removed.
  (Runs begin with a start that resumed the file numbers, and a batch is flushed while some are
  left.)\<close>

theorem pipeline_refines_queue:
  assumes "runs sendable cfg pid p as p'" "initial cfg p" "ranges_ok cfg" "0 \<le> pid"
  shows "accepted_lines as = flushed_lines as @ unsettled p' \<and>
    accounted (p_ing p) + int (length (flushed_lines as)) \<le> accounted (p_ing p') \<and>
    (retires as \<longrightarrow> accounted (p_ing p') = accounted (p_ing p) + int (length (flushed_lines as)))"
proof -
  have "unsettled p = []" using assms(2) by (simp add: initial_def unsettled_def)
  then show ?thesis
    using aruns_history [OF reachable_ledger [OF assms]] by (simp add: ledger_of_def)
qed

text \<open>C12: At every moment the byte budget counts exactly the bytes in the buffer and in the batch
  under way, BUFFER_MAX_BYTES and BUFFER_SIZE are respected, a batch has at most BATCH_SIZE
  events, and a batch still being filled is below both of its limits.\<close>

theorem buffer_bounded:
  assumes "runs sendable cfg pid p as p'" "initial cfg p" "ranges_ok cfg" "0 \<le> pid"
  shows "ing_bufBytes (p_ing p') = line_bytes (ing_ch (p_ing p')) + line_bytes (p_batch p') \<and>
    (0 < bufferMaxBytes cfg \<longrightarrow> ing_bufBytes (p_ing p') \<le> bufferMaxBytes cfg) \<and>
    int (length (ing_ch (p_ing p'))) \<le> bufferSize cfg \<and> int (length (p_batch p')) \<le> batchSize cfg \<and>
    (p_worker p' = Selecting \<longrightarrow> line_bytes (p_batch p') < maxBatchBytes \<and> int (length (p_batch p')) < batchSize cfg)"
  using reachable_inv [OF assms]
  by (auto simp: pipeline_inv_def buffer_inv_def control_inv_def batch_full_def)

section \<open>Shutdown\<close>

definition worker_action :: "action \<Rightarrow> bool" where
  "worker_action a \<longleftrightarrow> a \<in> {Receive, Tick, Finish, FreeBytes} \<union> range Flush"

definition work_left :: "pipeline \<Rightarrow> nat" where
  "work_left p =
     4 * length (ing_ch (p_ing p)) +
     (case p_worker p of
        Selecting \<Rightarrow> if p_batch p = [] then 1 else 4
      | Flushing _ \<Rightarrow> 3 | Releasing _ \<Rightarrow> 2 | Gone \<Rightarrow> 0)"

lemma worker_decreases:
  "pstep sendable cfg pid p a p' \<Longrightarrow> worker_action a \<Longrightarrow> work_left p' < work_left p"
  by (cases rule: pstep.cases) (auto simp: worker_action_def work_left_def split: worker_pc.splits if_splits)

lemma spool_seq_grows:
  assumes "seqs_used s" "ing_spoolSeq s < 2 ^ 64 - 1"
  shows "ing_spoolSeq (spool cfg pid os body n s) \<le> ing_spoolSeq s + 1"
proof -
  have q: "next_seq (ing_spoolSeq s) = ing_spoolSeq s + 1"
    using assms by (intro next_seq_small) (auto simp: seqs_used_def)
  have ok: "dir_ok (ing_dir s)" using assms(1) by (simp add: seqs_used_def)
  from spool_ends [OF ok, of pid n cfg os body] show ?thesis
    by (auto simp: spool_lost_def spool_kept_def q add_dropped_def updateSpoolGauge_def)
qed

lemma flush_seq_grows:
  assumes "seqs_used s" "ing_spoolSeq s < 2 ^ 64 - 1"
  shows "ing_spoolSeq (flush sendable cfg pid env os b s) \<le> ing_spoolSeq s + 1"
proof -
  have "ing_spoolSeq (spool cfg pid os (flush_body b) n (s\<lparr>ing_m := m\<rparr>)) \<le> ing_spoolSeq s + 1" for n m
    using spool_seq_grows [of "s\<lparr>ing_m := m\<rparr>"] assms by simp
  then show ?thesis by (auto simp: flush_def Let_def add_inserted_def split: option.split)
qed

lemma worker_seq_grows:
  "pstep sendable cfg pid p a p' \<Longrightarrow> worker_action a \<Longrightarrow> control_inv cfg p \<Longrightarrow>
   ing_spoolSeq (p_ing p') \<le> ing_spoolSeq (p_ing p) + 1 \<and> ing_closed (p_ing p') = ing_closed (p_ing p)"
  by (cases rule: pstep.cases) (auto simp: worker_action_def control_inv_def intro: flush_seq_grows [simplified])

lemma worker_progress:
  assumes "control_inv cfg p" "ing_closed (p_ing p)" "p_worker p \<noteq> Gone" "ing_spoolSeq (p_ing p) < 2 ^ 64 - 1"
  shows "\<exists>a p'. worker_action a \<and> pstep sendable cfg pid p a p'"
proof (cases "p_worker p")
  case Selecting
  show ?thesis
  proof (cases "ing_ch (p_ing p)")
    case Nil
    show ?thesis
      by (rule exI [of _ Finish], rule exI, rule conjI [OF _ pstep.channel_closed [OF Selecting Nil assms(2)]])
        (simp add: worker_action_def)
  next
    case (Cons line rest)
    show ?thesis
      by (rule exI [of _ Receive], rule exI, rule conjI [OF _ pstep.receive [OF Selecting Cons refl refl]])
        (simp add: worker_action_def)
  qed
next
  case (Flushing final)
  show ?thesis
    by (rule exI [of _ "Flush (p_batch p)"], rule exI, rule conjI [OF _ pstep.flush_batch [OF Flushing assms(4)]])
      (simp add: worker_action_def)
next
  case (Releasing final)
  show ?thesis
    by (rule exI [of _ FreeBytes], rule exI, rule conjI [OF _ pstep.release_bytes [OF Releasing]])
      (simp add: worker_action_def)
qed (use assms(3) in simp)

lemma runs_append:
  "runs sendable cfg pid q bs r \<Longrightarrow> runs sendable cfg pid p as q \<Longrightarrow> runs sendable cfg pid p (as @ bs) r"
proof (induction rule: runs.induct)
  case (runs_step q bs r a t)
  then show ?case using runs.runs_step [of sendable cfg pid p "as @ bs" r a t] by simp
qed simp

lemma runs_Cons:
  assumes "pstep sendable cfg pid p a q" "runs sendable cfg pid q as r"
  shows "runs sendable cfg pid p (a # as) r"
proof -
  have "runs sendable cfg pid p ([] @ [a]) q" by (rule runs.runs_step [OF runs.runs_none assms(1)])
  from runs_append [OF assms(2) this] show ?thesis by simp
qed

lemma worker_finishes:
  "pipeline_inv cfg p \<Longrightarrow> ing_closed (p_ing p) \<Longrightarrow> ing_spoolSeq (p_ing p) + int (work_left p) < 2 ^ 64 - 1 \<Longrightarrow>
   ranges_ok cfg \<Longrightarrow> 0 \<le> pid \<Longrightarrow>
   \<exists>as q. runs sendable cfg pid p as q \<and> list_all worker_action as \<and> length as \<le> work_left p \<and>
     p_worker q = Gone \<and> pipeline_inv cfg q"
proof (induction "work_left p" arbitrary: p rule: less_induct)
  case less
  show ?case
  proof (cases "p_worker p = Gone")
    case True
    then show ?thesis using less.prems(1) runs.runs_none by (intro exI [of _ "[]"] exI [of _ p]) simp
  next
    case False
    have ctl: "control_inv cfg p" using less.prems(1) by (simp add: pipeline_inv_def)
    have "ing_spoolSeq (p_ing p) < 2 ^ 64 - 1" using less.prems(3) by linarith
    then obtain a p' where s: "worker_action a" "pstep sendable cfg pid p a p'"
      using worker_progress [OF ctl less.prems(2) False] by blast
    have d: "work_left p' < work_left p" by (rule worker_decreases [OF s(2,1)])
    have g: "ing_spoolSeq (p_ing p') \<le> ing_spoolSeq (p_ing p) + 1" "ing_closed (p_ing p')"
      using worker_seq_grows [OF s(2,1) ctl] less.prems(2) by simp_all
    have "ing_spoolSeq (p_ing p') + int (work_left p') < 2 ^ 64 - 1" using g(1) d less.prems(3) by linarith
    then obtain as q where r: "runs sendable cfg pid p' as q" "list_all worker_action as"
      "length as \<le> work_left p'" "p_worker q = Gone" "pipeline_inv cfg q"
      using less.hyps [OF d pipeline_step_inv [OF s(2) less.prems(1,4,5)] g(2) _ less.prems(4,5)] by blast
    then show ?thesis
      using runs_Cons [OF s(2) r(1)] s(1) d by (intro exI [of _ "a # as"] exI [of _ q]) simp
  qed
qed

lemma worker_run_bound:
  "runs sendable cfg pid p as q \<Longrightarrow> list_all worker_action as \<Longrightarrow> work_left q + length as \<le> work_left p"
proof (induction rule: runs.induct)
  case (runs_step p as q a r)
  then show ?case using worker_decreases [OF runs_step(2)] by fastforce
qed simp

text \<open>Once \<open>stop\<close> has closed the buffer the worker is never stuck and cannot run for ever: it
  has a run of at most four steps per buffered event and four more that ends with the
  goroutine gone, the buffer empty and no byte held, and no run of it is longer.\<close>

theorem shutdown_drains:
  assumes "runs sendable cfg pid p as p'" "initial cfg p" "ranges_ok cfg" "0 \<le> pid"
    "ing_closed (p_ing p')" "ing_spoolSeq (p_ing p') + 4 * int (length (ing_ch (p_ing p'))) + 4 < 2 ^ 64 - 1"
  shows "(\<exists>bs q. runs sendable cfg pid p' bs q \<and> list_all worker_action bs \<and> p_worker q = Gone \<and>
      unsettled q = [] \<and> ing_bufBytes (p_ing q) = 0) \<and>
    (\<forall>bs q. runs sendable cfg pid p' bs q \<and> list_all worker_action bs \<longrightarrow>
      length bs \<le> 4 * length (ing_ch (p_ing p')) + 4)"
proof -
  have inv: "pipeline_inv cfg p'" by (rule reachable_inv [OF assms(1-4)])
  have le: "work_left p' \<le> 4 * length (ing_ch (p_ing p')) + 4"
    by (simp add: work_left_def split: worker_pc.split)
  then have "ing_spoolSeq (p_ing p') + int (work_left p') < 2 ^ 64 - 1" using assms(6) by linarith
  then obtain bs q where r: "runs sendable cfg pid p' bs q" "list_all worker_action bs" "p_worker q = Gone" "pipeline_inv cfg q"
    using worker_finishes [OF inv assms(5) _ assms(3,4)] by blast
  have "unsettled q = [] \<and> ing_bufBytes (p_ing q) = 0"
    using r(3,4) by (simp add: pipeline_inv_def control_inv_def buffer_inv_def unsettled_def)
  then show ?thesis
    using r worker_run_bound [of sendable cfg pid p'] le by (meson add_leD2 le_trans)
qed

text \<open>When the worker is gone, everything that was ever accepted is accounted for: inserted, counted
  as dropped or in a replayable file; more than that only when a delivered file stayed.\<close>

lemma pipeline_gone_accounts:
  assumes "runs sendable cfg pid p as p'" "initial cfg p" "ranges_ok cfg" "0 \<le> pid" "p_worker p' = Gone"
  shows "accounted (p_ing p) + int (length (accepted_lines as)) \<le> accounted (p_ing p')"
    "retires as \<Longrightarrow> accounted (p_ing p') = accounted (p_ing p) + int (length (accepted_lines as))"
proof -
  have "unsettled p = []" using assms(2) by (simp add: initial_def unsettled_def)
  moreover have "unsettled p' = []"
    using reachable_inv [OF assms(1-4)] assms(5) by (simp add: pipeline_inv_def control_inv_def unsettled_def)
  ultimately show "accounted (p_ing p) + int (length (accepted_lines as)) \<le> accounted (p_ing p')"
    "retires as \<Longrightarrow> accounted (p_ing p') = accounted (p_ing p) + int (length (accepted_lines as))"
    using aruns_history [OF reachable_ledger [OF assms(1-4)]] by (auto simp: ledger_of_def)
qed

section \<open>A run\<close>

definition race_config :: config where
  "race_config = demo_config\<lparr>spoolDir := ''s'', spoolMaxFiles := 1, spoolMaxBytes := 0, bufferMaxBytes := 0, batchSize := 1\<rparr>"

lemma race_config_simps [simp]:
  "spoolDir race_config = ''s''" "spoolMaxFiles race_config = 1" "spoolMaxBytes race_config = 0"
  "bufferMaxBytes race_config = 0" "batchSize race_config = 1" "bufferSize race_config = 4" "maxRetries race_config = 1"
  by (simp_all add: race_config_def demo_config_def)

lemma race_config_ok: "ranges_ok race_config"
  using demo_config_ok by (simp add: ranges_ok_def race_config_def)

text \<open>A database that rejects everything.\<close>

definition rejecting :: "nat \<Rightarrow> attempt_env" where
  "rejecting k = \<lparr>at_drain = False, at_draining = False, at_reply = Reply 400 [], at_seconds = Fin 0\<rparr>"

lemma rejected_flush:
  "\<exists>m. flush (\<lambda>_. True) race_config pid rejecting os batch s =
     spool race_config pid os (flush_body batch) (int (length batch)) (s\<lparr>ing_m := m\<rparr>) \<and>
     m_spoolFiles m = m_spoolFiles (ing_m s)"
  by (rule exI [of _ "(ing_m s)\<lparr>m_insertDur := hist_observe (Fin 0) (m_insertDur (ing_m s)),
        m_insertFailed := m_insertFailed (ing_m s) + 1\<rparr>"])
    (simp add: flush_def insertWithRetry_def rejecting_def insertOnce_result attempt_error_def Let_def
      numeral_2_eq_2 nat_add_distrib)

lemma spool_adds_file:
  assumes "seqs_used s" "0 \<le> pid" "ing_spoolSeq s < 2 ^ 64 - 1" "no_folder (ing_dir s)"
    "m_spoolFiles (ing_m s) < 1"
  shows "let s' = spool race_config pid demo_os body n s in
    spool_files (ing_dir s') = spool_files (ing_dir s) + 1 \<and> no_folder (ing_dir s') \<and>
    ing_spoolSeq s' = ing_spoolSeq s + 1 \<and> m_spoolFiles (ing_m s') = spool_files (ing_dir s')"
proof -
  define name where "name = spoolFileName pid (ing_spoolSeq s + 1)"
  have q: "next_seq (ing_spoolSeq s) = ing_spoolSeq s + 1"
    using assms(1,3) by (intro next_seq_small) (auto simp: seqs_used_def)
  have ok: "dir_ok (ing_dir s)" using assms(1) by (simp add: seqs_used_def)
  have free: "map_of (ing_dir s) (name @ ext) = None" for ext
    using seq_name_free [OF assms(1,2), of "ing_spoolSeq s + 1" ext] assms(3,4) by (auto simp: name_def no_folder_def)
  have nf: "map_of (ing_dir s) m \<noteq> Some Folder" for m using assms(4) by (simp add: no_folder_def)
  have r: "spool race_config pid demo_os body n s =
      updateSpoolGauge True (\<lambda>_. True) (s\<lparr>ing_spoolSeq := ing_spoolSeq s + 1,
        ing_dir := dir_put name body (dir_del (name @ ''.tmp'') (dir_put (name @ ''.tmp'') body (ing_dir s)))\<rparr>)"
    using assms(5) nf by (simp add: spool_def q Let_def demo_os_def dir_rename_def spool_simps name_def [symmetric])
  have w: "file_weight name (Plain body) = 1" by (simp add: file_weight_def name_def)
  show ?thesis
    unfolding r Let_def using free [of "[]"] free [of "''.tmp''"] nf w ok
    by (simp add: spool_files_sum spool_simps no_folder_def updateSpoolGauge_def)
qed

text \<open>One event on its way from a handler to the spool of a server that rejects everything.\<close>

definition demo_start :: pipeline where
  "demo_start = \<lparr>p_ing = demo_ingester [], p_batch = [], p_batchBytes = 0, p_worker = Selecting, p_replay = Waiting\<rparr>"

lemma demo_start_initial: "initial cfg demo_start"
  using demo_empty_spool by (simp add: initial_def demo_start_def demo_ingester_def newIngester_def updateSpoolGauge_def)

definition demo_lines :: "string list" where
  "demo_lines = enqueue_lines [\<lparr>row_timestamp = [], row_project = ''p'', row_level = ''info'', row_message = ''m'',
     row_context = ''{}'', row_source_ip = []\<rparr>] ''10.0.0.1''"

lemma one_event_spooled:
  assumes "p_worker p = Selecting" "p_batch p = []" "ing_ch (p_ing p) = []" "\<not> ing_closed (p_ing p)"
    "m_spoolFiles (ing_m (p_ing p)) < 1" "seqs_used (p_ing p)" "ing_spoolSeq (p_ing p) < 2 ^ 64 - 1"
    "no_folder (ing_dir (p_ing p))"
  shows "\<exists>p'. runs (\<lambda>_. True) race_config 1 p [Accept demo_lines, Receive, Flush demo_lines, FreeBytes] p' \<and>
    p_worker p' = Selecting \<and> p_batch p' = [] \<and> ing_ch (p_ing p') = [] \<and> \<not> ing_closed (p_ing p') \<and>
    p_replay p' = p_replay p \<and> ing_draining (p_ing p') = ing_draining (p_ing p) \<and>
    ing_stopReplay (p_ing p') = ing_stopReplay (p_ing p) \<and> seqs_used (p_ing p') \<and> no_folder (ing_dir (p_ing p')) \<and>
    ing_spoolSeq (p_ing p') = ing_spoolSeq (p_ing p) + 1 \<and>
    spool_files (ing_dir (p_ing p')) = spool_files (ing_dir (p_ing p)) + 1"
proof -
  define rows where "rows = [\<lparr>row_timestamp = [], row_project = ''p'', row_level = ''info'', row_message = ''m'',
     row_context = ''{}'', row_source_ip = []\<rparr>]"
  have ls: "enqueue_lines rows ''10.0.0.1'' = demo_lines" by (simp add: demo_lines_def rows_def)
  obtain line where line: "demo_lines = [line]" by (simp add: demo_lines_def enqueue_lines_def)
  have "fits race_config demo_lines (p_ing p)" using assms(3,4) unfolding line by (simp add: fits_def ing_depth_def)
  then have e: "enqueue race_config rows ''10.0.0.1'' (p_ing p) =
      ((1, 0), (p_ing p)\<lparr>ing_ch := [line], ing_bufBytes := ing_bufBytes (p_ing p) + line_bytes [line]\<rparr>)"
    by (simp add: enqueue_result ls line assms(3)) (simp add: rows_def)
  define p1 where "p1 = p\<lparr>p_ing := (p_ing p)\<lparr>ing_ch := [line], ing_bufBytes := ing_bufBytes (p_ing p) + line_bytes [line]\<rparr>\<rparr>"
  have s1: "pstep (\<lambda>_. True) race_config 1 p (Accept demo_lines) p1"
    using pstep.enqueue_all [OF e, of "\<lambda>_. True" 1] by (simp add: p1_def ls)
  define p2 where "p2 = p1\<lparr>p_ing := (p_ing p1)\<lparr>ing_ch := []\<rparr>, p_batch := [line],
    p_batchBytes := p_batchBytes p1 + int (length line), p_worker := Flushing False\<rparr>"
  have s2: "pstep (\<lambda>_. True) race_config 1 p1 Receive p2"
    using pstep.receive [of p1 line "[]" "[line]" _ "\<lambda>_. True" race_config 1] assms(1,2)
    by (simp add: p1_def p2_def batch_full_def)
  obtain m where m: "flush (\<lambda>_. True) race_config 1 rejecting demo_os [line] (p_ing p2) =
      spool race_config 1 demo_os (flush_body [line]) 1 ((p_ing p2)\<lparr>ing_m := m\<rparr>)"
    "m_spoolFiles m = m_spoolFiles (ing_m (p_ing p2))"
    using rejected_flush [of 1 demo_os "[line]" "p_ing p2"] by auto
  define s3 where "s3 = spool race_config 1 demo_os (flush_body [line]) 1 ((p_ing p2)\<lparr>ing_m := m\<rparr>)"
  define p3 where "p3 = p2\<lparr>p_ing := s3, p_worker := Releasing False\<rparr>"
  have s3: "pstep (\<lambda>_. True) race_config 1 p2 (Flush demo_lines) p3"
    using pstep.flush_batch [of p2 False "\<lambda>_. True" race_config 1 rejecting demo_os] assms(7) m(1)
    by (simp add: p3_def s3_def p2_def p1_def line)
  define p4 where "p4 = p3\<lparr>p_ing := s3\<lparr>ing_bufBytes := ing_bufBytes s3 - p_batchBytes p3\<rparr>,
    p_batch := [], p_batchBytes := 0, p_worker := Selecting\<rparr>"
  have s4: "pstep (\<lambda>_. True) race_config 1 p3 FreeBytes p4"
    using pstep.release_bytes [of p3 False "\<lambda>_. True" race_config 1] by (simp add: p3_def p4_def)
  have new: "spool_files (ing_dir s3) = spool_files (ing_dir (p_ing p)) + 1" "no_folder (ing_dir s3)"
    "ing_spoolSeq s3 = ing_spoolSeq (p_ing p) + 1" "seqs_used s3" "same_buffer (p_ing p2) s3"
    using spool_adds_file [of "(p_ing p2)\<lparr>ing_m := m\<rparr>" 1 "flush_body [line]" 1]
      spool_keeps_seqs [of "(p_ing p2)\<lparr>ing_m := m\<rparr>" 1 race_config demo_os "flush_body [line]" 1]
      spool_same_buffer [of "p_ing p2" "(p_ing p2)\<lparr>ing_m := m\<rparr>"] assms(5-8) m(2)
    by (simp_all add: s3_def Let_def p2_def p1_def)
  have "runs (\<lambda>_. True) race_config 1 p [Accept demo_lines, Receive, Flush demo_lines, FreeBytes] p4"
    by (intro runs_Cons [OF s1] runs_Cons [OF s2] runs_Cons [OF s3] runs_Cons [OF s4] runs.runs_none)
  then show ?thesis
    using new assms(4) by (intro exI [of _ p4]) (auto simp: p4_def p3_def p2_def p1_def same_buffer_def)
qed

lemma demo_start_facts:
  "p_worker demo_start = Selecting" "p_batch demo_start = []" "ing_ch (p_ing demo_start) = []"
  "\<not> ing_closed (p_ing demo_start)" "m_spoolFiles (ing_m (p_ing demo_start)) = 0" "seqs_used (p_ing demo_start)"
  "ing_spoolSeq (p_ing demo_start) = 0" "no_folder (ing_dir (p_ing demo_start))" "ing_dir (p_ing demo_start) = []"
  "p_replay demo_start = Waiting" "\<not> ing_draining (p_ing demo_start)" "\<not> ing_stopReplay (p_ing demo_start)"
  using demo_empty_spool
  by (simp_all add: demo_start_def demo_ingester_def newIngester_def updateSpoolGauge_def spool_files_def
      plain_names_def no_folder_def)

text \<open>C36: The gauge of a sweep can be stored after the worker has spooled another batch, and is
  then too low: a run within all the rules leaves more replayable files than
  SPOOL_MAX_FILES allows.\<close>

theorem spool_cap_race:
  "\<exists>as p. initial race_config demo_start \<and> ranges_ok race_config \<and>
    runs (\<lambda>_. True) race_config 1 demo_start as p \<and> spoolMaxFiles race_config < spool_files (ing_dir (p_ing p))"
proof -
  note facts = demo_start_facts
  define p1 where "p1 = demo_start\<lparr>p_replay := Sweeping []\<rparr>"
  define p2 where "p2 = demo_start\<lparr>p_replay := Measuring\<rparr>"
  define p3 where "p3 = demo_start\<lparr>p_replay := Storing 0 0\<rparr>"
  have f0: "spool_files [] = 0" by (simp add: spool_files_def plain_names_def)
  have s1: "pstep (\<lambda>_. True) race_config 1 demo_start SweepStart p1"
    using pstep.sweep_start [of demo_start _ _ _ True] facts
    by (simp add: p1_def spoolFilesList_def plain_names_def)
  have s2: "pstep (\<lambda>_. True) race_config 1 p1 SweepEnd p2"
    using pstep.sweep_end [of p1 "[]"] by (simp add: p1_def p2_def)
  have s3: "pstep (\<lambda>_. True) race_config 1 p2 Measure p3"
    using pstep.measure_spool [of p2 _ _ _ True "\<lambda>_. True"] facts f0
    by (simp add: p2_def p3_def spool_bytes_def)
  obtain p4 where p4: "runs (\<lambda>_. True) race_config 1 p3 [Accept demo_lines, Receive, Flush demo_lines, FreeBytes] p4"
    "p_worker p4 = Selecting" "p_batch p4 = []" "ing_ch (p_ing p4) = []" "\<not> ing_closed (p_ing p4)"
    "p_replay p4 = Storing 0 0" "seqs_used (p_ing p4)" "no_folder (ing_dir (p_ing p4))" "ing_spoolSeq (p_ing p4) = 1"
    "spool_files (ing_dir (p_ing p4)) = 1"
    using one_event_spooled [of p3] facts f0 by (auto simp: p3_def)
  define p5 where "p5 = p4\<lparr>p_ing := (p_ing p4)\<lparr>ing_m := (ing_m (p_ing p4))\<lparr>m_spoolFiles := 0, m_spoolBytes := 0\<rparr>\<rparr>,
    p_replay := Waiting\<rparr>"
  have s5: "pstep (\<lambda>_. True) race_config 1 p4 StoreGauge p5"
    unfolding p5_def by (rule pstep.store_gauge [OF p4(6)])
  obtain p6 where p6: "runs (\<lambda>_. True) race_config 1 p5 [Accept demo_lines, Receive, Flush demo_lines, FreeBytes] p6"
    "spool_files (ing_dir (p_ing p6)) = 2"
    using one_event_spooled [of p5] p4 by (auto simp: p5_def)
  have "runs (\<lambda>_. True) race_config 1 demo_start (SweepStart # SweepEnd # Measure #
      [Accept demo_lines, Receive, Flush demo_lines, FreeBytes] @ StoreGauge #
      [Accept demo_lines, Receive, Flush demo_lines, FreeBytes]) p6"
    by (intro runs_Cons [OF s1] runs_Cons [OF s2] runs_Cons [OF s3] runs_append [OF _ p4(1)] runs_Cons [OF s5] p6(1))
  then show ?thesis
    using p6(2) demo_start_initial race_config_ok by (intro exI [of _ p6] exI conjI) (assumption | simp)+
qed

text \<open>One event spooled, and then an orderly stop.\<close>

definition demo_actions :: "action list" where
  "demo_actions = [Accept demo_lines, Receive, Flush demo_lines, FreeBytes, Drain, StopReplay, CloseBuffer]"

lemma demo_stop:
  obtains p where "runs (\<lambda>_. True) race_config 1 demo_start demo_actions p" "ing_closed (p_ing p)"
    "ing_ch (p_ing p) = []" "ing_spoolSeq (p_ing p) = 1" "p_worker p = Selecting" "p_batch p = []"
    "runs (\<lambda>_. True) race_config 1 demo_start (demo_actions @ [Finish]) (p\<lparr>p_worker := Gone\<rparr>)"
proof -
  obtain p4 where p4: "runs (\<lambda>_. True) race_config 1 demo_start [Accept demo_lines, Receive, Flush demo_lines, FreeBytes] p4"
    "p_worker p4 = Selecting" "p_batch p4 = []" "ing_ch (p_ing p4) = []" "ing_spoolSeq (p_ing p4) = 1"
    "\<not> ing_draining (p_ing p4)" "\<not> ing_stopReplay (p_ing p4)" "\<not> ing_closed (p_ing p4)"
    using one_event_spooled [of demo_start] demo_start_facts by auto
  define p5 where "p5 = p4\<lparr>p_ing := (p_ing p4)\<lparr>ing_draining := True\<rparr>\<rparr>"
  define p6 where "p6 = p5\<lparr>p_ing := (p_ing p5)\<lparr>ing_stopReplay := True\<rparr>\<rparr>"
  define p7 where "p7 = p6\<lparr>p_ing := (p_ing p6)\<lparr>ing_closed := True\<rparr>\<rparr>"
  have s: "pstep (\<lambda>_. True) race_config 1 p4 Drain p5" "pstep (\<lambda>_. True) race_config 1 p5 StopReplay p6"
    "pstep (\<lambda>_. True) race_config 1 p6 CloseBuffer p7"
    unfolding p5_def p6_def p7_def
    by (rule pstep.drain pstep.stop_replay pstep.close_buffer; use p4(6-8) in simp)+
  have fin: "pstep (\<lambda>_. True) race_config 1 p7 Finish (p7\<lparr>p_worker := Gone\<rparr>)"
    using pstep.channel_closed [of p7 "\<lambda>_. True" race_config 1] p4(2-4) by (simp add: p5_def p6_def p7_def)
  have "runs (\<lambda>_. True) race_config 1 p4 [Drain, StopReplay, CloseBuffer] p7"
    by (intro runs_Cons [OF s(1)] runs_Cons [OF s(2)] runs_Cons [OF s(3)] runs.runs_none)
  then have r: "runs (\<lambda>_. True) race_config 1 demo_start demo_actions p7"
    using runs_append [OF _ p4(1)] by (fastforce simp: demo_actions_def)
  show thesis
    using that [of p7] r runs.runs_step [OF r fin] p4(2-5) by (simp add: p5_def p6_def p7_def)
qed

lemma demo_deployment: "0 \<le> (1 :: int)" "retires demo_actions" "retires (demo_actions @ [Finish])"
  by (simp_all add: retires_def demo_actions_def)

lemma pipeline_refines_queue_witness:
  "\<exists>p. accepted_lines demo_actions = flushed_lines demo_actions @ unsettled p \<and> ing_closed (p_ing p)"
proof -
  obtain p where p: "runs (\<lambda>_. True) race_config 1 demo_start demo_actions p" "ing_closed (p_ing p)"
    using demo_stop by blast
  show ?thesis
    using pipeline_refines_queue [OF p(1) demo_start_initial race_config_ok demo_deployment(1)] p(2) by blast
qed

lemma buffer_bounded_witness:
  "\<exists>p :: pipeline. int (length (ing_ch (p_ing p))) \<le> 4 \<and> ing_closed (p_ing p)"
proof -
  obtain p where p: "runs (\<lambda>_. True) race_config 1 demo_start demo_actions p" "ing_closed (p_ing p)"
    using demo_stop by blast
  show ?thesis
    using buffer_bounded [OF p(1) demo_start_initial race_config_ok demo_deployment(1)] p(2)
    by (intro exI [of _ p]) auto
qed

lemma shutdown_drains_witness:
  "\<exists>p bs q. ing_closed (p_ing p) \<and> runs (\<lambda>_. True) race_config 1 p bs q \<and> p_worker q = Gone"
proof -
  obtain p where p: "runs (\<lambda>_. True) race_config 1 demo_start demo_actions p" "ing_closed (p_ing p)"
    "ing_ch (p_ing p) = []" "ing_spoolSeq (p_ing p) = 1"
    using demo_stop by blast
  show ?thesis
    using shutdown_drains [OF p(1) demo_start_initial race_config_ok demo_deployment(1) p(2)] p(2-4) by auto
qed

lemma demo_run_accounts:
  "\<exists>p :: pipeline. accounted (p_ing p) = accounted (p_ing demo_start) + int (length demo_lines) \<and> p_worker p = Gone"
proof -
  obtain p where p: "runs (\<lambda>_. True) race_config 1 demo_start (demo_actions @ [Finish]) (p\<lparr>p_worker := Gone\<rparr>)"
    using demo_stop by blast
  show ?thesis
    using pipeline_gone_accounts(2) [OF p demo_start_initial race_config_ok demo_deployment(1) _ demo_deployment(3)]
    by (intro exI [of _ "p\<lparr>p_worker := Gone\<rparr>"]) (simp add: accepted_lines_def demo_actions_def)
qed

end
