(* ===== verification/Server.thy ===== *)
theory Server
  imports ClientIP RateLimiter ParseFacts Pipeline
begin

text \<open>
  \<open>gateway/server.go\<close>: the server's state, the handlers, the request counter and the
  readiness cache. The clock readings, the decompressor and what other requests do to the
  inflight budget meanwhile are arguments.
\<close>

section \<open>State\<close>

text \<open>The last probe's time (\<open>None\<close> is the zero time), its result, and the single-flight flag.\<close>

record readinessCache =
  rc_ttl :: int
  rc_last :: "int option"
  rc_ok :: bool
  rc_probing :: bool

definition newReadinessCache :: "int \<Rightarrow> readinessCache" where
  "newReadinessCache ttl = \<lparr>rc_ttl = ttl, rc_last = None, rc_ok = False, rc_probing = False\<rparr>"

text \<open>The metrics the server shares with its ingester are \<open>ing_m\<close>.\<close>

record server =
  srv_cfg :: config
  srv_ingest :: ingester
  srv_rl :: "rateLimiter option"
  srv_inflight :: "byteSemaphore option"
  srv_ready :: readinessCache

definition newServer :: "config \<Rightarrow> string \<Rightarrow> string \<Rightarrow> int \<Rightarrow> dir \<Rightarrow> server" where
  "newServer cfg version commit now d =
     (let m = (newMetrics version commit now)\<lparr>m_bufferCapBytes := bufferMaxBytes cfg,
                m_inflightCapBytes := maxInflightBytes cfg, m_spoolCapBytes := spoolMaxBytes cfg\<rparr>
      in \<lparr>srv_cfg = cfg, srv_ingest = newIngester d m,
          srv_rl = (if f_lt (Fin 0) (rateLimit cfg) then Some (newRateLimiter (rateLimit cfg) (rateBurst cfg) now) else None),
          srv_inflight = (if 0 < maxInflightBytes cfg then Some (newByteSemaphore (maxInflightBytes cfg)) else None),
          srv_ready = newReadinessCache (5 * 1000000000)\<rparr>)"

definition srv_m :: "server \<Rightarrow> metrics" where
  "srv_m s = ing_m (srv_ingest s)"

definition set_m :: "metrics \<Rightarrow> server \<Rightarrow> server" where
  "set_m m s = s\<lparr>srv_ingest := (srv_ingest s)\<lparr>ing_m := m\<rparr>\<rparr>"

section \<open>Answers\<close>

definition bearerChallenge :: string where
  "bearerChallenge = ''Bearer realm='' @ [CHR 0x22] @ ''logden'' @ [CHR 0x22]"

definition writeError :: "nat \<Rightarrow> string \<Rightarrow> response \<Rightarrow> response" where
  "writeError code reason w =
     write_string (''{'' @ [CHR 0x22] @ ''error'' @ [CHR 0x22] @ '':'' @ [CHR 0x22] @ reason @ [CHR 0x22] @ ''}'' @ [CHR 0x0A])
       (write_header code (set_header ''Content-Type'' ''application/json; charset=utf-8'' w))"

definition reject :: "nat \<Rightarrow> string \<Rightarrow> response \<Rightarrow> server \<Rightarrow> response \<times> server" where
  "reject code reason w s = (writeError code reason w, set_m (inc_rejected reason (srv_m s)) s)"

definition reasonOverloaded :: string where
  "reasonOverloaded = ''overloaded''"

section \<open>Authorization\<close>

text \<open>Every token is compared, whatever the others gave.\<close>

definition authorized :: "server \<Rightarrow> request \<Rightarrow> bool" where
  "authorized s r =
     (let tok = bearer r in
      if tok = [] then False
      else foldl (\<lambda>ok t. if secureEqual tok t then True else ok) False (tokens (srv_cfg s)))"

section \<open>/logs\<close>

record logs_env =
  le_now :: int
  le_gunzip :: gunzip
  le_others :: "nat \<Rightarrow> byteSemaphore \<Rightarrow> byteSemaphore"
  le_clock :: "nat \<Rightarrow> time \<times> time"

text \<open>\<open>s.rl == nil || s.rl.allow()\<close>.\<close>

definition rate_allows :: "int \<Rightarrow> server \<Rightarrow> bool \<times> server" where
  "rate_allows now s =
     (case srv_rl s of
        None \<Rightarrow> (True, s)
      | Some rl \<Rightarrow> (case allow now rl of (ok, rl') \<Rightarrow> (ok, s\<lparr>srv_rl := Some rl'\<rparr>)))"

text \<open>The part between the rate limit and the enqueue: the body is read against the budget and
  parsed. The reservation is released when the handler returns; nothing the handler does in
  between looks at the budget, so the model releases it here.\<close>

definition receive_batch :: "logs_env \<Rightarrow> request \<Rightarrow> server \<Rightarrow> batch_result \<times> server" where
  "receive_batch env r s =
     (let bs = (case srv_inflight s of Some b \<Rightarrow> b | None \<Rightarrow> newByteSemaphore 0);
          res = newReservation (srv_inflight s) in
      case parseBatch (le_gunzip env) (srv_cfg s) (le_clock env) (le_others env) r bs res (srv_m s) of
        (out, bs', res', m) \<Rightarrow>
          (out, set_m m (s\<lparr>srv_inflight := map_option (\<lambda>_. fst (release bs' res')) (srv_inflight s)\<rparr>)))"

definition store_batch :: "request \<Rightarrow> row list \<Rightarrow> response \<Rightarrow> server \<Rightarrow> response \<times> server" where
  "store_batch r rows w s =
     (case enqueue (srv_cfg s) rows (clientIP (trustedProxies (srv_cfg s)) r) (srv_ingest s) of
        ((accepted, dropped), ing) \<Rightarrow>
          (let s1 = s\<lparr>srv_ingest := ing\<rparr>;
               m = (srv_m s1)\<lparr>m_received := m_received (srv_m s1) + accepted,
                      m_projects := projects_observe rows accepted (m_projects (srv_m s1))\<rparr> in
           if 0 < dropped then
             (writeError 503 ''buffer_full'' (set_header ''Retry-After'' ''1'' w),
              set_m (m\<lparr>m_dropped := m_dropped m + dropped\<rparr>) s1)
           else (write_header 204 w, set_m m s1)))"

definition handleLogs :: "logs_env \<Rightarrow> request \<Rightarrow> response \<Rightarrow> server \<Rightarrow> response \<times> server" where
  "handleLogs env r w s =
     (if req_method r \<noteq> ''POST'' then reject 405 ''method'' (set_header ''Allow'' ''POST'' w) s
      else if \<not> authorized s r then reject 401 ''auth'' (set_header ''WWW-Authenticate'' bearerChallenge w) s
      else
        (case rate_allows (le_now env) s of
           (False, s1) \<Rightarrow> reject 429 ''rate_limited'' (set_header ''Retry-After'' ''1'' w) s1
         | (True, s1) \<Rightarrow>
             (case receive_batch env r s1 of
                (Rejected code reason, s2) \<Rightarrow>
                  reject code reason
                    (if reason = reasonOverloaded then set_header ''Retry-After'' ''1'' w else w) s2
              | (Rows rows, s2) \<Rightarrow> store_batch r rows w s2)))"

section \<open>The other endpoints\<close>

definition handleHealthz :: "response \<Rightarrow> response" where
  "handleHealthz w = write_string (''ok'' @ [CHR 0x0A]) w"

text \<open>\<open>encoding/json\<close> orders the keys of a map.\<close>

definition handleVersion :: "string \<Rightarrow> string \<Rightarrow> string \<Rightarrow> string \<Rightarrow> response \<Rightarrow> response" where
  "handleVersion version commit buildDate go_version w =
     write_string (''{'' @ join '','' (map (\<lambda>(k, v). quote True k @ '':'' @ quote True v)
         [(''build_date'', buildDate), (''commit'', commit), (''go'', go_version), (''version'', version)]) @
         ''}'' @ [CHR 0x0A])
       (set_header ''Content-Type'' ''application/json'' w)"

definition handleMetrics :: "(string \<Rightarrow> bool) \<Rightarrow> string \<Rightarrow> request \<Rightarrow> response \<Rightarrow> server \<Rightarrow> response" where
  "handleMetrics printable go_version r w s =
     (if metricsToken (srv_cfg s) \<noteq> [] \<and> \<not> secureEqual (bearer r) (metricsToken (srv_cfg s))
      then http_error ''Unauthorized'' 401 (set_header ''WWW-Authenticate'' bearerChallenge w)
      else
        write_string
          (render printable go_version (srv_m s)
            \<lparr>g_bufferDepth = ing_depth (srv_ingest s), g_bufferCap = ing_capacity (srv_cfg s),
             g_bufferBytes = depthBytes (srv_ingest s),
             g_inflightBytes = (case srv_inflight s of Some b \<Rightarrow> inUse b | None \<Rightarrow> 0)\<rparr>)
          (set_header ''Content-Type'' ''text/plain; version=0.0.4; charset=utf-8'' w))"

section \<open>Readiness\<close>

text \<open>
  \<open>check\<close> takes the lock twice and probes in between, so it is two steps: entering answers
  from the cache (\<open>Some\<close>) or takes the single flight, leaving stores the probe's result.
\<close>

definition check_enter :: "int \<Rightarrow> readinessCache \<Rightarrow> bool option \<times> readinessCache" where
  "check_enter now rc =
     (let fresh = (case rc_last rc of None \<Rightarrow> False | Some t \<Rightarrow> time_sub now t < rc_ttl rc) in
      if fresh \<or> rc_probing rc then (Some (rc_ok rc), rc) else (None, rc\<lparr>rc_probing := True\<rparr>))"

definition check_leave :: "int \<Rightarrow> bool \<Rightarrow> readinessCache \<Rightarrow> readinessCache" where
  "check_leave now ok rc = rc\<lparr>rc_ok := ok, rc_last := Some now, rc_probing := False\<rparr>"

definition probe_request :: "config \<Rightarrow> ch_request" where
  "probe_request cfg =
     \<lparr>rq_method = ''GET'', rq_url = chBaseURL cfg @ ''/?query=SELECT%201'',
      rq_headers = [(''X-ClickHouse-User'', chUser cfg)] @
        (if chKey cfg \<noteq> [] then [(''X-ClickHouse-Key'', chKey cfg)] else []),
      rq_body = [], rq_timeout = 2 * 1000000000\<rparr>"

definition probe :: "(string \<Rightarrow> bool) \<Rightarrow> config \<Rightarrow> (ch_request \<Rightarrow> reply) \<Rightarrow> bool" where
  "probe sendable cfg db =
     (if \<not> sendable (rq_url (probe_request cfg)) then False
      else case db (probe_request cfg) of
        NoReply \<Rightarrow> False
      | Reply code b \<Rightarrow> code = 200 \<and> trim_space (take 16 b) = ''1'')"

text \<open>One caller on its own: \<open>now\<close> and \<open>now'\<close> are the readings before and after the probe.\<close>

definition check :: "(string \<Rightarrow> bool) \<Rightarrow> (ch_request \<Rightarrow> reply) \<Rightarrow> int \<Rightarrow> int \<Rightarrow> server \<Rightarrow> bool \<times> server" where
  "check sendable db now now' s =
     (case check_enter now (srv_ready s) of
        (Some ok, rc) \<Rightarrow> (ok, s)
      | (None, rc) \<Rightarrow>
          (let ok = probe sendable (srv_cfg s) db;
               s1 = s\<lparr>srv_ready := check_leave now' ok rc\<rparr> in
           (ok, set_m ((srv_m s1)\<lparr>m_chReachable := (if ok then 1 else 0)\<rparr>) s1)))"

text \<open>\<open>loop\<close>: one check at once and one for every tick until the context is done; each comes with
  its readings of the clock and the database as it is then.\<close>

definition ready_loop ::
  "(string \<Rightarrow> bool) \<Rightarrow> int \<times> int \<times> (ch_request \<Rightarrow> reply) \<Rightarrow> (int \<times> int \<times> (ch_request \<Rightarrow> reply)) list \<Rightarrow> server \<Rightarrow> server" where
  "ready_loop sendable first ticks s =
     fold (\<lambda>(now, now', db) t. snd (check sendable db now now' t)) (first # ticks) s"

definition handleReadyz ::
  "(string \<Rightarrow> bool) \<Rightarrow> (ch_request \<Rightarrow> reply) \<Rightarrow> int \<Rightarrow> int \<Rightarrow> response \<Rightarrow> server \<Rightarrow> response \<times> server" where
  "handleReadyz sendable db now now' w s =
     (case check sendable db now now' s of
        (True, s') \<Rightarrow> (write_string (''ready'' @ [CHR 0x0A]) w, s')
      | (False, s') \<Rightarrow> (http_error ''clickhouse unreachable'' 503 w, s'))"

section \<open>The request path\<close>

definition knownPath :: "string \<Rightarrow> string" where
  "knownPath p =
     (if p \<in> {''/logs'', ''/healthz'', ''/readyz'', ''/metrics'', ''/version''} then p else ''other'')"

text \<open>\<open>fallback\<close> is what \<open>http.ServeMux\<close> answers for a path without a handler: 404, or a
  redirect to the cleaned path.\<close>

record serve_env =
  se_logs :: logs_env
  se_sendable :: "string \<Rightarrow> bool"
  se_db :: "ch_request \<Rightarrow> reply"
  se_checked :: int
  se_printable :: "string \<Rightarrow> bool"
  se_build :: "string \<times> string \<times> string \<times> string"
  se_fallback :: "request \<Rightarrow> response \<Rightarrow> response"

definition mux :: "serve_env \<Rightarrow> request \<Rightarrow> response \<Rightarrow> server \<Rightarrow> response \<times> server" where
  "mux env r w s =
     (case se_build env of (version, commit, buildDate, go_version) \<Rightarrow>
      if req_path r = ''/logs'' then handleLogs (se_logs env) r w s
      else if req_path r = ''/healthz'' then (handleHealthz w, s)
      else if req_path r = ''/readyz'' then
        handleReadyz (se_sendable env) (se_db env) (le_now (se_logs env)) (se_checked env) w s
      else if req_path r = ''/version'' then (handleVersion version commit buildDate go_version w, s)
      else if req_path r = ''/metrics'' then (handleMetrics (se_printable env) go_version r w s, s)
      else (se_fallback env r w, s))"

definition securityHeaders :: "response \<Rightarrow> response" where
  "securityHeaders w =
     set_header ''Cache-Control'' ''no-store'' (set_header ''X-Content-Type-Options'' ''nosniff'' w)"

definition request_label :: "request \<Rightarrow> nat \<Rightarrow> string" where
  "request_label r code =
     ''path='' @ [CHR 0x22] @ knownPath (req_path r) @ [CHR 0x22] @ '',code='' @ [CHR 0x22] @
     itoa (int code) @ [CHR 0x22]"

text \<open>The recorder's code is 200 until a handler writes a header.\<close>

definition countRequests ::
  "(request \<Rightarrow> response \<Rightarrow> server \<Rightarrow> response \<times> server) \<Rightarrow> request \<Rightarrow> response \<Rightarrow> server \<Rightarrow> response \<times> server" where
  "countRequests next_handler r w s =
     (case next_handler r w s of
        (w', s') \<Rightarrow>
          (w', set_m ((srv_m s')\<lparr>m_httpReqs := labels_inc (request_label r (response_code w')) (m_httpReqs (srv_m s'))\<rparr>) s'))"

definition serve :: "serve_env \<Rightarrow> request \<Rightarrow> server \<Rightarrow> response \<times> server" where
  "serve env r s = countRequests (mux env) r (securityHeaders new_response) s"

end
