(* ===== verification/ServerFacts.thy ===== *)
theory ServerFacts
  imports Server
begin

text \<open>
  What a request to the server is answered and what it changes: the contract of \<open>/logs\<close>, the
  request counter, and the single flight of the readiness probe.
\<close>

section \<open>Authorization\<close>

lemma authorized_iff: "authorized s r \<longleftrightarrow> bearer r \<noteq> [] \<and> bearer r \<in> set (tokens (srv_cfg s))"
proof -
  have "foldl (\<lambda>ok t. if tok = t then True else ok) b ts \<longleftrightarrow> b \<or> tok \<in> set ts" for tok b and ts :: "string list"
    by (induction ts arbitrary: b) auto
  then show ?thesis by (auto simp: authorized_def Let_def)
qed

section \<open>The reasons\<close>

definition parse_reasons :: "(nat \<times> string) list" where
  "parse_reasons =
     [(400, ''bad_gzip''), (413, ''too_large''), (503, ''overloaded''), (400, ''read_error''), (400, ''empty''),
      (400, ''bad_json''), (413, ''too_many_events''), (400, ''all_invalid'')]"

lemma judge_reasons: "judge_body limit left out = Refused code reason \<Longrightarrow> (code, reason) \<in> set parse_reasons"
  by (auto simp: judge_body_def parse_reasons_def split: read_outcome.splits if_splits)

lemma readBody_reasons:
  "readBody gunzip cfg others r bs res = (Refused code reason, bs', res') \<Longrightarrow> (code, reason) \<in> set parse_reasons"
  by (auto simp: readBody_def Let_def dest: judge_reasons split: if_splits option.splits prod.splits)
    (simp add: parse_reasons_def)

lemma parse_data_reasons:
  "parse_data cfg clock data m = (Rejected code reason, m') \<Longrightarrow>
   (code, reason) \<in> set parse_reasons \<and> reason \<noteq> ''overloaded''"
  by (auto simp: parse_data_def Let_def parse_reasons_def split: if_splits elements.splits prod.splits)

lemma parseBatch_reasons:
  "parseBatch gunzip cfg clock others r bs res m = (Rejected code reason, bs', res', m') \<Longrightarrow>
   (code, reason) \<in> set parse_reasons"
  by (auto simp: parseBatch_def dest: readBody_reasons parse_data_reasons split: prod.splits body_result.splits)

lemma parse_reasons_503: "(503, reason) \<in> set parse_reasons \<longleftrightarrow> reason = ''overloaded''"
  "(code, ''overloaded'') \<in> set parse_reasons \<Longrightarrow> code = 503" "(204, reason) \<notin> set parse_reasons"
  "(429, reason) \<notin> set parse_reasons" "(405, reason) \<notin> set parse_reasons" "(401, reason) \<notin> set parse_reasons"
  by (auto simp: parse_reasons_def)

section \<open>What parsing leaves alone\<close>

text \<open>The metrics a parse can change are the three labelled counters.\<close>

lemma event_rows_frame:
  "event_rows cfg clock k raws m = (rows, m') \<Longrightarrow> element_frame m m'"
proof (induction raws arbitrary: k m rows m')
  case Nil
  then show ?case by (simp add: element_frame_refl)
next
  case (Cons raw raws)
  obtain ro m1 where r: "event_row cfg (clock k) raw m = (ro, m1)" by (cases "event_row cfg (clock k) raw m")
  obtain rs m2 where rs: "event_rows cfg clock (Suc k) raws m1 = (rs, m2)"
    by (cases "event_rows cfg clock (Suc k) raws m1")
  have "element_frame m m1" using event_row_frame [OF r] by (simp add: element_frame_def)
  then show ?case using Cons.IH [OF rs] Cons.prems r rs element_frame_trans by auto
qed

lemma parse_data_frame: "parse_data cfg clock data m = (out, m') \<Longrightarrow> element_frame m m'"
  by (auto simp: parse_data_def Let_def element_frame_refl split: if_splits elements.splits prod.splits
      dest: event_rows_frame)

lemma parseBatch_frame:
  "parseBatch gunzip cfg clock others r bs res m = (out, bs', res', m') \<Longrightarrow> element_frame m m'"
  by (auto simp: parseBatch_def element_frame_refl split: prod.splits body_result.splits dest: parse_data_frame)

lemma element_frame_counters:
  "element_frame m m' \<Longrightarrow> m_received m' = m_received m \<and> m_inserted m' = m_inserted m \<and> m_dropped m' = m_dropped m"
  unfolding element_frame_def
  by (metis metrics.select_convs(1-3) metrics.surjective metrics.update_convs(10-12))

lemma parseBatch_rows:
  assumes "parseBatch gunzip cfg clock others r bs res m = (Rows rows, bs', res', m')"
    "ranges_ok cfg" "\<forall>i. time_ok (snd (clock i))"
  shows "rows \<noteq> [] \<and> list_all (row_ok cfg) rows"
proof -
  obtain data where d: "parse_data cfg clock data m = (Rows rows, m')"
    using assms(1) by (auto simp: parseBatch_def split: prod.splits body_result.splits)
  then obtain raws where "event_rows cfg clock 0 raws m = (rows, m')" "rows \<noteq> []"
    by (auto simp: parse_data_def Let_def split: if_splits elements.splits prod.splits)
  then show ?thesis using event_rows_spec assms(2,3) by blast
qed

section \<open>The rows of a request\<close>

text \<open>The row of one element of a batch, \<open>None\<close> when it is no valid event; the counters play no
  part in it.\<close>

definition element_row :: "config \<Rightarrow> time \<times> time \<Rightarrow> string \<Rightarrow> row option" where
  "element_row cfg now raw =
     (case unmarshal_event (sanitise raw) of
        None \<Rightarrow> None
      | Some e \<Rightarrow> fst (buildRow cfg (fst now) (snd now) e (newMetrics [] [] 0)))"

definition element_rows :: "config \<Rightarrow> (nat \<Rightarrow> time \<times> time) \<Rightarrow> nat \<Rightarrow> string list \<Rightarrow> row list" where
  "element_rows cfg clock k raws = List.map_filter (\<lambda>(i, raw). element_row cfg (clock i) raw) (enumerate k raws)"

text \<open>What a body says: the bytes sent, or those they decompress to, all of them.\<close>

definition body_data :: "logs_env \<Rightarrow> config \<Rightarrow> request \<Rightarrow> string \<Rightarrow> bool" where
  "body_data env cfg r data \<longleftrightarrow>
     (if equal_fold (header_get r ''Content-Encoding'') ''gzip''
      then \<exists>stream used. le_gunzip env (limit_reader (maxBodyBytes cfg + 1) (req_body r)) = Some (stream, used) \<and>
        data = stream_data stream \<and> \<not> stream_fails stream
      else data = stream_data (req_body r) \<and> \<not> stream_fails (req_body r))"

definition body_rows :: "logs_env \<Rightarrow> config \<Rightarrow> request \<Rightarrow> row list \<Rightarrow> bool" where
  "body_rows env cfg r rows \<longleftrightarrow>
     (\<exists>data raws. body_data env cfg r data \<and> int (length data) \<le> maxBodyBytes cfg \<and>
       batch_elements (maxBatchEvents cfg) (skip_spaces data) = Elements raws \<and>
       rows = element_rows cfg (le_clock env) 0 raws)"

lemma buildRow_row_only: "fst (buildRow cfg now now' e m) = fst (buildRow cfg now now' e m')"
  by (auto simp: buildRow_def Let_def case_prod_beta)

lemma event_row_element: "fst (event_row cfg now raw m) = element_row cfg now raw"
  using buildRow_row_only [of cfg "fst now" "snd now" _ m "newMetrics [] [] 0"]
  by (auto simp: event_row_def element_row_def case_prod_beta split: option.splits)

lemma event_rows_elements: "fst (event_rows cfg clock k raws m) = element_rows cfg clock k raws"
proof (induction raws arbitrary: k m)
  case (Cons raw raws)
  then show ?case
    using event_row_element [of cfg "clock k" raw m]
    by (auto simp: element_rows_def List.map_filter_simps case_prod_beta split: option.splits)
qed (simp add: element_rows_def List.map_filter_simps)

lemma parse_data_rows:
  assumes "parse_data cfg clock data m = (Rows rows, m')"
  shows "data \<noteq> [] \<and> (\<exists>raws. batch_elements (maxBatchEvents cfg) (skip_spaces data) = Elements raws \<and>
    rows = element_rows cfg clock 0 raws)"
proof -
  have "skip_spaces data \<noteq> []" using assms by (auto simp: parse_data_def Let_def split: if_splits)
  then have "data \<noteq> []" by auto
  then show ?thesis
    using assms event_rows_elements [of cfg clock 0]
    by (auto simp: parse_data_def Let_def case_prod_beta split: if_splits elements.splits)
qed

text \<open>A body that is read to its end was read whole.\<close>

lemma judge_whole:
  assumes "read_all others 0 (limit_reader (i64 (limit + 1)) body) 0 bs res = (out, bs', res')"
    "judge_body limit left out = Body data" "0 < limit" "limit < 2 ^ 63" "data \<noteq> []"
  shows "data = stream_data body \<and> \<not> stream_fails body \<and> i64 (limit + 1) = limit + 1 \<and> int (length data) \<le> limit"
proof -
  have out: "out = AllRead data" "int (length data) \<le> limit"
    using assms(2) by (auto simp: judge_body_def split: read_outcome.splits if_splits)
  then have d: "data = take (nat (i64 (limit + 1))) (stream_data body)" "\<not> stream_fails (limit_reader (i64 (limit + 1)) body)"
    using read_all_spec [OF assms(1)] by (simp_all add: limit_reader_data)
  have "i64 (limit + 1) = limit + 1"
  proof (cases "limit = 2 ^ 63 - 1")
    case True
    then have "i64 (limit + 1) = - (2 ^ 63)" by (simp add: i64_def)
    then show ?thesis using d(1) assms(5) by simp
  qed (use assms(3,4) in \<open>intro i64_id; simp\<close>)
  then show ?thesis using d out(2) assms(3) by (auto simp: limit_reader_fails)
qed

lemma receive_batch_body:
  assumes "receive_batch env r s = (Rows rows, s')" "0 < maxBodyBytes (srv_cfg s)" "maxBodyBytes (srv_cfg s) < 2 ^ 63"
  shows "body_rows env (srv_cfg s) r rows"
proof -
  let ?cfg = "srv_cfg s"
  obtain bs res bs' res' m where p: "parseBatch (le_gunzip env) ?cfg (le_clock env) (le_others env) r bs res (srv_m s) =
      (Rows rows, bs', res', m)"
    using assms(1) by (auto simp: receive_batch_def Let_def split: prod.splits)
  then obtain data where d: "fst (readBody (le_gunzip env) ?cfg (le_others env) r bs res) = Body data"
    "parse_data ?cfg (le_clock env) data (srv_m s) = (Rows rows, m)"
    by (auto simp: parseBatch_def split: prod.splits body_result.splits)
  note rows = parse_data_rows [OF d(2)]
  have "body_data env ?cfg r data \<and> int (length data) \<le> maxBodyBytes ?cfg"
  proof (cases "equal_fold (header_get r ''Content-Encoding'') ''gzip''")
    case True
    then obtain stream used out b2 r2 where g:
      "le_gunzip env (limit_reader (i64 (maxBodyBytes ?cfg + 1)) (req_body r)) = Some (stream, used)"
      "read_all (le_others env) 0 (limit_reader (i64 (maxBodyBytes ?cfg + 1)) stream) 0 bs res = (out, b2, r2)"
      "judge_body (maxBodyBytes ?cfg) (\<lambda>_. i64 (maxBodyBytes ?cfg + 1) - used) out = Body data"
      using d(1) by (auto simp: readBody_def Let_def split: option.splits prod.splits)
    then show ?thesis using judge_whole [OF g(2,3) assms(2,3)] rows True by (auto simp: body_data_def)
  next
    case False
    then obtain out b2 r2 where g:
      "read_all (le_others env) 0 (limit_reader (i64 (maxBodyBytes ?cfg + 1)) (req_body r)) 0 bs res = (out, b2, r2)"
      "judge_body (maxBodyBytes ?cfg) (\<lambda>d. i64 (maxBodyBytes ?cfg + 1) - d) out = Body data"
      using d(1) by (auto simp: readBody_def Let_def split: prod.splits)
    then show ?thesis using judge_whole [OF g(1,2) assms(2,3)] rows False by (auto simp: body_data_def)
  qed
  then show ?thesis using rows by (auto simp: body_rows_def)
qed

section \<open>The contract of /logs\<close>

text \<open>The counter of rejections never goes back.\<close>

definition rejected_grows :: "metrics \<Rightarrow> metrics \<Rightarrow> bool" where
  "rejected_grows m m' \<longleftrightarrow> (\<forall>l. reading (m_rejected m) l \<le> reading (m_rejected m') l)"

lemma rejected_grows_refl: "rejected_grows m m"
  by (simp add: rejected_grows_def)

lemma rejected_grows_trans: "rejected_grows a b \<Longrightarrow> rejected_grows b c \<Longrightarrow> rejected_grows a c"
  unfolding rejected_grows_def by (meson order_trans)

lemma rejected_grows_inc: "rejected_grows m (inc_rejected reason m)"
  by (simp add: rejected_grows_def inc_rejected_def labels_inc_def)

lemma buildRow_rejected: "buildRow cfg now now' e m = (ro, m') \<Longrightarrow> m_rejected m' = m_rejected m"
  using buildRow_frame [of cfg now now' e m ro m'] by (cases m; cases m') simp

lemma event_row_grows: "event_row cfg now raw m = (ro, m') \<Longrightarrow> rejected_grows m m'"
  using rejected_grows_inc
  by (auto simp: event_row_def rejected_grows_def labels_inc_def inc_rejected_def dest: buildRow_rejected
      split: option.splits prod.splits)

lemma event_rows_grows: "event_rows cfg clock k raws m = (rows, m') \<Longrightarrow> rejected_grows m m'"
proof (induction raws arbitrary: k m rows m')
  case (Cons raw raws)
  obtain ro m1 where r: "event_row cfg (clock k) raw m = (ro, m1)" by (cases "event_row cfg (clock k) raw m")
  obtain rs m2 where rs: "event_rows cfg clock (Suc k) raws m1 = (rs, m2)"
    by (cases "event_rows cfg clock (Suc k) raws m1")
  have "m' = m2" using Cons.prems r rs by simp
  then show ?case using rejected_grows_trans [OF event_row_grows [OF r] Cons.IH [OF rs]] by simp
qed (simp add: rejected_grows_refl)

lemma parseBatch_grows:
  "parseBatch gunzip cfg clock others r bs res m = (out, bs', res', m') \<Longrightarrow> rejected_grows m m'"
  by (auto simp: parseBatch_def parse_data_def Let_def rejected_grows_refl dest: event_rows_grows
      split: prod.splits body_result.splits if_splits elements.splits)

text \<open>What a request leaves alone unless it is answered 204: the buffer and the count of accepted
  events.\<close>

definition not_stored :: "server \<Rightarrow> server \<Rightarrow> bool" where
  "not_stored s s' \<longleftrightarrow>
     same_buffer (srv_ingest s) (srv_ingest s') \<and> m_received (srv_m s') = m_received (srv_m s) \<and>
     m_inserted (srv_m s') = m_inserted (srv_m s)"

definition error_body :: "string \<Rightarrow> string" where
  "error_body reason =
     ''{'' @ [CHR 0x22] @ ''error'' @ [CHR 0x22] @ '':'' @ [CHR 0x22] @ reason @ [CHR 0x22] @ ''}'' @ [CHR 0x0A]"

lemma srv_m_simps [simp]:
  "srv_m (set_m m s) = m" "srv_cfg (set_m m s) = srv_cfg s" "srv_inflight (set_m m s) = srv_inflight s"
  "srv_rl (set_m m s) = srv_rl s" "srv_ready (set_m m s) = srv_ready s"
  "srv_ingest (set_m m s) = (srv_ingest s)\<lparr>ing_m := m\<rparr>"
  "srv_m (s\<lparr>srv_rl := x\<rparr>) = srv_m s" "srv_m (s\<lparr>srv_inflight := y\<rparr>) = srv_m s" "srv_m (s\<lparr>srv_ready := z\<rparr>) = srv_m s"
  by (simp_all add: srv_m_def set_m_def)

lemma inc_rejected_simps [simp]:
  "m_received (inc_rejected reason m) = m_received m" "m_inserted (inc_rejected reason m) = m_inserted m"
  "m_dropped (inc_rejected reason m) = m_dropped m"
  "reading (m_rejected (inc_rejected reason m)) (label ''reason'' reason) = reading (m_rejected m) (label ''reason'' reason) + 1"
  by (simp_all add: inc_rejected_def labels_inc_def)

lemma writeError_simps [simp]:
  "rsp_status w = None \<Longrightarrow> rsp_status (writeError code reason w) = Some code"
  "rsp_body (writeError code reason w) = rsp_body w @ error_body reason"
  "response_header (writeError code reason w) k =
     (if k = ''Content-Type'' then Some ''application/json; charset=utf-8'' else response_header w k)"
  by (simp_all add: writeError_def error_body_def)

lemma rate_allows_frame:
  "rate_allows now s = (ok, s') \<Longrightarrow> srv_cfg s' = srv_cfg s \<and> srv_ingest s' = srv_ingest s \<and> srv_inflight s' = srv_inflight s"
  by (auto simp: rate_allows_def split: option.splits prod.splits)

lemma receive_batch_frame:
  assumes "receive_batch env r s = (out, s')"
  shows "srv_cfg s' = srv_cfg s \<and> not_stored s s' \<and> m_dropped (srv_m s') = m_dropped (srv_m s) \<and>
    rejected_grows (srv_m s) (srv_m s')"
proof -
  obtain bs' res' m where p: "parseBatch (le_gunzip env) (srv_cfg s) (le_clock env) (le_others env) r
      (case srv_inflight s of Some b \<Rightarrow> b | None \<Rightarrow> newByteSemaphore 0) (newReservation (srv_inflight s)) (srv_m s) =
      (out, bs', res', m)" "s' = set_m m (s\<lparr>srv_inflight := map_option (\<lambda>_. fst (release bs' res')) (srv_inflight s)\<rparr>)"
    using assms by (auto simp: receive_batch_def Let_def split: prod.splits)
  show ?thesis
    using element_frame_counters [OF parseBatch_frame [OF p(1)]] parseBatch_grows [OF p(1)]
    by (simp add: p(2) not_stored_def)
qed

lemma same_buffer_trans: "same_buffer a b \<Longrightarrow> same_buffer b c \<Longrightarrow> same_buffer a c"
  by (simp add: same_buffer_def)

definition reject_reasons :: "(nat \<times> string) list" where
  "reject_reasons = parse_reasons @ [(405, ''method''), (401, ''auth''), (429, ''rate_limited'')]"

text \<open>An answer that is an error: the body names the reason, nothing is stored, and the reason is
  either the full buffer, with all rows of the body counted as dropped, or counted as rejected.\<close>

definition error_answer :: "logs_env \<Rightarrow> request \<Rightarrow> nat \<Rightarrow> response \<Rightarrow> server \<Rightarrow> server \<Rightarrow> bool" where
  "error_answer env r code w' s s' \<longleftrightarrow>
     rsp_status w' = Some code \<and> not_stored s s' \<and>
     (\<exists>reason. rsp_body w' = error_body reason \<and>
       (if reason = ''buffer_full''
        then code = 503 \<and> (\<exists>rows. rows \<noteq> [] \<and> body_rows env (srv_cfg s) r rows \<and>
          m_dropped (srv_m s') = m_dropped (srv_m s) + int (length rows))
        else m_dropped (srv_m s') = m_dropped (srv_m s) \<and> (code, reason) \<in> set reject_reasons \<and>
          reading (m_rejected (srv_m s)) (label ''reason'' reason) <
            reading (m_rejected (srv_m s')) (label ''reason'' reason)))"

text \<open>An answer that stored the batch: the rows of the body, every one and in order.\<close>

definition stored_answer :: "logs_env \<Rightarrow> request \<Rightarrow> response \<Rightarrow> server \<Rightarrow> server \<Rightarrow> bool" where
  "stored_answer env r w' s s' \<longleftrightarrow>
     rsp_status w' = Some 204 \<and> authorized s r \<and> req_method r = ''POST'' \<and>
     m_dropped (srv_m s') = m_dropped (srv_m s) \<and>
     (\<exists>rows. rows \<noteq> [] \<and> body_rows env (srv_cfg s) r rows \<and> list_all (row_ok (srv_cfg s)) rows \<and>
       ing_ch (srv_ingest s') =
         ing_ch (srv_ingest s) @ enqueue_lines rows (clientIP (trustedProxies (srv_cfg s)) r) \<and>
       m_received (srv_m s') = m_received (srv_m s) + int (length rows))"

lemma reject_answer:
  assumes "reject code reason w s1 = (w', s')" "rsp_status w = None" "rsp_body w = []" "not_stored s s1"
    "m_dropped (srv_m s1) = m_dropped (srv_m s)" "rejected_grows (srv_m s) (srv_m s1)"
    "(code, reason) \<in> set reject_reasons"
  shows "error_answer env r code w' s s' \<and> (\<forall>k. k \<noteq> ''Content-Type'' \<longrightarrow> response_header w' k = response_header w k)"
proof -
  have r: "reason \<noteq> ''buffer_full''" using assms(7) by (auto simp: reject_reasons_def parse_reasons_def)
  have w': "w' = writeError code reason w" and s': "s' = set_m (inc_rejected reason (srv_m s1)) s1"
    using assms(1) by (simp_all add: reject_def)
  have "not_stored s s'" using assms(4) by (simp add: s' not_stored_def)
  moreover have "reading (m_rejected (srv_m s)) (label ''reason'' reason) < reading (m_rejected (srv_m s')) (label ''reason'' reason)"
  proof -
    have "reading (m_rejected (srv_m s)) (label ''reason'' reason) \<le> reading (m_rejected (srv_m s1)) (label ''reason'' reason)"
      using assms(6) unfolding rejected_grows_def by blast
    then show ?thesis by (simp add: s')
  qed
  moreover have "m_dropped (srv_m s') = m_dropped (srv_m s)" using assms(5) by (simp add: s')
  moreover have "rsp_status w' = Some code" "rsp_body w' = error_body reason" using assms(2,3) by (simp_all add: w')
  ultimately have "error_answer env r code w' s s'" unfolding error_answer_def using assms(7) r by (metis (full_types))
  then show ?thesis by (simp add: w')
qed

lemma store_batch_answer:
  assumes "store_batch r rows w s1 = (w', s')" "rsp_status w = None" "rsp_body w = []" "not_stored s s1"
    "m_dropped (srv_m s1) = m_dropped (srv_m s)" "srv_cfg s1 = srv_cfg s" "rows \<noteq> []"
    "list_all (row_ok (srv_cfg s)) rows" "authorized s r" "req_method r = ''POST''"
    "body_rows env (srv_cfg s) r rows"
  shows "stored_answer env r w' s s' \<or> error_answer env r 503 w' s s' \<and> response_header w' ''Retry-After'' = Some ''1''"
proof -
  let ?lines = "enqueue_lines rows (clientIP (trustedProxies (srv_cfg s)) r)"
  note ns = assms(4) [unfolded not_stored_def same_buffer_def]
  show ?thesis
  proof (cases "fits (srv_cfg s) ?lines (srv_ingest s1)")
    case True
    define ing where "ing = (srv_ingest s1)\<lparr>ing_ch := ing_ch (srv_ingest s1) @ ?lines,
      ing_bufBytes := ing_bufBytes (srv_ingest s1) + line_bytes ?lines\<rparr>"
    define m where "m = (srv_m s1)\<lparr>m_received := m_received (srv_m s1) + int (length rows),
      m_projects := projects_observe rows (int (length rows)) (m_projects (srv_m s1))\<rparr>"
    have w': "w' = write_header 204 w" and s': "s' = set_m m (s1\<lparr>srv_ingest := ing\<rparr>)"
      using assms(1) True
      by (simp_all add: store_batch_def enqueue_result assms(6) ing_def m_def srv_m_def Let_def)
    have "rsp_status w' = Some 204" using assms(2) by (simp add: w')
    moreover have "ing_ch (srv_ingest s') = ing_ch (srv_ingest s) @ ?lines" using ns by (simp add: s' ing_def)
    moreover have "m_received (srv_m s') = m_received (srv_m s) + int (length rows)"
      "m_dropped (srv_m s') = m_dropped (srv_m s)" using ns assms(5) by (simp_all add: s' m_def)
    ultimately have "stored_answer env r w' s s'" unfolding stored_answer_def using assms(7-11) by blast
    then show ?thesis ..
  next
    case False
    define m where "m = (srv_m s1)\<lparr>m_projects := projects_observe rows 0 (m_projects (srv_m s1)),
      m_dropped := m_dropped (srv_m s1) + int (length rows)\<rparr>"
    have w': "w' = writeError 503 ''buffer_full'' (set_header ''Retry-After'' ''1'' w)" and s': "s' = set_m m s1"
      using assms(1,7) False
      by (simp_all add: store_batch_def enqueue_result assms(6) m_def srv_m_def Let_def)
    have "not_stored s s'" using assms(4) by (simp add: s' m_def not_stored_def)
    moreover have "m_dropped (srv_m s') = m_dropped (srv_m s) + int (length rows)" using assms(5) by (simp add: s' m_def)
    ultimately have "error_answer env r 503 w' s s'"
      unfolding error_answer_def using assms(2,3,7,11) by (intro conjI exI [of _ "''buffer_full''"]) (auto simp: w')
    moreover have "response_header w' ''Retry-After'' = Some ''1''" by (simp add: w')
    ultimately show ?thesis by blast
  qed
qed

text \<open>C2: \<open>/logs\<close> answers every request in one of two ways. With 204, which takes the POST
  method and one of the tokens, every row of the body is appended to the buffer, in order and
  with the sender's address, and counted as received: one row for each element of the batch
  that is a valid event, all of them ready to be stored, the body being the bytes sent or what
  they decompress to. With any other status the buffer and the received count are untouched,
  the body of the answer names the reason, and the rows of the body are counted as dropped
  exactly when the reason is the full buffer. Every 503 and 429 carries Retry-After, a 405 the
  method, a 401 the challenge. (The configuration is a validated one, MAX_BODY_BYTES an int64.)\<close>

theorem handleLogs_contract:
  assumes "handleLogs env r w s = (w', s')" "rsp_status w = None" "rsp_body w = []"
    "ranges_ok (srv_cfg s)" "\<forall>i. time_ok (snd (le_clock env i))" "maxBodyBytes (srv_cfg s) < 2 ^ 63"
  shows "stored_answer env r w' s s' \<or>
    (\<exists>code. code \<noteq> 204 \<and> error_answer env r code w' s s' \<and>
      (code \<in> {503, 429} \<longrightarrow> response_header w' ''Retry-After'' = Some ''1'') \<and>
      (code = 405 \<longrightarrow> response_header w' ''Allow'' = Some ''POST'') \<and>
      (code = 401 \<longrightarrow> response_header w' ''WWW-Authenticate'' = Some bearerChallenge))"
proof -
  have refl: "not_stored s s" by (simp add: not_stored_def)
  consider "req_method r \<noteq> ''POST''" | "req_method r = ''POST''" "\<not> authorized s r"
    | "req_method r = ''POST''" "authorized s r" by blast
  then show ?thesis
  proof cases
    case 1
    then have "reject 405 ''method'' (set_header ''Allow'' ''POST'' w) s = (w', s')" using assms(1) by (simp add: handleLogs_def)
    from reject_answer [OF this _ _ refl _ rejected_grows_refl] assms(2,3)
    have "error_answer env r 405 w' s s' \<and> response_header w' ''Allow'' = Some ''POST''" by (simp add: reject_reasons_def)
    then show ?thesis by (intro disjI2 exI [of _ 405]) simp
  next
    case 2
    then have "reject 401 ''auth'' (set_header ''WWW-Authenticate'' bearerChallenge w) s = (w', s')"
      using assms(1) by (simp add: handleLogs_def)
    from reject_answer [OF this _ _ refl _ rejected_grows_refl] assms(2,3)
    have "error_answer env r 401 w' s s' \<and> response_header w' ''WWW-Authenticate'' = Some bearerChallenge"
      by (simp add: reject_reasons_def)
    then show ?thesis by (intro disjI2 exI [of _ 401]) simp
  next
    case 3
    obtain ok s1 where rl: "rate_allows (le_now env) s = (ok, s1)" by (cases "rate_allows (le_now env) s")
    have n1: "not_stored s s1" "srv_cfg s1 = srv_cfg s" "srv_m s1 = srv_m s"
      using rate_allows_frame [OF rl] by (auto simp: not_stored_def srv_m_def)
    show ?thesis
    proof (cases ok)
      case False
      then have "reject 429 ''rate_limited'' (set_header ''Retry-After'' ''1'' w) s1 = (w', s')"
        using assms(1) 3 rl by (simp add: handleLogs_def)
      from reject_answer [OF this _ _ n1(1)] assms(2,3) n1(3) rejected_grows_refl
      have "error_answer env r 429 w' s s' \<and> response_header w' ''Retry-After'' = Some ''1''" by (simp add: reject_reasons_def)
      then show ?thesis by (intro disjI2 exI [of _ 429]) simp
    next
      case True
      obtain out s2 where b: "receive_batch env r s1 = (out, s2)" by (cases "receive_batch env r s1")
      have n2: "not_stored s s2" "srv_cfg s2 = srv_cfg s" "m_dropped (srv_m s2) = m_dropped (srv_m s)"
        "rejected_grows (srv_m s) (srv_m s2)"
        using receive_batch_frame [OF b] n1 same_buffer_trans by (auto simp: not_stored_def)
      show ?thesis
      proof (cases out)
        case (Rows rows)
        have rows: "rows \<noteq> [] \<and> list_all (row_ok (srv_cfg s)) rows"
          using b Rows parseBatch_rows assms(4,5) n1(2)
          by (force simp: receive_batch_def Let_def split: prod.splits)
        have "0 < maxBodyBytes (srv_cfg s)" using assms(4) by (simp add: ranges_ok_def)
        then have "body_rows env (srv_cfg s) r rows"
          using receive_batch_body [of env r s1 rows s2] b Rows n1(2) assms(6) by simp
        moreover have "store_batch r rows w s2 = (w', s')" using assms(1) 3 rl True b Rows by (simp add: handleLogs_def)
        ultimately show ?thesis using store_batch_answer [OF _ assms(2,3) n2(1,3,2)] rows 3 by fastforce
      next
        case (Rejected code reason)
        have cr: "(code, reason) \<in> set parse_reasons"
          using b Rejected parseBatch_reasons by (force simp: receive_batch_def Let_def split: prod.splits)
        let ?w = "if reason = reasonOverloaded then set_header ''Retry-After'' ''1'' w else w"
        have "reject code reason ?w s2 = (w', s')" using assms(1) 3 rl True b Rejected by (simp add: handleLogs_def)
        from reject_answer [OF this _ _ n2(1,3,4)] assms(2,3) cr
        have e: "error_answer env r code w' s s'" "response_header w' ''Retry-After'' = response_header ?w ''Retry-After''"
          by (simp_all add: reject_reasons_def)
        have "code = 503 \<longrightarrow> reason = reasonOverloaded" using cr parse_reasons_503(1) by (auto simp: reasonOverloaded_def)
        moreover have "code \<noteq> 204" "code \<noteq> 429" "code \<noteq> 405" "code \<noteq> 401" using cr parse_reasons_503(3-6) by metis+
        moreover have "response_header ?w ''Retry-After'' = Some ''1''" if "reason = reasonOverloaded" using that by simp
        ultimately have "code \<noteq> 204 \<and> (code \<in> {503, 429} \<longrightarrow> response_header w' ''Retry-After'' = Some ''1'') \<and>
            code \<noteq> 405 \<and> code \<noteq> 401" unfolding e(2) by blast
        then show ?thesis using e(1) by blast
      qed
    qed
  qed
qed

definition demo_env :: logs_env where
  "demo_env = \<lparr>le_now = 0, le_gunzip = (\<lambda>_. None), le_others = (\<lambda>_ b. b), le_clock = (\<lambda>_. (unix 0 0, unix 0 0))\<rparr>"

definition demo_server :: server where
  "demo_server = newServer demo_config ''v1'' ''abc'' 0 []"

definition demo_body :: string where
  "demo_body = ''['' @ demo_object @ '']''"

lemma demo_length: "length demo_body = 35"
  by (simp add: demo_body_def demo_object_def json_key_def)

lemma demo_line: "length (encode_row (demo_row (format_ch (unix 0 0))\<lparr>row_source_ip := ''10.0.0.8''\<rparr>)) < 200"
  by code_simp

lemma demo_authorized: "authorized demo_server (demo_request body)"
  by (simp add: authorized_iff demo_server_def newServer_def demo_config_def demo_request_def bearer_def Let_def
      header_get_def header_values_def equal_fold_def trim_space_def strip.simps space_seqs_def)

lemma demo_read_body:
  assumes "length body = 35"
  shows "readBody g demo_config (\<lambda>_ b. b) (demo_request body) (newByteSemaphore 400) (Some 0) =
    (Body body, newByteSemaphore 400\<lparr>bs_cur := 35\<rparr>, Some 35)"
proof -
  have "0 < maxBodyBytes demo_config" "maxBodyBytes demo_config < 2 ^ 63 - 1" "maxBodyBytes demo_config = 300"
    by (simp_all add: demo_config_def)
  then show ?thesis
    using assms
    by (auto simp: readBody_identity newByteSemaphore_def charge_def charge_by_def tryAcquire_def judge_body_def)
qed

lemma demo_client: "clientIP (trustedProxies demo_config) (demo_request body) = ''10.0.0.8''"
  unfolding demo_config_def demo_request_def by (simp add: clientIP_def, code_simp)

lemma demo_server_fields:
  "srv_cfg demo_server = demo_config" "srv_rl demo_server = None" "srv_inflight demo_server = Some (newByteSemaphore 400)"
  "ing_ch (srv_ingest demo_server) = []" "ing_bufBytes (srv_ingest demo_server) = 0" "\<not> ing_closed (srv_ingest demo_server)"
  by (simp_all add: demo_server_def newServer_def newIngester_def demo_config_def Let_def)

lemma demo_receive:
  "receive_batch demo_env (demo_request demo_body) demo_server =
   (Rows [demo_row (format_ch (unix 0 0))],
    set_m (srv_m demo_server) (demo_server\<lparr>srv_inflight := Some (newByteSemaphore 400)\<rparr>))"
  using demo_read_body [OF demo_length] demo_parse [of "\<lambda>_. (unix 0 0, unix 0 0)"]
  by (simp add: receive_batch_def demo_server_fields demo_env_def newReservation_def parseBatch_def demo_body_def
      release_def release_by_def sem_release_def newByteSemaphore_def)

lemma demo_handleLogs:
  assumes "rsp_status w = None"
  shows "rsp_status (fst (handleLogs demo_env (demo_request demo_body) w demo_server)) = Some 204"
proof -
  let ?row = "demo_row (format_ch (unix 0 0))" and ?s = "set_m (srv_m demo_server) (demo_server\<lparr>srv_inflight := Some (newByteSemaphore 400)\<rparr>)"
  have "req_method (demo_request demo_body) = ''POST''" by (simp add: demo_request_def)
  moreover have "srv_ingest ?s = srv_ingest demo_server" by (simp add: srv_m_def)
  moreover have "fits demo_config (enqueue_lines [?row] ''10.0.0.8'') (srv_ingest demo_server)"
    using demo_line
    by (simp add: fits_def enqueue_lines_def demo_server_fields ing_depth_def line_bytes_def demo_config_def)
  then have "rsp_status (fst (store_batch (demo_request demo_body) [?row] w ?s)) = Some 204"
    using assms by (simp add: store_batch_def demo_server_fields enqueue_result demo_client srv_m_def Let_def)
  ultimately show ?thesis
    by (simp add: handleLogs_def demo_authorized rate_allows_def demo_server_fields demo_receive)
qed

lemma handleLogs_contract_witness:
  "\<exists>rows. rows \<noteq> [] \<and> list_all (row_ok demo_config) rows \<and>
     ing_ch (srv_ingest (snd (handleLogs demo_env (demo_request demo_body) new_response demo_server))) =
       enqueue_lines rows ''10.0.0.8''"
proof -
  obtain w' s' where r: "handleLogs demo_env (demo_request demo_body) new_response demo_server = (w', s')"
    by (cases "handleLogs demo_env (demo_request demo_body) new_response demo_server")
  have "\<forall>i. time_ok (snd (le_clock demo_env i))" by (simp add: demo_env_def time_ok_def unix_def)
  moreover have "maxBodyBytes demo_config < 2 ^ 63" by (simp add: demo_config_def)
  ultimately have "stored_answer demo_env (demo_request demo_body) w' demo_server s'"
    using handleLogs_contract [OF r] demo_handleLogs [of new_response] r demo_config_ok
    by (auto simp: demo_server_fields error_answer_def)
  then show ?thesis using r by (auto simp: stored_answer_def demo_server_fields demo_client)
qed

section \<open>Every response is counted\<close>

lemma reject_requests: "reject code reason w s = (w', s') \<Longrightarrow> m_httpReqs (srv_m s') = m_httpReqs (srv_m s)"
  by (auto simp: reject_def inc_rejected_def)

lemma element_frame_requests: "element_frame m m' \<Longrightarrow> m_httpReqs m' = m_httpReqs m"
  unfolding element_frame_def
  by (metis metrics.select_convs(13) metrics.surjective metrics.update_convs(10-12))

lemma receive_batch_requests: "receive_batch env r s = (out, s') \<Longrightarrow> m_httpReqs (srv_m s') = m_httpReqs (srv_m s)"
  by (auto simp: receive_batch_def Let_def dest!: element_frame_requests [OF parseBatch_frame] split: prod.splits)

lemma store_batch_requests: "store_batch r rows w s = (w', s') \<Longrightarrow> m_httpReqs (srv_m s') = m_httpReqs (srv_m s)"
  by (auto simp: store_batch_def enqueue_result srv_m_def set_m_def Let_def split: if_splits)

lemma handleLogs_requests:
  "handleLogs env r w s = (w', s') \<Longrightarrow> m_httpReqs (srv_m s') = m_httpReqs (srv_m s)"
  by (auto simp: handleLogs_def srv_m_def dest!: reject_requests receive_batch_requests store_batch_requests
      rate_allows_frame split: if_splits prod.splits bool.splits batch_result.splits)

text \<open>The two headers every response is given before its handler runs survive the handlers.\<close>

definition keeps_headers :: "response \<Rightarrow> response \<Rightarrow> bool" where
  "keeps_headers w w' \<longleftrightarrow>
     response_header w' ''Cache-Control'' = response_header w ''Cache-Control'' \<and>
     (response_header w ''X-Content-Type-Options'' = Some ''nosniff'' \<longrightarrow>
       response_header w' ''X-Content-Type-Options'' = Some ''nosniff'')"

lemma keeps_headers_refl [simp]: "keeps_headers w w"
  by (simp add: keeps_headers_def)

lemma keeps_headers_set [simp]:
  "k \<noteq> ''Cache-Control'' \<Longrightarrow> k \<noteq> ''X-Content-Type-Options'' \<Longrightarrow>
   keeps_headers w (set_header k v w') = keeps_headers w w'"
  "keeps_headers w (write_header c w') = keeps_headers w w'"
  "keeps_headers w (write_string x w') = keeps_headers w w'"
  "keeps_headers w w' \<Longrightarrow> keeps_headers w (http_error msg c w')"
  "keeps_headers w w' \<Longrightarrow> keeps_headers w (writeError c reason w')"
  by (simp_all add: keeps_headers_def http_error_def writeError_def)

lemma handleLogs_keeps_headers: "handleLogs env r w s = (w', s') \<Longrightarrow> keeps_headers w w'"
  by (auto simp: handleLogs_def reject_def store_batch_def Let_def
      split: if_splits prod.splits bool.splits batch_result.splits)

lemma handleReadyz_other:
  "handleReadyz sendable db now now' w s = (w', s') \<Longrightarrow>
   keeps_headers w w' \<and> m_httpReqs (srv_m s') = m_httpReqs (srv_m s) \<and> not_stored s s'"
  by (auto simp: handleReadyz_def check_def not_stored_def set_m_def srv_m_def same_buffer_def Let_def
      split: prod.splits bool.splits option.splits)

text \<open>What \<open>http.ServeMux\<close> answers on its own touches neither of the two headers, except that
  \<open>http.Error\<close> sets \<open>nosniff\<close> again.\<close>

definition mux_keeps_headers :: "serve_env \<Rightarrow> bool" where
  "mux_keeps_headers env \<longleftrightarrow> (\<forall>r w. keeps_headers w (se_fallback env r w))"

lemma mux_other:
  assumes "mux env r w s = (w', s')" "mux_keeps_headers env"
  shows "keeps_headers w w' \<and> m_httpReqs (srv_m s') = m_httpReqs (srv_m s) \<and>
    (req_path r \<noteq> ''/logs'' \<longrightarrow> not_stored s s')"
proof -
  have refl: "not_stored s s" by (simp add: not_stored_def)
  obtain v c b g where build: "se_build env = (v, c, b, g)" by (cases "se_build env") auto
  note mux = assms(1) [unfolded mux_def build prod.case]
  consider "req_path r = ''/logs''" | "req_path r = ''/readyz''" | "req_path r \<notin> {''/logs'', ''/readyz''}" by blast
  then show ?thesis
  proof cases
    case 1
    then show ?thesis using mux handleLogs_keeps_headers handleLogs_requests by simp
  next
    case 2
    then show ?thesis using mux handleReadyz_other by simp
  next
    case 3
    then show ?thesis
      using mux assms(2) refl
      by (auto simp: mux_keeps_headers_def handleHealthz_def handleVersion_def handleMetrics_def split: if_splits)
  qed
qed

text \<open>The label of a known path and a status.\<close>

definition known_label :: "string \<Rightarrow> nat \<Rightarrow> string" where
  "known_label p code = ''path='' @ [CHR 0x22] @ p @ [CHR 0x22] @ '',code='' @ [CHR 0x22] @ itoa (int code) @ [CHR 0x22]"

text \<open>C37: Every request, on any path and whatever it is answered, adds exactly one to one counter, the
  one of its status and of its path if that is one of the five served, else of \<open>other\<close>, so
  that no path a sender makes up becomes a label; the response carries \<open>no-store\<close> and \<open>nosniff\<close>; and only \<open>/logs\<close> can change what is
  buffered or counted as received.
  (What \<open>http.ServeMux\<close> itself answers on an unknown path keeps the headers set before.)\<close>

theorem serve_counts:
  assumes "serve env r s = (w, s')" "mux_keeps_headers env"
  shows "(\<forall>l. reading (m_httpReqs (srv_m s')) l = reading (m_httpReqs (srv_m s)) l +
      (if l = known_label
          (if req_path r \<in> {''/logs'', ''/healthz'', ''/readyz'', ''/metrics'', ''/version''} then req_path r else ''other'')
          (response_code w) then 1 else 0)) \<and>
    response_header w ''Cache-Control'' = Some ''no-store'' \<and>
    response_header w ''X-Content-Type-Options'' = Some ''nosniff'' \<and>
    (req_path r \<noteq> ''/logs'' \<longrightarrow> not_stored s s')"
proof -
  obtain s1 where m: "mux env r (securityHeaders new_response) s = (w, s1)"
    "s' = set_m ((srv_m s1)\<lparr>m_httpReqs := labels_inc (request_label r (response_code w)) (m_httpReqs (srv_m s1))\<rparr>) s1"
    using assms(1) by (auto simp: serve_def countRequests_def split: prod.splits)
  note mo = mux_other [OF m(1) assms(2)]
  have label: "known_label
      (if req_path r \<in> {''/logs'', ''/healthz'', ''/readyz'', ''/metrics'', ''/version''} then req_path r else ''other'')
      (response_code w) = request_label r (response_code w)"
    unfolding request_label_def known_label_def knownPath_def ..
  have "response_header w ''Cache-Control'' = Some ''no-store''"
    "response_header w ''X-Content-Type-Options'' = Some ''nosniff''"
    using mo by (simp_all add: keeps_headers_def securityHeaders_def)
  moreover have "not_stored s s'" if "not_stored s s1" using that by (simp add: m(2) not_stored_def)
  ultimately show ?thesis using mo unfolding label by (simp add: m(2) labels_inc_def)
qed

definition demo_serve_env :: serve_env where
  "demo_serve_env = \<lparr>se_logs = demo_env, se_sendable = (\<lambda>_. True), se_db = (\<lambda>_. NoReply), se_checked = 0,
     se_printable = (\<lambda>_. True), se_build = (''v1'', ''abc'', ''today'', ''go1''),
     se_fallback = (\<lambda>r w. http_error ''404 page not found'' 404 w)\<rparr>"

lemma serve_counts_witness:
  "not_stored demo_server (snd (serve demo_serve_env ((demo_request [])\<lparr>req_path := ''/admin''\<rparr>) demo_server)) \<and>
   reading (m_httpReqs (srv_m (snd (serve demo_serve_env ((demo_request [])\<lparr>req_path := ''/admin''\<rparr>) demo_server))))
     (known_label ''other'' 404) = 1"
proof -
  let ?r = "(demo_request [])\<lparr>req_path := ''/admin''\<rparr>"
  obtain w s' where sv: "serve demo_serve_env ?r demo_server = (w, s')" by (cases "serve demo_serve_env ?r demo_server")
  have "response_code w = 404"
    using sv by (simp add: serve_def countRequests_def mux_def demo_serve_env_def securityHeaders_def http_error_def
        response_code_def, auto)
  moreover have "m_httpReqs (srv_m demo_server) = []"
    by (simp add: demo_server_def newServer_def newIngester_def srv_m_def newMetrics_def newLabeledCounter_def Let_def)
  moreover have "mux_keeps_headers demo_serve_env" by (simp add: mux_keeps_headers_def demo_serve_env_def)
  ultimately show ?thesis using serve_counts [OF sv] sv by simp
qed

section \<open>One probe at a time\<close>

text \<open>The calls of \<open>check\<close> by any number of goroutines, as the events of the cache: an answer
  from the cache, a probe started, a probe finished with its result.\<close>

datatype probe_event = Cached bool | Started int | Finished int bool

definition started :: "probe_event list \<Rightarrow> nat" where
  "started es = length (filter (\<lambda>e. case e of Started _ \<Rightarrow> True | _ \<Rightarrow> False) es)"

definition finished :: "probe_event list \<Rightarrow> nat" where
  "finished es = length (filter (\<lambda>e. case e of Finished _ _ \<Rightarrow> True | _ \<Rightarrow> False) es)"

definition last_probe :: "probe_event list \<Rightarrow> (int \<times> bool) option" where
  "last_probe es = fold (\<lambda>e acc. case e of Finished t ok \<Rightarrow> Some (t, ok) | _ \<Rightarrow> acc) es None"

inductive probes :: "int \<Rightarrow> probe_event list \<Rightarrow> readinessCache \<Rightarrow> bool" for ttl :: int where
  probes_new: "probes ttl [] (newReadinessCache ttl)"
| probes_cached: "probes ttl es rc \<Longrightarrow> check_enter now rc = (Some ok, rc') \<Longrightarrow> probes ttl (es @ [Cached ok]) rc'"
| probes_start: "probes ttl es rc \<Longrightarrow> check_enter now rc = (None, rc') \<Longrightarrow> probes ttl (es @ [Started now]) rc'"
| probes_finish: "probes ttl es rc \<Longrightarrow> finished es < started es \<Longrightarrow>
    probes ttl (es @ [Finished now ok]) (check_leave now ok rc)"

lemma probe_counts [simp]:
  "started [] = 0" "finished [] = 0" "last_probe [] = None"
  "started (es @ [e]) = started es + (case e of Started _ \<Rightarrow> 1 | _ \<Rightarrow> 0)"
  "finished (es @ [e]) = finished es + (case e of Finished _ _ \<Rightarrow> 1 | _ \<Rightarrow> 0)"
  "last_probe (es @ [e]) = (case e of Finished t ok \<Rightarrow> Some (t, ok) | _ \<Rightarrow> last_probe es)"
  by (auto simp: started_def finished_def last_probe_def split: probe_event.split)

text \<open>What the cache holds is what the events say.\<close>

lemma probes_state:
  "probes ttl es rc \<Longrightarrow>
   rc_ttl rc = ttl \<and> rc_last rc = map_option fst (last_probe es) \<and>
   rc_ok rc = (case last_probe es of None \<Rightarrow> False | Some (_, ok) \<Rightarrow> ok) \<and>
   started es = finished es + (if rc_probing rc then 1 else 0)"
  by (induction rule: probes.induct)
    (auto simp: newReadinessCache_def check_enter_def check_leave_def Let_def split: if_splits option.splits)

text \<open>An event fits what happened before it.\<close>

definition event_fits :: "int \<Rightarrow> probe_event list \<Rightarrow> probe_event \<Rightarrow> bool" where
  "event_fits ttl before_it e \<longleftrightarrow>
     (case e of
        Cached ok \<Rightarrow> ok = (case last_probe before_it of None \<Rightarrow> False | Some (_, b) \<Rightarrow> b)
      | Started now \<Rightarrow> started before_it = finished before_it \<and>
          (case last_probe before_it of None \<Rightarrow> True | Some (t, _) \<Rightarrow> ttl \<le> time_sub now t)
      | Finished _ _ \<Rightarrow> started before_it = finished before_it + 1)"

text \<open>C38: However many callers ask at once, at most one probe is in flight; none starts within the
  TTL of the last one's end; and an answer from the cache is the last finished probe's, or
  not ready before the first.\<close>

theorem readiness_single_flight:
  assumes "probes ttl es rc" "i < length es"
  shows "event_fits ttl (take i es) (es ! i) \<and> started (take i es) \<le> finished (take i es) + 1"
  using assms
proof (induction arbitrary: i rule: probes.induct)
  case probes_new
  then show ?case by simp
next
  case (probes_cached es rc now ok rc')
  note st = probes_state [OF probes_cached(1)]
  have "event_fits ttl es (Cached ok) \<and> started es \<le> finished es + 1"
    using st probes_cached(2)
    by (auto simp: event_fits_def check_enter_def Let_def split: if_splits option.splits)
  then show ?case using probes_cached.IH probes_cached.prems by (cases "i < length es") (simp_all add: nth_append)
next
  case (probes_start es rc now rc')
  note st = probes_state [OF probes_start(1)]
  have "event_fits ttl es (Started now) \<and> started es \<le> finished es + 1"
    using st probes_start(2)
    by (auto simp: event_fits_def check_enter_def Let_def split: if_splits option.splits)
  then show ?case using probes_start.IH probes_start.prems by (cases "i < length es") (simp_all add: nth_append)
next
  case (probes_finish es rc now ok)
  note st = probes_state [OF probes_finish(1)]
  have "event_fits ttl es (Finished now ok) \<and> started es \<le> finished es + 1"
    using st probes_finish(2) by (auto simp: event_fits_def split: if_splits)
  then show ?case using probes_finish.IH probes_finish.prems by (cases "i < length es") (simp_all add: nth_append)
qed

text \<open>The loop keeps the gauge of the metrics at the result of the last probe, with no \<open>/readyz\<close>
  request needed.\<close>

definition gauge_fits :: "server \<Rightarrow> bool" where
  "gauge_fits s \<longleftrightarrow> \<not> rc_probing (srv_ready s) \<and>
     (rc_last (srv_ready s) \<noteq> None \<longrightarrow> m_chReachable (srv_m s) = (if rc_ok (srv_ready s) then 1 else 0))"

lemma check_gauge: "gauge_fits s \<Longrightarrow> gauge_fits (snd (check sendable db now now' s)) \<and>
    rc_last (srv_ready (snd (check sendable db now now' s))) \<noteq> None"
  by (cases "rc_last (srv_ready s)")
    (auto simp: gauge_fits_def check_def check_enter_def check_leave_def Let_def)

lemma ready_loop_gauge:
  assumes "gauge_fits s"
  shows "gauge_fits (ready_loop sendable first ticks s) \<and> rc_last (srv_ready (ready_loop sendable first ticks s)) \<noteq> None"
proof -
  define f where "f = (\<lambda>(now, now', db) t. snd (check sendable db now now' t))"
  define P where "P t \<longleftrightarrow> gauge_fits t \<and> rc_last (srv_ready t) \<noteq> None" for t
  have step: "gauge_fits t \<Longrightarrow> P (f x t)" for t x
    by (cases x) (use check_gauge in \<open>simp add: f_def P_def\<close>)
  have "P t \<Longrightarrow> P (fold f ticks t)" for t
    by (induction ticks arbitrary: t) (use step in \<open>auto simp del: not_None_eq simp: P_def\<close>)
  then show ?thesis using step [OF assms, of first] by (simp add: ready_loop_def f_def P_def)
qed

lemma newServer_gauge: "gauge_fits (newServer cfg version commit now d)"
  by (simp add: gauge_fits_def newServer_def newReadinessCache_def Let_def)

definition demo_cache :: "int option \<Rightarrow> bool \<Rightarrow> bool \<Rightarrow> readinessCache" where
  "demo_cache t ok busy = \<lparr>rc_ttl = 5, rc_last = t, rc_ok = ok, rc_probing = busy\<rparr>"

lemma demo_probes: "probes 5 [Started 0, Cached False, Finished 2 True, Cached True] (demo_cache (Some 2) True False)"
proof -
  have 0: "probes 5 [] (demo_cache None False False)"
    using probes_new [of 5] by (simp add: newReadinessCache_def demo_cache_def)
  have 1: "probes 5 [Started 0] (demo_cache None False True)"
    using probes_start [OF 0, of 0 "demo_cache None False True"] by (simp add: check_enter_def demo_cache_def)
  have 2: "probes 5 [Started 0, Cached False] (demo_cache None False True)"
    using probes_cached [OF 1, of 1 False "demo_cache None False True"] by (simp add: check_enter_def demo_cache_def)
  have "finished [Started 0, Cached False] < started [Started 0, Cached False]" by (simp add: started_def finished_def)
  from probes_finish [OF 2 this, of 2 True]
  have 3: "probes 5 [Started 0, Cached False, Finished 2 True] (demo_cache (Some 2) True False)"
    by (simp add: check_leave_def demo_cache_def)
  show ?thesis
    using probes_cached [OF 3, of 3 True "demo_cache (Some 2) True False"]
    by (simp add: check_enter_def demo_cache_def time_sub_def)
qed

lemma readiness_single_flight_witness:
  "event_fits 5 [Started 0, Cached False, Finished 2 True] (Cached True)"
  using readiness_single_flight [OF demo_probes, of 3] by simp

end
