(* ===== verification/Lifecycle.thy ===== *)
theory Lifecycle
  imports ServerFacts
begin

text \<open>
  \<open>main\<close> of \<open>gateway/main.go\<close>: what it warns about, the limits of the HTTP server and the server
  it starts; then the whole process as a step relation, from serving over the listener's failure
  or the signal to the exit. What happens inside \<open>ListenAndServe\<close> and \<open>Shutdown\<close> is a choice of
  their outcomes.
\<close>

section \<open>Start\<close>

datatype warning = OpenMetrics | BatchExceedsBuffer int int

definition startup_warnings :: "config \<Rightarrow> warning list" where
  "startup_warnings cfg =
     (if metricsToken cfg = [] then [OpenMetrics] else []) @
     (if bufferSize cfg < maxBatchEvents cfg then [BatchExceedsBuffer (maxBatchEvents cfg) (bufferSize cfg)] else [])"

text \<open>They are printed at the level \<open>Warn\<close>.\<close>

definition printed_warnings :: "config \<Rightarrow> warning list" where
  "printed_warnings cfg = (if log_enabled (logLevel cfg) LevelWarn then startup_warnings cfg else [])"

text \<open>What a build without \<open>-ldflags\<close> calls itself: \<open>version\<close>, \<open>commit\<close> and \<open>buildDate\<close>.\<close>

definition default_build :: "string \<times> string \<times> string" where
  "default_build = (''dev'', ''none'', ''unknown'')"

text \<open>Times in nanoseconds.\<close>

record http_limits =
  hl_addr :: string
  hl_readHeaderTimeout :: int
  hl_readTimeout :: int
  hl_writeTimeout :: int
  hl_idleTimeout :: int
  hl_maxHeaderBytes :: int

definition http_server :: "config \<Rightarrow> http_limits" where
  "http_server cfg =
     \<lparr>hl_addr = listenAddr cfg, hl_readHeaderTimeout = 10 * 1000000000, hl_readTimeout = 30 * 1000000000,
      hl_writeTimeout = 30 * 1000000000, hl_idleTimeout = 60 * 1000000000, hl_maxHeaderBytes = 32 * 1024\<rparr>"

text \<open>A process: it exits, or it warns, starts its ingester and serves; the flag tells whether the
  replay loop runs. The last arguments are what the file system answers to \<open>start\<close>.\<close>

datatype process = Exited nat | Serving "warning list" http_limits bool server

definition main_run ::
  "(string \<Rightarrow> url option) \<Rightarrow> (string \<Rightarrow> nat option) \<Rightarrow> string list \<Rightarrow> env \<Rightarrow> (string \<Rightarrow> string option) \<Rightarrow>
   string \<Rightarrow> string \<Rightarrow> int \<Rightarrow> dir \<Rightarrow> bool \<Rightarrow> bool \<Rightarrow> (string \<Rightarrow> bool) \<Rightarrow> bool \<Rightarrow> bool \<Rightarrow> (string \<Rightarrow> bool) \<Rightarrow> process" where
  "main_run url_parse get args e files version commit now d made listed removable listed' listed'' stat =
     (case main_start url_parse get args e files of
        Exit code \<Rightarrow> Exited code
      | Serve cfg \<Rightarrow>
          (let srv = newServer cfg version commit now d in
           case start cfg made listed removable listed' listed'' stat (srv_ingest srv) of
             (replay, ing) \<Rightarrow>
               Serving (printed_warnings cfg) (http_server cfg) replay (srv\<lparr>srv_ingest := ing\<rparr>)))"

lemma resume_same_buffer: "same_buffer s t \<Longrightarrow> same_buffer s (resumeSpoolSeq listed t)"
  by (simp add: resumeSpoolSeq_def Let_def)

lemma cleanup_same_buffer: "same_buffer s t \<Longrightarrow> same_buffer s (cleanupTmp listed removable t)"
  by (simp add: cleanupTmp_def)

lemma start_keeps:
  "start cfg made listed removable listed' listed'' stat s = (replay, s') \<Longrightarrow>
   same_buffer s s' \<and> (replay \<longrightarrow> spoolDir cfg \<noteq> [])"
  by (auto simp: start_def resume_same_buffer cleanup_same_buffer split: if_splits)

text \<open>A process that serves has a valid configuration, an empty buffer and no event counted.\<close>

lemma main_run_serving:
  assumes "main_run url_parse get args e files version commit now d made listed removable listed' listed'' stat =
    Serving warnings limits replay srv"
  shows "main_start url_parse get args e files = Serve (srv_cfg srv) \<and> ing_ch (srv_ingest srv) = [] \<and>
    ing_bufBytes (srv_ingest srv) = 0 \<and> \<not> ing_closed (srv_ingest srv) \<and>
    (replay \<longrightarrow> spoolDir (srv_cfg srv) \<noteq> [])"
proof -
  obtain cfg where cfg: "main_start url_parse get args e files = Serve cfg"
    using assms by (auto simp: main_run_def split: startup.splits)
  define srv0 where "srv0 = newServer cfg version commit now d"
  obtain ing where st: "start cfg made listed removable listed' listed'' stat (srv_ingest srv0) = (replay, ing)"
    "srv = srv0\<lparr>srv_ingest := ing\<rparr>"
    using assms by (auto simp: main_run_def cfg Let_def srv0_def split: prod.splits)
  have "srv_cfg srv0 = cfg" "ing_ch (srv_ingest srv0) = []" "ing_bufBytes (srv_ingest srv0) = 0"
    "\<not> ing_closed (srv_ingest srv0)" by (simp_all add: srv0_def newServer_def newIngester_def Let_def)
  then show ?thesis using start_keeps [OF st(1)] cfg by (simp add: st(2) same_buffer_def)
qed

section \<open>The process\<close>

text \<open>The goroutine of \<open>ListenAndServe\<close>: it listens, has failed (and exits the process with 1 when it
  runs next), or was closed by \<open>Shutdown\<close>. \<open>main\<close> itself waits for a signal, shuts the HTTP
  server down, stops the ingester and returns.\<close>

datatype listener = Listening | ListenFailed | ListenClosed

datatype phase = Running | ShuttingDown | Stopping | Ended nat

text \<open>\<open>gw_quiet\<close>: \<open>Shutdown\<close> returned without error, so no handler is left. After its 15 seconds it
  returns anyway, and handlers may still be at work.\<close>

record gateway =
  gw_pipe :: pipeline
  gw_listener :: listener
  gw_phase :: phase
  gw_quiet :: bool

datatype main_action = Work action | ListenFails | ExitOne | Signal | CloseListener | ShutdownReturns bool | ExitZero

definition shutdownTimeout :: int where
  "shutdownTimeout = 15 * 1000000000"

text \<open>The steps of \<open>stop\<close>, which only \<open>main\<close> takes.\<close>

definition stop_actions :: "action list" where
  "stop_actions = [Drain, StopReplay, CloseBuffer]"

definition handler_action :: "action \<Rightarrow> bool" where
  "handler_action a \<longleftrightarrow> (case a of Accept ls \<Rightarrow> True | Refuse n \<Rightarrow> True | _ \<Rightarrow> False)"

inductive gstep :: "(string \<Rightarrow> bool) \<Rightarrow> config \<Rightarrow> int \<Rightarrow> gateway \<Rightarrow> main_action \<Rightarrow> gateway \<Rightarrow> bool"
  for sendable :: "string \<Rightarrow> bool" and cfg :: config and pid :: int
where
  work: "gw_phase g \<notin> range Ended \<Longrightarrow> pstep sendable cfg pid (gw_pipe g) a p \<Longrightarrow>
    (a \<in> set stop_actions \<longrightarrow> gw_phase g = Stopping) \<Longrightarrow> (handler_action a \<longrightarrow> \<not> gw_quiet g) \<Longrightarrow>
    gstep sendable cfg pid g (Work a) (g\<lparr>gw_pipe := p\<rparr>)"
| listen_fails: "gw_phase g \<notin> range Ended \<Longrightarrow> gw_listener g = Listening \<Longrightarrow>
    gstep sendable cfg pid g ListenFails (g\<lparr>gw_listener := ListenFailed\<rparr>)"
| exit_one: "gw_phase g \<notin> range Ended \<Longrightarrow> gw_listener g = ListenFailed \<Longrightarrow>
    gstep sendable cfg pid g ExitOne (g\<lparr>gw_phase := Ended 1\<rparr>)"
| signal: "gw_phase g = Running \<Longrightarrow> gstep sendable cfg pid g Signal (g\<lparr>gw_phase := ShuttingDown\<rparr>)"
| close_listener: "gw_phase g = ShuttingDown \<Longrightarrow> gw_listener g = Listening \<Longrightarrow>
    gstep sendable cfg pid g CloseListener (g\<lparr>gw_listener := ListenClosed\<rparr>)"
| shutdown_returns: "gw_phase g = ShuttingDown \<Longrightarrow> gw_listener g \<noteq> Listening \<Longrightarrow>
    gstep sendable cfg pid g (ShutdownReturns ok) (g\<lparr>gw_phase := Stopping, gw_quiet := ok\<rparr>)"
| exit_zero: "gw_phase g = Stopping \<Longrightarrow> ing_closed (p_ing (gw_pipe g)) \<Longrightarrow> p_worker (gw_pipe g) = Gone \<Longrightarrow>
    p_replay (gw_pipe g) = Left \<Longrightarrow> gstep sendable cfg pid g ExitZero (g\<lparr>gw_phase := Ended 0\<rparr>)"

inductive_cases gstep_exitE: "gstep sendable cfg pid g ExitZero h"

inductive gruns :: "(string \<Rightarrow> bool) \<Rightarrow> config \<Rightarrow> int \<Rightarrow> gateway \<Rightarrow> main_action list \<Rightarrow> gateway \<Rightarrow> bool"
  for sendable :: "string \<Rightarrow> bool" and cfg :: config and pid :: int
where
  gruns_none: "gruns sendable cfg pid g [] g"
| gruns_step: "gruns sendable cfg pid g as h \<Longrightarrow> gstep sendable cfg pid h a k \<Longrightarrow> gruns sendable cfg pid g (as @ [a]) k"

definition worked :: "main_action list \<Rightarrow> action list" where
  "worked as = concat (map (\<lambda>a. case a of Work b \<Rightarrow> [b] | _ \<Rightarrow> []) as)"

text \<open>What \<open>main\<close> has set up when it starts to wait: the worker runs, and the replay loop if there
  is a spool.\<close>

definition launched :: "bool \<Rightarrow> server \<Rightarrow> gateway" where
  "launched replay srv =
     \<lparr>gw_pipe = \<lparr>p_ing = srv_ingest srv, p_batch = [], p_batchBytes = 0, p_worker = Selecting,
        p_replay = (if replay then Waiting else Left)\<rparr>,
      gw_listener = Listening, gw_phase = Running, gw_quiet = False\<rparr>"

text \<open>With a directory that can be listed, the counter is past every number in use.\<close>

lemma start_numbers:
  assumes "start cfg made listed removable True listed'' stat s = (True, s')" "dir_ok (ing_dir s)" "0 \<le> ing_spoolSeq s"
  shows "seqs_used s'"
proof -
  have "dir_ok (ing_dir (cleanupTmp listed removable s))"
    using assms(2) by (auto simp: cleanupTmp_def dir_ok_def distinct_map_filter)
  moreover have "0 \<le> ing_spoolSeq (cleanupTmp listed removable s)" using assms(3) by (simp add: cleanupTmp_def)
  ultimately have "seqs_used (resumeSpoolSeq True (cleanupTmp listed removable s))" by (rule resume_seqs_used)
  then show ?thesis using assms(1) by (auto simp: start_def updateSpoolGauge_def seqs_used_def split: if_splits)
qed

lemma launched_initial:
  assumes "main_run url_parse get args e files version commit now d made listed removable True listed'' stat =
    Serving warnings limits replay srv" "dir_ok d" "replay \<or> d = []"
  shows "initial (srv_cfg srv) (gw_pipe (launched replay srv)) \<and> ranges_ok (srv_cfg srv)"
proof -
  obtain cfg where cfg: "main_start url_parse get args e files = Serve cfg"
    using assms(1) by (auto simp: main_run_def split: startup.splits)
  define srv0 where "srv0 = newServer cfg version commit now d"
  obtain ing where st: "start cfg made listed removable True listed'' stat (srv_ingest srv0) = (replay, ing)"
    "srv = srv0\<lparr>srv_ingest := ing\<rparr>"
    using assms(1) by (auto simp: main_run_def cfg Let_def srv0_def split: prod.splits)
  have s0: "srv_cfg srv0 = cfg" "ing_ch (srv_ingest srv0) = []" "ing_bufBytes (srv_ingest srv0) = 0"
    "\<not> ing_closed (srv_ingest srv0)" "\<not> ing_stopReplay (srv_ingest srv0)" "\<not> ing_draining (srv_ingest srv0)"
    "ing_dir (srv_ingest srv0) = d" "ing_spoolSeq (srv_ingest srv0) = 0"
    by (simp_all add: srv0_def newServer_def newIngester_def Let_def)
  have "seqs_used ing"
  proof (cases replay)
    case True
    then show ?thesis using start_numbers st(1) assms(2) s0(7,8) by auto
  next
    case False
    then have "ing = srv_ingest srv0" "d = []" using st(1) assms(3) by (auto simp: start_def split: if_splits)
    then show ?thesis using s0(7,8) by (simp add: seqs_used_def dir_ok_def)
  qed
  moreover have "ranges_ok cfg" using cfg by (auto simp: main_start_def dest: loadConfig_ok split: if_splits sum.splits)
  ultimately show ?thesis
    using start_keeps [OF st(1)] s0 by (simp add: initial_def launched_def st(2) same_buffer_def)
qed

section \<open>What an orderly exit means\<close>

lemma worked_snoc [simp]: "worked [] = []" "worked (as @ [a]) = worked as @ (case a of Work b \<Rightarrow> [b] | _ \<Rightarrow> [])"
  by (simp_all add: worked_def)

lemma gruns_runs: "gruns sendable cfg pid g as h \<Longrightarrow> runs sendable cfg pid (gw_pipe g) (worked as) (gw_pipe h)"
proof (induction rule: gruns.induct)
  case (gruns_step g as h a k)
  from gruns_step(2) show ?case by (cases rule: gstep.cases) (use gruns_step(3) in \<open>auto intro: runs.runs_step\<close>)
qed (simp add: runs.runs_none)

definition gateway_inv :: "main_action list \<Rightarrow> gateway \<Rightarrow> bool" where
  "gateway_inv as g \<longleftrightarrow>
     (gw_listener g = ListenFailed \<longrightarrow> ListenFails \<in> set as) \<and>
     (case gw_phase g of
        Running \<Rightarrow> \<not> ing_draining (p_ing (gw_pipe g)) \<and> \<not> ing_stopReplay (p_ing (gw_pipe g)) \<and> \<not> ing_closed (p_ing (gw_pipe g))
      | ShuttingDown \<Rightarrow> Signal \<in> set as \<and>
          \<not> ing_draining (p_ing (gw_pipe g)) \<and> \<not> ing_stopReplay (p_ing (gw_pipe g)) \<and> \<not> ing_closed (p_ing (gw_pipe g))
      | Stopping \<Rightarrow> Signal \<in> set as \<and> gw_listener g \<noteq> Listening
      | Ended code \<Rightarrow>
          code = 0 \<and> Signal \<in> set as \<and> p_worker (gw_pipe g) = Gone \<and> p_replay (gw_pipe g) = Left \<or>
          code = 1 \<and> ListenFails \<in> set as)"

lemma pstep_flags:
  assumes "pstep sendable cfg pid p a q" "a \<notin> set stop_actions"
  shows "ing_draining (p_ing q) = ing_draining (p_ing p) \<and> ing_stopReplay (p_ing q) = ing_stopReplay (p_ing p) \<and>
    ing_closed (p_ing q) = ing_closed (p_ing p)"
  using assms(1)
proof (cases rule: pstep.cases)
  case (enqueue_all rows ip accepted dropped s')
  from enqueue_all(3) show ?thesis by (rule enqueue_cases) (use enqueue_all(2) in auto)
next
  case (enqueue_none rows ip dropped s')
  from enqueue_none(3) show ?thesis by (rule enqueue_cases) (use enqueue_none(2) in auto)
next
  case (sweep_file name names e go s')
  then show ?thesis using same_buffer_fields [OF replay_file_same_buffer [OF sweep_file(5)]] by auto
qed (use assms(2) in \<open>auto simp: stop_actions_def\<close>)

text \<open>A goroutine that is gone stays gone.\<close>

lemma pstep_gone:
  "pstep sendable cfg pid p a q \<Longrightarrow> (p_worker p = Gone \<longrightarrow> p_worker q = Gone) \<and> (p_replay p = Left \<longrightarrow> p_replay q = Left)"
  by (cases rule: pstep.cases) auto

lemma gateway_step_inv:
  assumes "gstep sendable cfg pid g a h" "gateway_inv as g"
  shows "gateway_inv (as @ [a]) h"
  using assms(1)
proof (cases rule: gstep.cases)
  case (work b p)
  show ?thesis
  proof (cases "gw_phase g")
    case (Ended code)
    then show ?thesis using work(3) by blast
  qed (use work assms(2) pstep_flags [OF work(4)] in \<open>simp_all add: gateway_inv_def\<close>)
qed (use assms(2) in \<open>simp_all add: gateway_inv_def split: phase.splits\<close>)

lemma gateway_reachable:
  assumes "gruns sendable cfg pid g as h" "gw_phase g = Running" "gw_listener g = Listening" "initial cfg (gw_pipe g)"
  shows "gateway_inv as h"
  using assms
proof (induction rule: gruns.induct)
  case (gruns_none g)
  then show ?case by (auto simp: gateway_inv_def initial_def)
next
  case (gruns_step g as h a k)
  then show ?case using gateway_step_inv by blast
qed

text \<open>C6: A gateway that exits with 0 got a signal, and left no accepted event behind: from the moment it
  served to its end, in any interleaving of requests, worker, replay loop, failing listener and
  shutdown, nothing is left in memory and every event accepted was inserted, was counted as
  dropped or waits in a replayable spool file. None is missing, whatever fails; and the sum is
  exact unless a spool file that was delivered could not be removed, when its events may count
  both as inserted and as waiting. An exit with 1 happens only when the listener failed. (The
  process began with a start that resumed the file numbers, and they have not run out.)\<close>

theorem process_exit_accounts:
  assumes "gruns sendable cfg pid (launched replay srv) as g" "initial cfg (gw_pipe (launched replay srv))"
    "ranges_ok cfg" "0 \<le> pid"
  shows "(gw_phase g = Ended 0 \<longrightarrow>
      Signal \<in> set as \<and> ing_ch (p_ing (gw_pipe g)) = [] \<and> p_batch (gw_pipe g) = [] \<and> ing_bufBytes (p_ing (gw_pipe g)) = 0 \<and>
      spooled (ing_dir (srv_ingest srv)) + m_inserted (srv_m srv) + m_dropped (srv_m srv) +
        int (length (accepted_lines (worked as))) \<le>
      spooled (ing_dir (p_ing (gw_pipe g))) + m_inserted (ing_m (p_ing (gw_pipe g))) + m_dropped (ing_m (p_ing (gw_pipe g))) \<and>
      (retires (worked as) \<longrightarrow>
        spooled (ing_dir (p_ing (gw_pipe g))) + m_inserted (ing_m (p_ing (gw_pipe g))) + m_dropped (ing_m (p_ing (gw_pipe g))) =
          spooled (ing_dir (srv_ingest srv)) + m_inserted (srv_m srv) + m_dropped (srv_m srv) +
          int (length (accepted_lines (worked as))))) \<and>
    (gw_phase g \<in> range Ended \<longrightarrow> gw_phase g = Ended 0 \<or> gw_phase g = Ended 1 \<and> ListenFails \<in> set as)"
proof -
  have r: "runs sendable cfg pid (gw_pipe (launched replay srv)) (worked as) (gw_pipe g)" by (rule gruns_runs [OF assms(1)])
  have inv: "gateway_inv as g"
    by (rule gateway_reachable [OF assms(1) _ _ assms(2)]) (simp_all add: launched_def)
  note p = reachable_inv [OF r assms(2-4)]
  have "gw_phase g = Ended 0 \<or> gw_phase g = Ended 1 \<and> ListenFails \<in> set as" if "gw_phase g \<in> range Ended"
    using that inv by (auto simp: gateway_inv_def)
  moreover have "Signal \<in> set as \<and> p_worker (gw_pipe g) = Gone" if "gw_phase g = Ended 0"
    using that inv by (simp add: gateway_inv_def)
  moreover have "ing_ch (p_ing (gw_pipe g)) = [] \<and> p_batch (gw_pipe g) = [] \<and> ing_bufBytes (p_ing (gw_pipe g)) = 0"
    if "p_worker (gw_pipe g) = Gone"
    using that p by (simp add: pipeline_inv_def control_inv_def buffer_inv_def)
  moreover note pipeline_gone_accounts [OF r assms(2-4), unfolded accounted_def]
  moreover have "p_ing (gw_pipe (launched replay srv)) = srv_ingest srv" "ing_m (srv_ingest srv) = srv_m srv"
    by (simp_all add: launched_def srv_m_def)
  ultimately show ?thesis by simp
qed

section \<open>Shutting down ends\<close>

lemma gruns_append:
  "gruns sendable cfg pid h bs k \<Longrightarrow> gruns sendable cfg pid g as h \<Longrightarrow> gruns sendable cfg pid g (as @ bs) k"
proof (induction rule: gruns.induct)
  case (gruns_step h bs k a l)
  then show ?case using gruns.gruns_step [of sendable cfg pid g "as @ bs" k a l] by simp
qed simp

lemma gruns_one: "gstep sendable cfg pid g a h \<Longrightarrow> gruns sendable cfg pid g [a] h"
  using gruns.gruns_step [OF gruns.gruns_none] by fastforce

lemma runs_gruns:
  "runs sendable cfg pid p as q \<Longrightarrow> gw_pipe g = p \<Longrightarrow> gw_phase g = Stopping \<Longrightarrow> list_all (\<lambda>a. \<not> handler_action a) as \<Longrightarrow>
   gruns sendable cfg pid g (map Work as) (g\<lparr>gw_pipe := q\<rparr>)"
proof (induction rule: runs.induct)
  case (runs_none p)
  then show ?case using gruns.gruns_none [of sendable cfg pid g] by (cases g) simp
next
  case (runs_step p as q a r)
  have "gstep sendable cfg pid (g\<lparr>gw_pipe := q\<rparr>) (Work a) (g\<lparr>gw_pipe := q\<rparr>\<lparr>gw_pipe := r\<rparr>)"
    by (rule gstep.work) (use runs_step in auto)
  then show ?case using gruns.gruns_step runs_step by fastforce
qed

text \<open>The three parts of \<open>stop\<close>: what is left of its own steps, the worker, the replay loop.\<close>

lemma stop_closes:
  assumes "control_inv cfg p"
  shows "\<exists>as q. runs sendable cfg pid p as q \<and> set as \<subseteq> set stop_actions \<and> ing_closed (p_ing q) \<and> ing_stopReplay (p_ing q) \<and>
    length as \<le> 3 \<and> work_left q = work_left p \<and> ing_spoolSeq (p_ing q) = ing_spoolSeq (p_ing p)"
proof -
  let ?d = "\<lambda>p. p\<lparr>p_ing := (p_ing p)\<lparr>ing_draining := True\<rparr>\<rparr>"
  let ?r = "\<lambda>p. p\<lparr>p_ing := (p_ing p)\<lparr>ing_stopReplay := True\<rparr>\<rparr>"
  let ?c = "\<lambda>p. p\<lparr>p_ing := (p_ing p)\<lparr>ing_closed := True\<rparr>\<rparr>"
  have c: "\<exists>as q. runs sendable cfg pid p as q \<and> set as \<subseteq> set stop_actions \<and> ing_closed (p_ing q) \<and> ing_stopReplay (p_ing q) \<and>
      length as \<le> 1 \<and> work_left q = work_left p \<and> ing_spoolSeq (p_ing q) = ing_spoolSeq (p_ing p)"
    if "ing_stopReplay (p_ing p)" for p
  proof (cases "ing_closed (p_ing p)")
    case True
    then show ?thesis using that runs.runs_none by (intro exI [of _ "[]"] exI [of _ p]) simp
  next
    case False
    have "pstep sendable cfg pid p CloseBuffer (?c p)" by (rule close_buffer [OF that False])
    from runs_Cons [OF this runs.runs_none] show ?thesis
      using that by (intro exI [of _ "[CloseBuffer]"] exI [of _ "?c p"]) (simp add: stop_actions_def work_left_def)
  qed
  have r: "\<exists>as q. runs sendable cfg pid p as q \<and> set as \<subseteq> set stop_actions \<and> ing_closed (p_ing q) \<and> ing_stopReplay (p_ing q) \<and>
      length as \<le> 2 \<and> work_left q = work_left p \<and> ing_spoolSeq (p_ing q) = ing_spoolSeq (p_ing p)"
    if "ing_draining (p_ing p)" for p
  proof (cases "ing_stopReplay (p_ing p)")
    case True
    then show ?thesis using c [of p] by force
  next
    case False
    have st: "pstep sendable cfg pid p StopReplay (?r p)" by (rule stop_replay [OF that False])
    obtain as q where "runs sendable cfg pid (?r p) as q" "set as \<subseteq> set stop_actions" "ing_closed (p_ing q)" "ing_stopReplay (p_ing q)"
      "length as \<le> 1" "work_left q = work_left (?r p)" "ing_spoolSeq (p_ing q) = ing_spoolSeq (p_ing (?r p))"
      using c [of "?r p"] by auto
    then show ?thesis
      using runs_Cons [OF st] by (intro exI [of _ "StopReplay # as"] exI [of _ q]) (simp add: stop_actions_def work_left_def)
  qed
  show ?thesis
  proof (cases "ing_draining (p_ing p)")
    case True
    then show ?thesis using r [of p] by force
  next
    case False
    have st: "pstep sendable cfg pid p Drain (?d p)" by (rule drain [OF False])
    obtain as q where "runs sendable cfg pid (?d p) as q" "set as \<subseteq> set stop_actions" "ing_closed (p_ing q)" "ing_stopReplay (p_ing q)"
      "length as \<le> 2" "work_left q = work_left (?d p)" "ing_spoolSeq (p_ing q) = ing_spoolSeq (p_ing (?d p))"
      using r [of "?d p"] by auto
    then show ?thesis
      using runs_Cons [OF st] by (intro exI [of _ "Drain # as"] exI [of _ q]) (simp add: stop_actions_def work_left_def)
  qed
qed

lemma replay_leaves:
  assumes "ing_stopReplay (p_ing p)"
  shows "\<exists>as q. runs sendable cfg pid p as q \<and> list_all (\<lambda>a. \<not> handler_action a) as \<and> length as \<le> 4 \<and> p_replay q = Left \<and>
    p_worker q = p_worker p \<and> ing_closed (p_ing q) = ing_closed (p_ing p)"
proof -
  have exit: "\<exists>as q. runs sendable cfg pid p as q \<and> list_all (\<lambda>a. \<not> handler_action a) as \<and> length as \<le> 1 \<and> p_replay q = Left \<and>
      p_worker q = p_worker p \<and> ing_closed (p_ing q) = ing_closed (p_ing p)"
    if "p_replay p = Waiting" "ing_stopReplay (p_ing p)" for p
    using runs_Cons [OF replay_exit [OF that] runs.runs_none]
    by (intro exI [of _ "[ReplayExit]"] exI [of _ "p\<lparr>p_replay := Left\<rparr>"]) (simp add: handler_action_def)
  have store: "\<exists>as q. runs sendable cfg pid p as q \<and> list_all (\<lambda>a. \<not> handler_action a) as \<and> length as \<le> 2 \<and> p_replay q = Left \<and>
      p_worker q = p_worker p \<and> ing_closed (p_ing q) = ing_closed (p_ing p)"
    if "p_replay p = Storing files bytes" "ing_stopReplay (p_ing p)" for p files bytes
  proof -
    note stopped = that(2)
    define p1 where "p1 = p\<lparr>p_ing := (p_ing p)\<lparr>ing_m := (ing_m (p_ing p))\<lparr>m_spoolFiles := files, m_spoolBytes := bytes\<rparr>\<rparr>, p_replay := Waiting\<rparr>"
    have st: "pstep sendable cfg pid p StoreGauge p1" unfolding p1_def by (rule store_gauge [OF that(1)])
    obtain as q where q: "runs sendable cfg pid p1 as q" "list_all (\<lambda>a. \<not> handler_action a) as" "length as \<le> 1" "p_replay q = Left"
      "p_worker q = p_worker p1" "ing_closed (p_ing q) = ing_closed (p_ing p1)"
      using exit [of p1] stopped by (auto simp: p1_def)
    then show ?thesis
      using runs_Cons [OF st q(1)] by (intro exI [of _ "StoreGauge # as"] exI [of _ q]) (simp add: p1_def handler_action_def)
  qed
  have unlisted: "\<exists>as q. runs sendable cfg pid p as q \<and> list_all (\<lambda>a. \<not> handler_action a) as \<and> length as \<le> 3 \<and> p_replay q = Left \<and>
      p_worker q = p_worker p \<and> ing_closed (p_ing q) = ing_closed (p_ing p)"
    if "p_replay p = Measuring" "ing_stopReplay (p_ing p)" for p
  proof -
    note stopped = that(2)
    define p1 where "p1 = p\<lparr>p_replay := Waiting\<rparr>"
    have st: "pstep sendable cfg pid p Measure p1"
      using measure_spool [OF that(1), of sendable cfg pid False] by (simp add: p1_def)
    obtain as q where q: "runs sendable cfg pid p1 as q" "list_all (\<lambda>a. \<not> handler_action a) as" "length as \<le> 1" "p_replay q = Left"
      "p_worker q = p_worker p1" "ing_closed (p_ing q) = ing_closed (p_ing p1)"
      using exit [of p1] stopped by (auto simp: p1_def)
    then show ?thesis
      using runs_Cons [OF st q(1)] by (intro exI [of _ "Measure # as"] exI [of _ q]) (simp add: p1_def handler_action_def)
  qed
  show ?thesis
  proof (cases "p_replay p")
    case (Sweeping names)
    define p1 where "p1 = p\<lparr>p_replay := Measuring\<rparr>"
    have st: "pstep sendable cfg pid p SweepEnd p1" unfolding p1_def by (rule sweep_end [OF Sweeping]) (use assms in simp)
    obtain as q where q: "runs sendable cfg pid p1 as q" "list_all (\<lambda>a. \<not> handler_action a) as" "length as \<le> 3" "p_replay q = Left"
      "p_worker q = p_worker p1" "ing_closed (p_ing q) = ing_closed (p_ing p1)"
      using unlisted [of p1] assms by (auto simp: p1_def)
    then show ?thesis
      using runs_Cons [OF st q(1)] by (intro exI [of _ "SweepEnd # as"] exI [of _ q]) (simp add: p1_def handler_action_def)
  next
    case Left
    then show ?thesis using runs.runs_none by (intro exI [of _ "[]"] exI [of _ p]) simp
  next
    case Waiting
    then show ?thesis using exit [OF Waiting assms] by force
  next
    case Measuring
    then show ?thesis using unlisted [OF Measuring assms] by force
  next
    case (Storing files bytes)
    then show ?thesis using store [OF Storing assms] by force
  qed
qed

lemma worker_action_own: "worker_action a \<Longrightarrow> \<not> handler_action a" "worker_action a \<Longrightarrow> a \<notin> set stop_actions"
  by (auto simp: worker_action_def handler_action_def stop_actions_def)

lemma runs_keeps_stopped:
  "runs sendable cfg pid p as q \<Longrightarrow> list_all (\<lambda>a. a \<notin> set stop_actions) as \<Longrightarrow>
   ing_stopReplay (p_ing q) = ing_stopReplay (p_ing p) \<and> ing_closed (p_ing q) = ing_closed (p_ing p)"
proof (induction rule: runs.induct)
  case (runs_step p as q a r)
  then show ?case using pstep_flags [OF runs_step(2)] by simp
qed simp

text \<open>From the moment \<open>stop\<close> is called, with the counter away from its end, the process has a run to
  its orderly end of at most four steps per buffered event and twelve more, without any request
  being served; nothing it waits for can keep it.\<close>

lemma stopping_ends:
  assumes "gw_phase g = Stopping" "pipeline_inv cfg (gw_pipe g)" "ranges_ok cfg" "0 \<le> pid"
    "ing_spoolSeq (p_ing (gw_pipe g)) + 4 * int (length (ing_ch (p_ing (gw_pipe g)))) + 4 < 2 ^ 64 - 1"
  shows "\<exists>as h. gruns sendable cfg pid g as h \<and> gw_phase h = Ended 0 \<and>
    length as \<le> 4 * length (ing_ch (p_ing (gw_pipe g))) + 12 \<and> list_all (\<lambda>a. \<not> handler_action a) (worked as)"
proof -
  let ?p = "gw_pipe g"
  have ctl: "control_inv cfg ?p" using assms(2) by (simp add: pipeline_inv_def)
  obtain as1 p1 where s1: "runs sendable cfg pid ?p as1 p1" "set as1 \<subseteq> set stop_actions" "ing_closed (p_ing p1)" "ing_stopReplay (p_ing p1)"
    "length as1 \<le> 3" "work_left p1 = work_left ?p" "ing_spoolSeq (p_ing p1) = ing_spoolSeq (p_ing ?p)"
    using stop_closes [OF ctl] by blast
  have inv1: "pipeline_inv cfg p1"
    using s1(1) assms(2-4) by (induction rule: runs.induct) (auto intro: pipeline_step_inv)
  have le: "work_left ?p \<le> 4 * length (ing_ch (p_ing ?p)) + 4" by (simp add: work_left_def split: worker_pc.split)
  then have "ing_spoolSeq (p_ing p1) + int (work_left p1) < 2 ^ 64 - 1" using assms(5) s1(6,7) by linarith
  then obtain as2 p2 where s2: "runs sendable cfg pid p1 as2 p2" "list_all worker_action as2" "length as2 \<le> work_left p1" "p_worker p2 = Gone"
    using worker_finishes [OF inv1 s1(3) _ assms(3,4)] by blast
  have f2: "ing_stopReplay (p_ing p2)" "ing_closed (p_ing p2)"
    using runs_keeps_stopped [OF s2(1)] s2(2) s1(3,4) worker_action_own(2) by (auto simp: list_all_iff)
  obtain as3 p3 where s3: "runs sendable cfg pid p2 as3 p3" "list_all (\<lambda>a. \<not> handler_action a) as3" "length as3 \<le> 4" "p_replay p3 = Left"
    "p_worker p3 = Gone" "ing_closed (p_ing p3)"
    using replay_leaves [OF f2(1)] s2(4) f2(2) by metis
  define as where "as = as1 @ as2 @ as3"
  have "runs sendable cfg pid ?p as p3" unfolding as_def by (intro runs_append [OF runs_append [OF s3(1) s2(1)] s1(1)])
  moreover have own: "list_all (\<lambda>a. \<not> handler_action a) as"
    using s1(2) s2(2) s3(2) worker_action_own(1)
    by (auto simp: as_def list_all_iff stop_actions_def handler_action_def dest!: subsetD)
  ultimately have r: "gruns sendable cfg pid g (map Work as) (g\<lparr>gw_pipe := p3\<rparr>)"
    using runs_gruns [OF _ refl assms(1)] by blast
  have "gstep sendable cfg pid (g\<lparr>gw_pipe := p3\<rparr>) ExitZero (g\<lparr>gw_pipe := p3, gw_phase := Ended 0\<rparr>)"
    using gstep.exit_zero [of "g\<lparr>gw_pipe := p3\<rparr>" sendable cfg pid] assms(1) s3(4-6) by simp
  then have "gruns sendable cfg pid g (map Work as @ [ExitZero]) (g\<lparr>gw_pipe := p3, gw_phase := Ended 0\<rparr>)"
    by (rule gruns.gruns_step [OF r])
  moreover have "worked (map Work bs) = bs" for bs by (induction bs) (simp_all add: worked_def)
  then have "worked (map Work as @ [ExitZero]) = as" by simp
  moreover have "length as \<le> 11 + 4 * length (ing_ch (p_ing ?p))"
    using s1(5,6) s2(3) s3(3) le by (simp add: as_def)
  ultimately show ?thesis
    using own by (intro exI [of _ "map Work as @ [ExitZero]"] exI [of _ "g\<lparr>gw_pipe := p3, gw_phase := Ended 0\<rparr>"]) simp
qed

text \<open>C9: After a signal the gateway can always get out: every state of a process that was told to stop
  has a run to exit code 0 of at most four steps per buffered event and fourteen more, on which
  no request is served. (It began with a start that resumed the file numbers, and there are
  enough of them left for what is buffered.)\<close>

theorem process_stops:
  assumes "gruns sendable cfg pid (launched replay srv) as g" "initial cfg (gw_pipe (launched replay srv))"
    "ranges_ok cfg" "0 \<le> pid" "gw_phase g \<in> {ShuttingDown, Stopping}"
    "ing_spoolSeq (p_ing (gw_pipe g)) + 4 * int (length (ing_ch (p_ing (gw_pipe g)))) + 4 < 2 ^ 64 - 1"
  shows "\<exists>bs h. gruns sendable cfg pid g bs h \<and> gw_phase h = Ended 0 \<and>
    length bs \<le> 4 * length (ing_ch (p_ing (gw_pipe g))) + 14 \<and> list_all (\<lambda>a. \<not> handler_action a) (worked bs)"
proof -
  have "runs sendable cfg pid (gw_pipe (launched replay srv)) (worked as) (gw_pipe g)" by (rule gruns_runs [OF assms(1)])
  from reachable_inv [OF this assms(2-4)] have inv: "pipeline_inv cfg (gw_pipe g)" .
  have "\<exists>bs h. gruns sendable cfg pid g bs h \<and> gw_phase h = Stopping \<and> gw_pipe h = gw_pipe g \<and> length bs \<le> 2 \<and> worked bs = []"
  proof (cases "gw_phase g = Stopping")
    case True
    then show ?thesis using gruns.gruns_none by (intro exI [of _ "[]"] exI [of _ g]) (simp add: worked_def)
  next
    case False
    then have ph: "gw_phase g = ShuttingDown" using assms(5) by simp
    define g1 where "g1 = (if gw_listener g = Listening then g\<lparr>gw_listener := ListenClosed\<rparr> else g)"
    define bs where "bs = (if gw_listener g = Listening then [CloseListener] else [])"
    have r1: "gruns sendable cfg pid g bs g1"
      using gruns_one [OF close_listener [OF ph]] gruns.gruns_none by (simp add: bs_def g1_def)
    have "gw_phase g1 = ShuttingDown" "gw_listener g1 \<noteq> Listening" using ph by (simp_all add: g1_def)
    then have "gstep sendable cfg pid g1 (ShutdownReturns True) (g1\<lparr>gw_phase := Stopping, gw_quiet := True\<rparr>)"
      by (rule shutdown_returns)
    from gruns.gruns_step [OF r1 this] show ?thesis
      by (intro exI [of _ "bs @ [ShutdownReturns True]"] exI [of _ "g1\<lparr>gw_phase := Stopping, gw_quiet := True\<rparr>"])
        (simp add: bs_def g1_def worked_def)
  qed
  then obtain bs h where h: "gruns sendable cfg pid g bs h" "gw_phase h = Stopping" "gw_pipe h = gw_pipe g" "length bs \<le> 2" "worked bs = []"
    by blast
  have hp: "pipeline_inv cfg (gw_pipe h)"
    "ing_spoolSeq (p_ing (gw_pipe h)) + 4 * int (length (ing_ch (p_ing (gw_pipe h)))) + 4 < 2 ^ 64 - 1"
    using inv assms(6) by (simp_all add: h(3))
  obtain cs k where k: "gruns sendable cfg pid h cs k" "gw_phase k = Ended 0"
    "length cs \<le> 4 * length (ing_ch (p_ing (gw_pipe h))) + 12" "list_all (\<lambda>a. \<not> handler_action a) (worked cs)"
    using stopping_ends [OF h(2) hp(1) assms(3,4) hp(2)] by blast
  have "worked (bs @ cs) = worked bs @ worked cs" by (simp add: worked_def)
  then show ?thesis
    using gruns_append [OF k(1) h(1)] k(2-4) h(3-5) by (intro exI [of _ "bs @ cs"] exI [of _ k]) simp
qed

section \<open>What the warning means\<close>

text \<open>The warning about MAX_BATCH_EVENTS is exact. When it is given, no batch of that size is ever
  accepted, whatever is buffered; when it is not, and the buffer has no byte limit, an idle
  gateway accepts every batch of up to MAX_BATCH_EVENTS rows.\<close>

lemma batch_warning_exact:
  assumes "length rows \<noteq> 0" "int (length rows) \<le> maxBatchEvents cfg"
  shows "(BatchExceedsBuffer (maxBatchEvents cfg) (bufferSize cfg) \<in> set (startup_warnings cfg) \<and>
      int (length rows) = maxBatchEvents cfg \<longrightarrow> enqueue cfg rows ip s = ((0, int (length rows)), s)) \<and>
    (BatchExceedsBuffer (maxBatchEvents cfg) (bufferSize cfg) \<notin> set (startup_warnings cfg) \<and>
      bufferMaxBytes cfg = 0 \<and> \<not> ing_closed s \<and> ing_ch s = [] \<longrightarrow>
      fst (enqueue cfg rows ip s) = (int (length rows), 0))"
  using assms by (auto simp: enqueue_result fits_def enqueue_lines_def ing_depth_def startup_warnings_def)

section \<open>A stop\<close>

definition demo_gateway :: server where
  "demo_gateway = \<lparr>srv_cfg = race_config, srv_ingest = demo_ingester [], srv_rl = None, srv_inflight = None,
     srv_ready = newReadinessCache (5 * 1000000000)\<rparr>"

lemma demo_launched:
  "gw_pipe (launched True demo_gateway) = demo_start" "gw_listener (launched True demo_gateway) = Listening"
  "gw_phase (launched True demo_gateway) = Running" "\<not> gw_quiet (launched True demo_gateway)"
  by (simp_all add: launched_def demo_gateway_def demo_start_def)

lemma demo_shutdown:
  "gruns (\<lambda>_. True) race_config 1 (launched True demo_gateway) [Signal] ((launched True demo_gateway)\<lparr>gw_phase := ShuttingDown\<rparr>)"
  by (rule gruns_one, rule signal) (simp add: demo_launched)

definition demo_exit :: "main_action list" where
  "demo_exit = [Signal, CloseListener, ShutdownReturns True, Work Drain, Work StopReplay, Work CloseBuffer, Work Finish,
     Work ReplayExit, ExitZero]"

lemma gruns_Cons: "gstep sendable cfg pid g a h \<Longrightarrow> gruns sendable cfg pid h as k \<Longrightarrow> gruns sendable cfg pid g (a # as) k"
  using gruns_append [OF _ gruns_one] by fastforce

lemma demo_exit_run:
  obtains g where "gruns (\<lambda>_. True) race_config 1 (launched True demo_gateway) demo_exit g" "gw_phase g = Ended 0"
proof -
  note f = demo_start_facts
  define g0 where "g0 = launched True demo_gateway"
  have g0: "gw_pipe g0 = demo_start" "gw_listener g0 = Listening" "gw_phase g0 = Running" by (simp_all add: g0_def demo_launched)
  define p1 where "p1 = demo_start\<lparr>p_ing := (p_ing demo_start)\<lparr>ing_draining := True\<rparr>\<rparr>"
  define p2 where "p2 = p1\<lparr>p_ing := (p_ing p1)\<lparr>ing_stopReplay := True\<rparr>\<rparr>"
  define p3 where "p3 = p2\<lparr>p_ing := (p_ing p2)\<lparr>ing_closed := True\<rparr>\<rparr>"
  define p4 where "p4 = p3\<lparr>p_worker := Gone\<rparr>"
  define p5 where "p5 = p4\<lparr>p_replay := Left\<rparr>"
  define g1 where "g1 = g0\<lparr>gw_phase := ShuttingDown\<rparr>"
  define g2 where "g2 = g1\<lparr>gw_listener := ListenClosed\<rparr>"
  define g3 where "g3 = g2\<lparr>gw_phase := Stopping, gw_quiet := True\<rparr>"
  note defs = g1_def g2_def g3_def p1_def p2_def p3_def p4_def p5_def
  have p: "pstep (\<lambda>_. True) race_config 1 demo_start Drain p1" "pstep (\<lambda>_. True) race_config 1 p1 StopReplay p2"
    "pstep (\<lambda>_. True) race_config 1 p2 CloseBuffer p3" "pstep (\<lambda>_. True) race_config 1 p4 ReplayExit p5"
    unfolding p1_def p2_def p3_def p5_def
    by (rule pstep.drain pstep.stop_replay pstep.close_buffer pstep.replay_exit; use f in \<open>simp add: defs\<close>)+
  have p': "pstep (\<lambda>_. True) race_config 1 p3 Finish p4"
    using pstep.channel_closed [of p3 "\<lambda>_. True" race_config 1] f by (simp add: defs)
  have g: "gstep (\<lambda>_. True) race_config 1 g0 Signal g1" "gstep (\<lambda>_. True) race_config 1 g1 CloseListener g2"
    "gstep (\<lambda>_. True) race_config 1 g2 (ShutdownReturns True) g3"
    unfolding g1_def g2_def g3_def
    by (rule signal close_listener shutdown_returns; use g0 in \<open>simp add: defs\<close>)+
  have w: "gstep (\<lambda>_. True) race_config 1 (g3\<lparr>gw_pipe := q\<rparr>) (Work a) (g3\<lparr>gw_pipe := r\<rparr>)"
    if "pstep (\<lambda>_. True) race_config 1 q a r" "\<not> handler_action a" for q a r
    using gstep.work [of "g3\<lparr>gw_pipe := q\<rparr>" "\<lambda>_. True" race_config 1 a r] that by (auto simp: defs)
  have g3: "g3\<lparr>gw_pipe := demo_start\<rparr> = g3" using g0(1) by (cases g0) (simp add: defs)
  have z: "gstep (\<lambda>_. True) race_config 1 (g3\<lparr>gw_pipe := p5\<rparr>) ExitZero (g3\<lparr>gw_pipe := p5, gw_phase := Ended 0\<rparr>)"
    using gstep.exit_zero [of "g3\<lparr>gw_pipe := p5\<rparr>" "\<lambda>_. True" race_config 1] by (simp add: defs)
  have "gruns (\<lambda>_. True) race_config 1 g0 demo_exit (g3\<lparr>gw_pipe := p5, gw_phase := Ended 0\<rparr>)"
    unfolding demo_exit_def
    by (rule gruns_Cons [OF g(1)], rule gruns_Cons [OF g(2)], rule gruns_Cons [OF g(3)],
        rule gruns_Cons [OF w [OF p(1), unfolded g3]], simp add: handler_action_def,
        rule gruns_Cons [OF w [OF p(2)]], simp add: handler_action_def,
        rule gruns_Cons [OF w [OF p(3)]], simp add: handler_action_def,
        rule gruns_Cons [OF w [OF p']], simp add: handler_action_def,
        rule gruns_Cons [OF w [OF p(4)]], simp add: handler_action_def,
        rule gruns_one [OF z])
  then show thesis using that by (simp add: g0_def)
qed

lemma process_exit_accounts_witness:
  "\<exists>g. gruns (\<lambda>_. True) race_config 1 (launched True demo_gateway) demo_exit g \<and> gw_phase g = Ended 0 \<and>
    accounted (p_ing (gw_pipe g)) = accounted (srv_ingest demo_gateway)"
proof -
  obtain g where g: "gruns (\<lambda>_. True) race_config 1 (launched True demo_gateway) demo_exit g" "gw_phase g = Ended 0"
    by (rule demo_exit_run)
  have "worked demo_exit = [Drain, StopReplay, CloseBuffer, Finish, ReplayExit]" by (simp add: worked_def demo_exit_def)
  then have "retires (worked demo_exit)" "accepted_lines (worked demo_exit) = []" by (simp_all add: retires_def accepted_lines_def)
  then show ?thesis
    using process_exit_accounts [OF g(1) _ race_config_ok] demo_start_initial g
    by (auto simp: demo_launched accounted_def srv_m_def)
qed

lemma process_stops_witness:
  "\<exists>bs h. gruns (\<lambda>_. True) race_config 1 ((launched True demo_gateway)\<lparr>gw_phase := ShuttingDown\<rparr>) bs h \<and> gw_phase h = Ended 0 \<and>
    length bs \<le> 14"
  using process_stops [OF demo_shutdown _ race_config_ok] demo_start_initial demo_start_facts
  by (auto simp: demo_launched)

end
