(* ===== verification/GoClient.thy ===== *)
theory GoClient
  imports ParseFacts
begin

text \<open>
  \<open>clients/go/client.go\<close>: the Go client of the gateway. Events, their JSON, the options, the
  buffer of the batch mode, and the way a batch is cut until every request fits the gateway's
  limits. \<open>net/http\<close> is a parameter: \<open>cl_http\<close> answers the k-th request, \<open>sendable\<close> tells
  whether a URL can be requested. Every request with its answer is recorded in \<open>cl_posted\<close>,
  every error handed to the sink in \<open>cl_reported\<close>.
\<close>

section \<open>Events and their JSON\<close>

text \<open>
  The values of a context (\<open>map[string]any\<close>). \<open>VOther\<close> is any other value: the text
  \<open>encoding/json\<close> prints for it (a float, a \<open>json.Marshaler\<close>), or \<open>None\<close> when it refuses
  (NaN, a channel, a function, a failing \<open>Marshaler\<close>).
\<close>

datatype goval =
    VNull | VBool bool | VInt int | VString string | VOther "string option"
  | VList "goval list" | VMap "(string \<times> goval) list"

definition list_text :: "string list \<Rightarrow> string" where
  "list_text ts = ''['' @ join '','' ts @ '']''"

definition map_text :: "(string \<times> string) list \<Rightarrow> string" where
  "map_text kvs = ''{'' @ join '','' (map (\<lambda>(k, t). quote True k @ '':'' @ t) kvs) @ ''}''"

text \<open>\<open>json.Marshal\<close>: a map in the order of its keys.\<close>

definition sort_members :: "(string \<times> 'a) list \<Rightarrow> (string \<times> 'a) list" where
  "sort_members = isort (\<lambda>a b. fst a < fst b)"

fun marshal_value :: "goval \<Rightarrow> string option" where
  "marshal_value VNull = Some ''null''"
| "marshal_value (VBool b) = Some (if b then ''true'' else ''false'')"
| "marshal_value (VInt n) = Some (itoa n)"
| "marshal_value (VString s) = Some (quote True s)"
| "marshal_value (VOther t) = t"
| "marshal_value (VList vs) = map_option list_text (those (map marshal_value vs))"
| "marshal_value (VMap kvs) =
     map_option (\<lambda>ms. map_text (sort_members ms))
       (those (map (\<lambda>(k, v). map_option (Pair k) (marshal_value v)) kvs))"

record event =
  cev_project :: string
  cev_level :: string
  cev_message :: string
  cev_context :: "(string \<times> goval) list"
  cev_timestamp :: string

text \<open>The members of an event, \<open>omitempty\<close> applied.\<close>

definition event_members :: "event \<Rightarrow> (string \<times> goval) list" where
  "event_members e =
     [(''project'', VString (cev_project e))] @
     (if cev_level e = [] then [] else [(''level'', VString (cev_level e))]) @
     [(''message'', VString (cev_message e))] @
     (if cev_context e = [] then [] else [(''context'', VMap (cev_context e))]) @
     (if cev_timestamp e = [] then [] else [(''timestamp'', VString (cev_timestamp e))])"

definition marshal_event :: "event \<Rightarrow> string option" where
  "marshal_event e =
     map_option map_text (those (map (\<lambda>(k, v). map_option (Pair k) (marshal_value v)) (event_members e)))"

definition marshal_events :: "event list \<Rightarrow> string option" where
  "marshal_events es = map_option list_text (those (map marshal_event es))"

section \<open>Errors\<close>

datatype cerror =
    BufferFull int int
  | EventTooLarge string string string int int int
  | Unencodable
  | BadURL
  | NoTransport
  | GatewayError nat string
  | Joined "cerror list"

definition gateway_error_text :: "nat \<Rightarrow> string \<Rightarrow> string" where
  "gateway_error_text code reason =
     ''logden: gateway returned '' @ itoa (int code) @ (if reason = [] then [] else '': '' @ reason)"

text \<open>\<open>errors.Join\<close>.\<close>

definition join_errors :: "cerror option list \<Rightarrow> cerror option" where
  "join_errors es = (case List.map_filter id es of [] \<Rightarrow> None | fs \<Rightarrow> Some (Joined fs))"

section \<open>The client\<close>

record wire_request =
  wr_method :: string
  wr_url :: string
  wr_headers :: "(string \<times> string) list"
  wr_body :: string

datatype wire_reply = NoAnswer | Answer nat reader

type_synonym http_client = "nat \<Rightarrow> wire_request \<Rightarrow> wire_reply"

datatype sink = DefaultSink | Sink nat

record client =
  cl_endpoint :: string
  cl_token :: string
  cl_project :: string
  cl_http :: http_client
  cl_maxBatch :: int
  cl_maxBodyBytes :: int
  cl_maxBuffer :: int
  cl_onError :: sink
  cl_buf :: "event list"
  cl_dropped :: int
  cl_batch :: int
  cl_interval :: int
  cl_wake :: bool
  cl_stop :: bool
  cl_posted :: "(wire_request \<times> wire_reply) list"
  cl_reported :: "(sink \<times> cerror) list"

definition defaultMaxBatch :: int where "defaultMaxBatch = 1000"
definition defaultMaxBodyBytes :: int where "defaultMaxBodyBytes = 4 * 2 ^ 20"
definition defaultMaxBuffer :: int where "defaultMaxBuffer = 10000"

text \<open>The timeout of the default \<open>http.Client\<close>, in nanoseconds.\<close>

definition defaultTimeout :: int where "defaultTimeout = 5 * 1000000000"

datatype client_option =
    WithHTTPClient http_client
  | WithBatch int int
  | WithLimits int int
  | WithMaxBuffer int
  | WithOnError "nat option"

fun apply_option :: "client_option \<Rightarrow> client \<Rightarrow> client" where
  "apply_option (WithHTTPClient h) c = c\<lparr>cl_http := h\<rparr>"
| "apply_option (WithBatch events interval) c = c\<lparr>cl_batch := events, cl_interval := interval\<rparr>"
| "apply_option (WithLimits events body) c =
     c\<lparr>cl_maxBatch := (if 0 < events then events else cl_maxBatch c),
       cl_maxBodyBytes := (if 0 < body then body else cl_maxBodyBytes c)\<rparr>"
| "apply_option (WithMaxBuffer events) c = (if 0 < events then c\<lparr>cl_maxBuffer := events\<rparr> else c)"
| "apply_option (WithOnError fn) c = (case fn of Some f \<Rightarrow> c\<lparr>cl_onError := Sink f\<rparr> | None \<Rightarrow> c)"

text \<open>What \<open>New\<close> settles after the options.\<close>

definition clamp_batch :: "client \<Rightarrow> client" where
  "clamp_batch c =
     (let c1 = (if cl_maxBatch c < cl_batch c then c\<lparr>cl_batch := cl_maxBatch c\<rparr> else c);
          c2 = (if cl_maxBuffer c1 < cl_batch c1 then c1\<lparr>cl_batch := cl_maxBuffer c1\<rparr> else c1) in
      if 0 < cl_batch c2 \<and> cl_interval c2 \<le> 0 then c2\<lparr>cl_interval := 1000000000\<rparr> else c2)"

definition New :: "http_client \<Rightarrow> string \<Rightarrow> string \<Rightarrow> string \<Rightarrow> client_option list \<Rightarrow> client" where
  "New default_http endpoint token project opts =
     clamp_batch (fold apply_option opts
       \<lparr>cl_endpoint = trim_right ''/'' endpoint, cl_token = token, cl_project = project,
        cl_http = default_http, cl_maxBatch = defaultMaxBatch, cl_maxBodyBytes = defaultMaxBodyBytes,
        cl_maxBuffer = defaultMaxBuffer, cl_onError = DefaultSink, cl_buf = [], cl_dropped = 0,
        cl_batch = 0, cl_interval = 0, cl_wake = False, cl_stop = False, cl_posted = [], cl_reported = []\<rparr>)"

section \<open>The gateway's reason\<close>

definition maxErrorBody :: int where
  "maxErrorBody = 4096"

text \<open>The loop of \<open>sanitizeReason\<close> over the runes: an invalid byte is read as U+FFFD.\<close>

fun sanitize_runes :: "nat \<Rightarrow> utok list \<Rightarrow> string" where
  "sanitize_runes n [] = []"
| "sanitize_runes n (t # ts) =
     (case n of
        0 \<Rightarrow> []
      | Suc n' \<Rightarrow>
          (case t of
             Rune r \<Rightarrow>
               if length r = 1 \<and> (byte_of (hd r) < 0x20 \<or> byte_of (hd r) = 0x7F) then sanitize_runes n ts
               else r @ sanitize_runes n' ts
           | Stray b \<Rightarrow> replacement_char @ sanitize_runes n' ts))"

definition sanitizeReason :: "string \<Rightarrow> string" where
  "sanitizeReason s = sanitize_runes 120 (scan_utf8 s)"

text \<open>\<open>json.Unmarshal\<close> into \<open>struct{Error string}\<close>: the last member whose name folds to
  \<open>error\<close>; a value that is not a string is a type error.\<close>

definition error_member :: "string \<times> string \<Rightarrow> string option \<Rightarrow> string option" where
  "error_member kv acc =
     (case kv of (k, v) \<Rightarrow>
        (case unquote k of
           None \<Rightarrow> acc
         | Some name \<Rightarrow>
             if fold_name name \<noteq> fold_name ''error'' \<or> v = ''null'' then acc
             else Option.bind acc (\<lambda>_. unquote v)))"

definition payload_error :: "string \<Rightarrow> string option" where
  "payload_error data =
     (if \<not> json_valid data then None
      else
        (let v = (case read_raw data of ReadOk v _ \<Rightarrow> v | _ \<Rightarrow> []) in
         if v = ''null'' then Some []
         else case members v of
           None \<Rightarrow> None
         | Some kvs \<Rightarrow> fold error_member kvs (Some [])))"

definition readReason :: "reader \<Rightarrow> string" where
  "readReason body =
     (let rs = limit_reader maxErrorBody body in
      if stream_fails rs \<or> stream_data rs = [] then []
      else case payload_error (stream_data rs) of None \<Rightarrow> [] | Some reason \<Rightarrow> sanitizeReason reason)"

section \<open>Sending\<close>

definition log_request :: "client \<Rightarrow> string \<Rightarrow> wire_request" where
  "log_request c body =
     \<lparr>wr_method = ''POST'', wr_url = cl_endpoint c @ ''/logs'',
      wr_headers = [(''Authorization'', ''Bearer '' @ cl_token c), (''Content-Type'', ''application/json'')],
      wr_body = body\<rparr>"

definition post :: "(string \<Rightarrow> bool) \<Rightarrow> string \<Rightarrow> client \<Rightarrow> cerror option \<times> client" where
  "post sendable body c =
     (let req = log_request c body in
      if \<not> sendable (wr_url req) then (Some BadURL, c)
      else
        (let reply = cl_http c (length (cl_posted c)) req;
             c' = c\<lparr>cl_posted := cl_posted c @ [(req, reply)]\<rparr> in
         case reply of
           NoAnswer \<Rightarrow> (Some NoTransport, c')
         | Answer code answer \<Rightarrow>
             (if code div 100 \<noteq> 2 then Some (GatewayError code (readReason answer)) else None, c')))"

definition oversized :: "client \<Rightarrow> event \<Rightarrow> int \<Rightarrow> cerror" where
  "oversized c e bodyBytes =
     EventTooLarge (cev_project e) (cev_level e) (cev_timestamp e) (int (length (cev_message e))) bodyBytes
       (cl_maxBodyBytes c)"

definition without_context :: "event \<Rightarrow> event" where
  "without_context e = e\<lparr>cev_context := [(''_unserializable'', VBool True)]\<rparr>"

definition sendWithoutContext ::
  "(string \<Rightarrow> bool) \<Rightarrow> event \<Rightarrow> cerror \<Rightarrow> client \<Rightarrow> cerror option \<times> client" where
  "sendWithoutContext sendable e cause c =
     (let e' = without_context e in
      case marshal_events [e'] of
        None \<Rightarrow> (Some cause, c)
      | Some body \<Rightarrow>
          if cl_maxBodyBytes c < int (length body) then
            (join_errors [Some cause, Some (oversized c e' (int (length body)))], c)
          else
            (case post sendable body c of
               (Some err, c') \<Rightarrow> (join_errors [Some cause, Some err], c')
             | (None, c') \<Rightarrow> (Some cause, c')))"

text \<open>\<open>send\<close> and \<open>split\<close> call each other; \<open>split\<close> is the branch that halves, taken when the
  events together cannot be encoded or do not fit and there is more than one.\<close>

function send :: "(string \<Rightarrow> bool) \<Rightarrow> event list \<Rightarrow> client \<Rightarrow> cerror option \<times> client" where
  "send sendable events c =
     (if events = [] then (None, c)
      else
        (let body = marshal_events events;
             half = length events div 2 in
         if 1 < length events \<and> (case body of None \<Rightarrow> True | Some text \<Rightarrow> cl_maxBodyBytes c < int (length text))
         then
           (case send sendable (take half events) c of
              (e1, c1) \<Rightarrow>
                (case send sendable (drop half events) c1 of (e2, c2) \<Rightarrow> (join_errors [e1, e2], c2)))
         else
           (case body of
              None \<Rightarrow> sendWithoutContext sendable (hd events) Unencodable c
            | Some text \<Rightarrow>
                if cl_maxBodyBytes c < int (length text)
                then (Some (oversized c (hd events) (int (length text))), c)
                else post sendable text c)))"
  by pat_completeness auto
termination
  by (relation "measure (\<lambda>(_, events, _). length events)") auto

declare send.simps [simp del]

section \<open>Buffering\<close>

text \<open>The locked part of \<open>Log\<close>: the event is appended, the oldest ones above the cap are
  dropped, and \<open>full\<close> is read.\<close>

definition append_event :: "event \<Rightarrow> client \<Rightarrow> bool \<times> client" where
  "append_event e c =
     (let buf = cl_buf c @ [e];
          over = int (length buf) - cl_maxBuffer c;
          c1 = (if 0 < over then c\<lparr>cl_buf := drop (nat over) buf, cl_dropped := cl_dropped c + over\<rparr>
                else c\<lparr>cl_buf := buf\<rparr>) in
      (cl_batch c \<le> int (length (cl_buf c1)), c1))"

text \<open>After the lock is released, a full batch sends a wake (one at most is pending).\<close>

definition send_wake :: "client \<Rightarrow> client" where
  "send_wake c = c\<lparr>cl_wake := True\<rparr>"

definition buffer_event :: "event \<Rightarrow> client \<Rightarrow> client" where
  "buffer_event e c = (case append_event e c of (full, c') \<Rightarrow> if full then send_wake c' else c')"

definition Log ::
  "(string \<Rightarrow> bool) \<Rightarrow> time \<Rightarrow> string \<Rightarrow> string \<Rightarrow> (string \<times> goval) list \<Rightarrow> client \<Rightarrow> cerror option \<times> client" where
  "Log sendable now level message fs c =
     (let e = \<lparr>cev_project = cl_project c, cev_level = level, cev_message = message, cev_context = fs,
                cev_timestamp = format_nano now\<rparr> in
      if 0 < cl_batch c then (None, buffer_event e c) else send sendable [e] c)"

text \<open>The level helpers; \<open>Warn\<close> is another name of \<open>Warning\<close>.\<close>

definition Debug where "Debug sendable now = Log sendable now ''debug''"
definition Info where "Info sendable now = Log sendable now ''info''"
definition Notice where "Notice sendable now = Log sendable now ''notice''"
definition Warning where "Warning sendable now = Log sendable now ''warning''"
definition Error where "Error sendable now = Log sendable now ''error''"
definition Critical where "Critical sendable now = Log sendable now ''critical''"
definition Warn where "Warn = Warning"

section \<open>Flushing\<close>

definition report :: "cerror option \<Rightarrow> client \<Rightarrow> client" where
  "report err c = (case err of None \<Rightarrow> c | Some e \<Rightarrow> c\<lparr>cl_reported := cl_reported c @ [(cl_onError c, e)]\<rparr>)"

definition take_drops :: "client \<Rightarrow> int \<times> client" where
  "take_drops c = (cl_dropped c, c\<lparr>cl_dropped := 0\<rparr>)"

definition reportDrops :: "client \<Rightarrow> client" where
  "reportDrops c =
     (case take_drops c of
        (n, c') \<Rightarrow> if 0 < n then report (Some (BufferFull n (cl_maxBuffer c'))) c' else c')"

text \<open>One locked round of \<open>Flush\<close>: a chunk is cut off the buffer. (\<open>maxBatch\<close> is positive, so
  a chunk is empty only when the buffer is.)\<close>

definition take_chunk :: "client \<Rightarrow> event list \<times> client" where
  "take_chunk c =
     (let n = nat (min (int (length (cl_buf c))) (cl_maxBatch c)) in
      (take n (cl_buf c), c\<lparr>cl_buf := drop n (cl_buf c)\<rparr>))"

text \<open>\<open>others k\<close> is what other goroutines do to the client during the k-th round.\<close>

function flush_loop ::
  "(nat \<Rightarrow> client \<Rightarrow> client) \<Rightarrow> (string \<Rightarrow> bool) \<Rightarrow> nat \<Rightarrow> int \<Rightarrow> cerror option list \<Rightarrow> client \<Rightarrow>
   cerror option \<times> client" where
  "flush_loop others sendable k left errs c =
     (if left \<le> 0 then (join_errors errs, c)
      else
        (case take_chunk c of
           (chunk, c1) \<Rightarrow>
             if chunk = [] then (join_errors errs, c1)
             else
               (case send sendable chunk c1 of
                  (err, c2) \<Rightarrow>
                    flush_loop others sendable (Suc k) (left - int (length chunk)) (errs @ [err]) (others k c2))))"
  by pat_completeness auto
termination
  by (relation "measure (\<lambda>(_, _, _, left, _, _). nat left)") auto

declare flush_loop.simps [simp del]

definition Flush ::
  "(nat \<Rightarrow> client \<Rightarrow> client) \<Rightarrow> (string \<Rightarrow> bool) \<Rightarrow> client \<Rightarrow> cerror option \<times> client" where
  "Flush others sendable c =
     (let c1 = reportDrops c in flush_loop others sendable 0 (int (length (cl_buf c1))) [] c1)"

definition flushReporting :: "(nat \<Rightarrow> client \<Rightarrow> client) \<Rightarrow> (string \<Rightarrow> bool) \<Rightarrow> client \<Rightarrow> client" where
  "flushReporting others sendable c = (case Flush others sendable c of (err, c') \<Rightarrow> report err c')"

definition Close ::
  "(nat \<Rightarrow> client \<Rightarrow> client) \<Rightarrow> (string \<Rightarrow> bool) \<Rightarrow> client \<Rightarrow> cerror option \<times> client" where
  "Close others sendable c =
     Flush others sendable (if 0 < cl_batch c then c\<lparr>cl_stop := True\<rparr> else c)"

section \<open>Many goroutines\<close>

text \<open>
  The batch mode as steps of the locked regions. \<open>Woken\<close> is the flusher between its wake and
  the reading of \<open>pending\<close>, \<open>Draining left\<close> in the loop of \<open>Flush\<close>, \<open>Gone\<close> after it saw
  \<open>stop\<close>. Callers of \<open>Flush\<close> take chunks and drop counts as well. Requests are sent outside
  the lock and touch nothing the lock guards. \<open>bt_logged\<close>, \<open>bt_chunks\<close> and \<open>bt_lost\<close> record
  what was logged, what was taken to be sent, and the drops reported.
\<close>

datatype flusher = Waiting | Woken | Draining int | Gone

record batching =
  bt_c :: client
  bt_pc :: flusher
  bt_logged :: "event list"
  bt_chunks :: "event list list"
  bt_lost :: int
  bt_full :: nat

inductive bstep :: "batching \<Rightarrow> batching \<Rightarrow> bool" where
  b_log: "append_event e (bt_c b) = (full, c) \<Longrightarrow>
    bstep b (b\<lparr>bt_c := c, bt_logged := bt_logged b @ [e], bt_full := bt_full b + (if full then 1 else 0)\<rparr>)"
| b_send: "0 < bt_full b \<Longrightarrow> bstep b (b\<lparr>bt_c := send_wake (bt_c b), bt_full := bt_full b - 1\<rparr>)"
| b_tick: "bt_pc b = Waiting \<Longrightarrow> bstep b (b\<lparr>bt_pc := Woken\<rparr>)"
| b_wake: "bt_pc b = Waiting \<Longrightarrow> cl_wake (bt_c b) \<Longrightarrow>
    bstep b (b\<lparr>bt_pc := Woken, bt_c := (bt_c b)\<lparr>cl_wake := False\<rparr>\<rparr>)"
| b_drops: "take_drops (bt_c b) = (n, c) \<Longrightarrow> bstep b (b\<lparr>bt_c := c, bt_lost := bt_lost b + n\<rparr>)"
| b_pending: "bt_pc b = Woken \<Longrightarrow> bstep b (b\<lparr>bt_pc := Draining (int (length (cl_buf (bt_c b))))\<rparr>)"
| b_chunk: "bt_pc b = Draining left \<Longrightarrow> 0 < left \<Longrightarrow> take_chunk (bt_c b) = (chunk, c) \<Longrightarrow> chunk \<noteq> [] \<Longrightarrow>
    bstep b (b\<lparr>bt_pc := Draining (left - int (length chunk)), bt_c := c, bt_chunks := bt_chunks b @ [chunk]\<rparr>)"
| b_done: "bt_pc b = Draining left \<Longrightarrow> left \<le> 0 \<or> fst (take_chunk (bt_c b)) = [] \<Longrightarrow>
    bstep b (b\<lparr>bt_pc := Waiting\<rparr>)"
| b_caller: "take_chunk (bt_c b) = (chunk, c) \<Longrightarrow> chunk \<noteq> [] \<Longrightarrow>
    bstep b (b\<lparr>bt_c := c, bt_chunks := bt_chunks b @ [chunk]\<rparr>)"
| b_close: "bstep b (b\<lparr>bt_c := (bt_c b)\<lparr>cl_stop := True\<rparr>\<rparr>)"
| b_gone: "bt_pc b = Waiting \<Longrightarrow> cl_stop (bt_c b) \<Longrightarrow> bstep b (b\<lparr>bt_pc := Gone\<rparr>)"

definition start_batching :: "client \<Rightarrow> batching" where
  "start_batching c = \<lparr>bt_c = c, bt_pc = Waiting, bt_logged = [], bt_chunks = [], bt_lost = 0, bt_full = 0\<rparr>"

end
