(* ===== verification/ClientFacts.thy ===== *)
theory ClientFacts
  imports GoClient "HOL-Library.Sublist"
begin

text \<open>
  What the Go client guarantees: its limits, whatever the options; the fate of every event
  handed to \<open>send\<close> and \<open>Flush\<close>; and, with any number of goroutines logging and flushing, the
  bounds of the buffer, the account of every event and the wake of the flusher.
\<close>

section \<open>The limits\<close>

definition limits_ok :: "client \<Rightarrow> bool" where
  "limits_ok c \<longleftrightarrow> 0 < cl_maxBatch c \<and> 0 < cl_maxBodyBytes c \<and> 0 < cl_maxBuffer c"

lemma apply_option_limits:
  "limits_ok c \<Longrightarrow> limits_ok (apply_option opt c) \<and> cl_buf (apply_option opt c) = cl_buf c \<and>
   cl_dropped (apply_option opt c) = cl_dropped c \<and> cl_wake (apply_option opt c) = cl_wake c"
  by (cases opt) (auto simp: limits_ok_def split: option.split)

lemma fold_option_limits:
  "limits_ok c \<Longrightarrow> limits_ok (fold apply_option opts c) \<and> cl_buf (fold apply_option opts c) = cl_buf c \<and>
   cl_dropped (fold apply_option opts c) = cl_dropped c \<and> cl_wake (fold apply_option opts c) = cl_wake c"
  by (induction opts arbitrary: c) (use apply_option_limits in auto)

text \<open>Every batch the client can ask for has a size the buffer reaches and the gateway takes.\<close>

definition fresh :: "client \<Rightarrow> bool" where
  "fresh c \<longleftrightarrow>
     limits_ok c \<and> cl_batch c \<le> cl_maxBatch c \<and> cl_batch c \<le> cl_maxBuffer c \<and>
     (0 < cl_batch c \<longrightarrow> 0 < cl_interval c) \<and> cl_buf c = [] \<and> cl_dropped c = 0 \<and> \<not> cl_wake c"

text \<open>Whatever options \<open>New\<close> is given, in any order and with any values, the client's limits are
  positive, and its batch size is at most both the request limit and the buffer cap, so that
  a full batch always fits and always wakes the flusher.\<close>

lemma New_fresh: "fresh (New http endpoint token project opts)"
proof -
  let ?base = "\<lparr>cl_endpoint = trim_right ''/'' endpoint, cl_token = token, cl_project = project,
        cl_http = http, cl_maxBatch = defaultMaxBatch, cl_maxBodyBytes = defaultMaxBodyBytes,
        cl_maxBuffer = defaultMaxBuffer, cl_onError = DefaultSink, cl_buf = [], cl_dropped = 0,
        cl_batch = 0, cl_interval = 0, cl_wake = False, cl_stop = False, cl_posted = [], cl_reported = []\<rparr>"
  define c where "c = fold apply_option opts ?base"
  have base: "limits_ok ?base"
    by (simp add: limits_ok_def defaultMaxBatch_def defaultMaxBodyBytes_def defaultMaxBuffer_def)
  have "limits_ok c \<and> cl_buf c = [] \<and> cl_dropped c = 0 \<and> \<not> cl_wake c"
    using fold_option_limits [OF base, of opts] by (simp add: c_def)
  then show ?thesis
    unfolding New_def c_def [symmetric] by (auto simp: fresh_def clamp_batch_def limits_ok_def Let_def)
qed

section \<open>What a foreign reason can do\<close>

definition no_control :: "char \<Rightarrow> bool" where
  "no_control c \<longleftrightarrow> 0x20 \<le> byte_of c \<and> c \<noteq> CHR 0x7F"

lemma kept_token:
  assumes "tok_ok t"
  shows "t = Rune r \<Longrightarrow> \<not> (length r = 1 \<and> (byte_of (hd r) < 0x20 \<or> byte_of (hd r) = 0x7F)) \<Longrightarrow>
    list_all no_control r \<and> length r \<le> 4 \<and> r \<noteq> [] \<and> rune_len r = length r"
  using assms
proof (cases rule: tok_cases)
  case (ascii b)
  then show "t = Rune r \<Longrightarrow> \<not> (length r = 1 \<and> (byte_of (hd r) < 0x20 \<or> byte_of (hd r) = 0x7F)) \<Longrightarrow> ?thesis"
    using rune_len_ascii [of b "[]"] by (auto simp: no_control_def simp del: rune_len.simps)
next
  case (multi r')
  then show "t = Rune r \<Longrightarrow> \<not> (length r = 1 \<and> (byte_of (hd r) < 0x20 \<or> byte_of (hd r) = 0x7F)) \<Longrightarrow> ?thesis"
    using rune_len_le4 [of r'] by (force simp: no_control_def list_all_iff simp del: rune_len.simps)
next
  case (stray b)
  then show "t = Rune r \<Longrightarrow> \<not> (length r = 1 \<and> (byte_of (hd r) < 0x20 \<or> byte_of (hd r) = 0x7F)) \<Longrightarrow> ?thesis" by simp
qed

lemma sanitize_runes_ok:
  "list_all tok_ok ts \<Longrightarrow>
   list_all no_control (sanitize_runes n ts) \<and> length (sanitize_runes n ts) \<le> 4 * n \<and> utf8_valid (sanitize_runes n ts)"
proof (induction n ts rule: sanitize_runes.induct)
  case (2 n t ts)
  have ts: "list_all tok_ok ts" and t: "tok_ok t" using 2(4) by simp_all
  show ?case
  proof (cases n)
    case 0
    then show ?thesis by simp
  next
    case (Suc n')
    show ?thesis
    proof (cases t)
      case (Rune r)
      show ?thesis
      proof (cases "length r = 1 \<and> (byte_of (hd r) < 0x20 \<or> byte_of (hd r) = 0x7F)")
        case True
        then show ?thesis using 2(1) [OF Suc Rune True ts] Suc Rune by simp
      next
        case False
        note k = kept_token [OF t Rune False]
        have "utf8_valid r" using utf8_valid_runes [of "[r]"] k by simp
        then show ?thesis
          using 2(2) [OF Suc Rune False ts] Suc Rune False k by (auto intro: utf8_valid_append)
      qed
    next
      case (Stray b)
      have "list_all no_control replacement_char" by (simp add: replacement_char_def no_control_def)
      then show ?thesis using 2(3) [OF Suc Stray ts] Suc Stray by (auto intro: utf8_valid_append)
    qed
  qed
qed simp

text \<open>Whatever an endpoint answers, the reason the client reports is at most 480 bytes of valid
  UTF-8 without a line break or any other ASCII control character, so it cannot forge a log
  record.\<close>

theorem readReason_bounded:
  "list_all no_control (readReason body) \<and> length (readReason body) \<le> 480 \<and> utf8_valid (readReason body)"
proof -
  have "list_all no_control (sanitizeReason s) \<and> length (sanitizeReason s) \<le> 480 \<and> utf8_valid (sanitizeReason s)" for s
    using sanitize_runes_ok [OF scan_utf8_ok, of 120 s] by (simp add: sanitizeReason_def)
  then show ?thesis by (simp add: readReason_def Let_def split: option.split)
qed

text \<open>The control characters above U+0080 are kept, the CSI of a terminal among them.\<close>

lemma sanitizeReason_keeps_csi: "sanitizeReason [CHR 0xC2, CHR 0x9B] = [CHR 0xC2, CHR 0x9B]"
  by code_simp

section \<open>The fate of an event\<close>

lemma join_errors_None [simp]: "join_errors es = None \<longleftrightarrow> (\<forall>e \<in> set es. e = None)"
proof -
  have "List.map_filter id es = [] \<longleftrightarrow> (\<forall>e \<in> set es. e = None)"
    by (induction es) (auto simp: List.map_filter_simps split: option.split)
  then show ?thesis by (cases "List.map_filter id es") (simp_all add: join_errors_def)
qed

text \<open>An event without its context always encodes.\<close>

lemma marshal_strings:
  "list_all (\<lambda>(k, v). marshal_value v \<noteq> None) kvs \<Longrightarrow>
   those (map (\<lambda>(k, v). map_option (Pair k) (marshal_value v)) kvs) =
   Some (map (\<lambda>(k, v). (k, the (marshal_value v))) kvs)"
  by (induction kvs) auto

lemma without_context_encodes: "\<exists>body. marshal_events [without_context e] = Some body"
proof -
  have "list_all (\<lambda>(k, v). marshal_value v \<noteq> None) (event_members (without_context e))"
    by (simp add: event_members_def without_context_def)
  from marshal_strings [OF this] show ?thesis
    by (simp add: marshal_events_def marshal_event_def)
qed

text \<open>\<open>Whole\<close> events went out together as they are, a \<open>Bare\<close> one without its context, an
  \<open>Oversized\<close> one does not fit a request on its own.\<close>

datatype fate = Whole "event list" | Bare event | Oversized event

fun fate_events :: "fate \<Rightarrow> event list" where
  "fate_events (Whole es) = es"
| "fate_events (Bare e) = [e]"
| "fate_events (Oversized e) = [e]"

fun fate_body :: "fate \<Rightarrow> string option" where
  "fate_body (Whole es) = marshal_events es"
| "fate_body (Bare e) = marshal_events [without_context e]"
| "fate_body (Oversized e) = None"

definition fits_body :: "int \<Rightarrow> string option \<Rightarrow> bool" where
  "fits_body limit body \<longleftrightarrow> (case body of None \<Rightarrow> False | Some t \<Rightarrow> int (length t) \<le> limit)"

definition exceeds :: "int \<Rightarrow> string option \<Rightarrow> bool" where
  "exceeds limit body \<longleftrightarrow> (case body of None \<Rightarrow> False | Some t \<Rightarrow> limit < int (length t))"

fun fate_ok :: "int \<Rightarrow> fate \<Rightarrow> bool" where
  "fate_ok limit (Whole es) \<longleftrightarrow> es \<noteq> [] \<and> fits_body limit (marshal_events es)"
| "fate_ok limit (Bare e) \<longleftrightarrow> marshal_events [e] = None \<and> fits_body limit (marshal_events [without_context e])"
| "fate_ok limit (Oversized e) \<longleftrightarrow>
     exceeds limit (marshal_events [e]) \<or>
     marshal_events [e] = None \<and> exceeds limit (marshal_events [without_context e])"

fun is_whole :: "fate \<Rightarrow> bool" where
  "is_whole (Whole es) \<longleftrightarrow> True"
| "is_whole _ \<longleftrightarrow> False"

fun accepted_reply :: "wire_reply \<Rightarrow> bool" where
  "accepted_reply NoAnswer \<longleftrightarrow> False"
| "accepted_reply (Answer code _) \<longleftrightarrow> code div 100 = 2"

type_synonym exchange = "wire_request \<times> wire_reply"

definition posts :: "client \<Rightarrow> exchange list \<Rightarrow> client" where
  "posts c xs = c\<lparr>cl_posted := cl_posted c @ xs\<rparr>"

lemma posts_simps [simp]:
  "posts c [] = c" "posts (posts c xs) ys = posts c (xs @ ys)"
  "cl_maxBodyBytes (posts c xs) = cl_maxBodyBytes c" "cl_endpoint (posts c xs) = cl_endpoint c"
  "cl_buf (posts c xs) = cl_buf c" "cl_maxBatch (posts c xs) = cl_maxBatch c"
  "cl_posted (posts c xs) = cl_posted c @ xs" "cl_dropped (posts c xs) = cl_dropped c"
  by (simp_all add: posts_def)

text \<open>The fates \<open>fs\<close> explain what was posted and the error.\<close>

definition settled :: "int \<Rightarrow> event list \<Rightarrow> fate list \<Rightarrow> exchange list \<Rightarrow> cerror option \<Rightarrow> bool" where
  "settled limit es fs xs err \<longleftrightarrow>
     concat (map fate_events fs) = es \<and> list_all (fate_ok limit) fs \<and>
     map (\<lambda>x. wr_body (fst x)) xs = List.map_filter fate_body fs \<and>
     (err = None \<longleftrightarrow> list_all is_whole fs \<and> list_all (\<lambda>x. accepted_reply (snd x)) xs)"

lemma settled_Nil: "settled limit [] [] [] None"
  by (simp add: settled_def List.map_filter_def)

lemma map_filter_append: "List.map_filter f (xs @ ys) = List.map_filter f xs @ List.map_filter f ys"
  by (simp add: List.map_filter_def)

lemma settled_append:
  "settled limit es fs xs e1 \<Longrightarrow> settled limit es' fs' xs' e2 \<Longrightarrow>
   settled limit (es @ es') (fs @ fs') (xs @ xs') (join_errors [e1, e2])"
  by (auto simp: settled_def map_filter_append)

lemma post_spec:
  assumes "post sendable body c = (err, c')" "sendable (cl_endpoint c @ ''/logs'')"
  shows "\<exists>x. c' = posts c [x] \<and> wr_body (fst x) = body \<and> (err = None \<longleftrightarrow> accepted_reply (snd x))"
proof -
  define x where "x = (log_request c body, cl_http c (length (cl_posted c)) (log_request c body))"
  have "wr_body (fst x) = body" by (simp add: x_def log_request_def)
  moreover have "wr_url (log_request c body) = cl_endpoint c @ ''/logs''" by (simp add: log_request_def)
  then have "c' = posts c [x] \<and> (err = None \<longleftrightarrow> accepted_reply (snd x))"
    using assms by (cases "snd x") (auto simp: post_def posts_def x_def Let_def split: if_splits)
  ultimately show ?thesis by blast
qed

lemma sendWithoutContext_spec:
  assumes "sendWithoutContext sendable e cause c = (err, c')" "sendable (cl_endpoint c @ ''/logs'')"
    "marshal_events [e] = None"
  shows "\<exists>fs xs. c' = posts c xs \<and> settled (cl_maxBodyBytes c) [e] fs xs err"
proof -
  obtain body where b: "marshal_events [without_context e] = Some body" using without_context_encodes by blast
  show ?thesis
  proof (cases "cl_maxBodyBytes c < int (length body)")
    case True
    then have c: "c' = posts c []"
      and e: "err = join_errors [Some cause, Some (oversized c (without_context e) (int (length body)))]"
      using assms(1) b by (auto simp: sendWithoutContext_def)
    have "err \<noteq> None" unfolding e by simp
    moreover have "fate_ok (cl_maxBodyBytes c) (Oversized e)" using b assms(3) True by (simp add: exceeds_def)
    ultimately have "settled (cl_maxBodyBytes c) [e] [Oversized e] [] err"
      by (simp add: settled_def List.map_filter_def)
    then show ?thesis using c by blast
  next
    case False
    obtain err1 c1 where p: "post sendable body c = (err1, c1)" by (cases "post sendable body c")
    obtain x where x: "c1 = posts c [x]" "wr_body (fst x) = body" using post_spec [OF p assms(2)] by blast
    have "(err, c') = (case err1 of Some er \<Rightarrow> (join_errors [Some cause, Some er], c1) | None \<Rightarrow> (Some cause, c1))"
      using assms(1) b False p by (cases err1) (simp_all add: sendWithoutContext_def)
    then have "c' = posts c [x]" "err \<noteq> None"
      by (cases err1; simp add: x(1))+
    moreover have "fate_ok (cl_maxBodyBytes c) (Bare e)" using b assms(3) False by (simp add: fits_body_def)
    ultimately have "settled (cl_maxBodyBytes c) [e] [Bare e] [x] err"
      using x b by (simp add: settled_def List.map_filter_def)
    then show ?thesis using \<open>c' = posts c [x]\<close> by blast
  qed
qed

lemma singleton: "es \<noteq> [] \<Longrightarrow> \<not> 1 < length es \<Longrightarrow> \<exists>e. es = [e]"
  by (cases es) auto

lemmas send_one = send.simps [of _ "[e]" for e]

lemma send_spec:
  "send sendable es c = (err, c') \<Longrightarrow> sendable (cl_endpoint c @ ''/logs'') \<Longrightarrow>
   \<exists>fs xs. c' = posts c xs \<and> settled (cl_maxBodyBytes c) es fs xs err"
proof (induction sendable es c arbitrary: err c' rule: send.induct)
  case (1 sendable es c)
  let ?limit = "cl_maxBodyBytes c" and ?body = "marshal_events es" and ?half = "length es div 2"
  let ?split = "1 < length es \<and> (case ?body of None \<Rightarrow> True | Some t \<Rightarrow> ?limit < int (length t))"
  consider "es = []" | "?split" | "es \<noteq> []" "\<not> ?split" by auto
  then show ?case
  proof cases
    case 1
    with "1.prems" have "err = None" "c' = posts c []" by (simp_all add: send.simps)
    with 1 show ?thesis using settled_Nil by blast
  next
    case 2
    then have "es \<noteq> []" by auto
    obtain e1 c1 where s1: "send sendable (take ?half es) c = (e1, c1)" by (cases "send sendable (take ?half es) c")
    obtain fs xs where h1: "c1 = posts c xs" "settled ?limit (take ?half es) fs xs e1"
      using "1.IH"(1) [OF \<open>es \<noteq> []\<close> refl refl 2 s1 "1.prems"(2)] by blast
    obtain e2 c2 where s2: "send sendable (drop ?half es) c1 = (e2, c2)" by (cases "send sendable (drop ?half es) c1")
    obtain gs ys where h2: "c2 = posts c1 ys" "settled ?limit (drop ?half es) gs ys e2"
      using "1.IH"(2) [OF \<open>es \<noteq> []\<close> refl refl 2 s1 [symmetric] s2] "1.prems"(2) h1(1) by auto
    have "err = join_errors [e1, e2]" "c' = posts c (xs @ ys)"
      using "1.prems"(1) \<open>es \<noteq> []\<close> 2 s1 s2 h1(1) h2(1) by (simp_all add: send.simps [of sendable es c] Let_def)
    then show ?thesis using settled_append [OF h1(2) h2(2)] by auto
  next
    case 3
    note s = send.simps [of sendable es c]
    show ?thesis
    proof (cases ?body)
      case None
      then obtain e where e: "es = [e]" using 3 singleton by auto
      then show ?thesis
        using sendWithoutContext_spec [of sendable e Unencodable c err c'] "1.prems" None
        by (simp add: send_one)
    next
      case (Some body)
      show ?thesis
      proof (cases "?limit < int (length body)")
        case True
        then obtain e where e: "es = [e]" using 3 Some singleton by auto
        have "fate_ok ?limit (Oversized e)" using e Some True by (simp add: exceeds_def)
        moreover have "err \<noteq> None" "c' = posts c []" using "1.prems"(1) e Some True by (auto simp: send_one)
        ultimately have "settled ?limit es [Oversized e] [] err" by (simp add: settled_def e List.map_filter_def)
        then show ?thesis using \<open>c' = posts c []\<close> by blast
      next
        case False
        have "post sendable body c = (err, c')" using "1.prems"(1) 3 Some False by (simp add: s)
        from post_spec [OF this "1.prems"(2)] obtain x where
          x: "c' = posts c [x]" "wr_body (fst x) = body" "err = None \<longleftrightarrow> accepted_reply (snd x)" by blast
        have "fate_ok ?limit (Whole es)" using 3 Some False by (simp add: fits_body_def)
        then have "settled ?limit es [Whole es] [x] err" using x Some by (simp add: settled_def List.map_filter_def)
        then show ?thesis using x by blast
      qed
    qed
  qed
qed

section \<open>What Flush settles\<close>

definition alone :: "nat \<Rightarrow> client \<Rightarrow> client" where
  "alone k c = c"

lemma take_chunk_simps:
  "take_chunk c = (take n (cl_buf c), c\<lparr>cl_buf := drop n (cl_buf c)\<rparr>)"
  if "n = nat (min (int (length (cl_buf c))) (cl_maxBatch c))"
  using that by (simp add: take_chunk_def Let_def)

lemma settled_chunks: "settled limit es fs xs err \<Longrightarrow> list_all (\<lambda>f. length (fate_events f) \<le> length es) fs"
proof -
  have "f \<in> set fs \<Longrightarrow> length (fate_events f) \<le> length (concat (map fate_events fs))" for f
    by (auto dest!: split_list)
  moreover assume "settled limit es fs xs err"
  ultimately show ?thesis by (simp add: settled_def list_all_iff)
qed

text \<open>With nobody else at work the loop empties the buffer.\<close>

lemma flush_loop_spec:
  assumes "flush_loop alone sendable k left errs c = (err, c')" "sendable (cl_endpoint c @ ''/logs'')"
    "0 < cl_maxBatch c" "left = int (length (cl_buf c))"
  shows "\<exists>fs xs e. c' = posts (c\<lparr>cl_buf := []\<rparr>) xs \<and> settled (cl_maxBodyBytes c) (cl_buf c) fs xs e \<and>
    list_all (\<lambda>f. int (length (fate_events f)) \<le> cl_maxBatch c) fs \<and>
    (err = None \<longleftrightarrow> e = None \<and> (\<forall>x \<in> set errs. x = None))"
  using assms
proof (induction "alone" sendable k left errs c arbitrary: err c' rule: flush_loop.induct)
  case (1 sendable k left errs c)
  show ?case
  proof (cases "left \<le> 0")
    case True
    then have "cl_buf c = []" using "1.prems"(4) by simp
    moreover have "err = join_errors errs" "c' = c" using "1.prems"(1) True by (simp_all add: flush_loop.simps)
    moreover have "c = posts (c\<lparr>cl_buf := []\<rparr>) []" using calculation(1) by simp
    ultimately show ?thesis using settled_Nil by (intro exI [of _ "[]"] exI [of _ None]) simp
  next
    case False
    define n where "n = nat (min (int (length (cl_buf c))) (cl_maxBatch c))"
    note tc = take_chunk_simps [OF n_def]
    have n: "0 < n" "n \<le> length (cl_buf c)" "int n \<le> cl_maxBatch c"
      using False "1.prems"(3,4) by (auto simp: n_def)
    have ne: "take n (cl_buf c) \<noteq> []" using n by auto
    let ?c1 = "c\<lparr>cl_buf := drop n (cl_buf c)\<rparr>"
    obtain e c2 where sd: "send sendable (take n (cl_buf c)) ?c1 = (e, c2)"
      by (cases "send sendable (take n (cl_buf c)) ?c1")
    obtain fs xs where h: "c2 = posts ?c1 xs" "settled (cl_maxBodyBytes c) (take n (cl_buf c)) fs xs e"
      using send_spec [OF sd] "1.prems"(2) by auto
    have loop: "flush_loop alone sendable (Suc k) (left - int n) (errs @ [e]) c2 = (err, c')"
      using "1.prems"(1) False ne sd n(2) by (simp add: flush_loop.simps [of alone sendable k] tc alone_def)
    have a: "alone k c2 = c2" by (simp add: alone_def)
    have len: "int (length (take n (cl_buf c))) = int n" using n by simp
    have pre: "sendable (cl_endpoint c2 @ ''/logs'')" "0 < cl_maxBatch c2" "left - int n = int (length (cl_buf c2))"
      using "1.prems"(2-4) h(1) n by simp_all
    obtain gs ys e2 where r: "c' = posts (c2\<lparr>cl_buf := []\<rparr>) ys"
      "settled (cl_maxBodyBytes c2) (cl_buf c2) gs ys e2"
      "list_all (\<lambda>f. int (length (fate_events f)) \<le> cl_maxBatch c2) gs"
      "err = None \<longleftrightarrow> e2 = None \<and> (\<forall>x \<in> set (errs @ [e]). x = None)"
      using "1.hyps" [OF False tc [symmetric] ne sd [symmetric], unfolded a len, OF loop pre] by blast
    have "settled (cl_maxBodyBytes c) (take n (cl_buf c) @ drop n (cl_buf c)) (fs @ gs) (xs @ ys) (join_errors [e, e2])"
      using settled_append [OF h(2), of "drop n (cl_buf c)" gs ys e2] r(2) h(1) by simp
    moreover have "list_all (\<lambda>f. int (length (fate_events f)) \<le> cl_maxBatch c) (fs @ gs)"
      using settled_chunks [OF h(2)] r(3) h(1) n by (auto simp: list_all_iff)
    moreover have "c' = posts (c\<lparr>cl_buf := []\<rparr>) (xs @ ys)" by (simp add: r(1) h(1) posts_def)
    ultimately show ?thesis
      using r(4) by (intro exI [of _ "fs @ gs"] exI [of _ "xs @ ys"] exI [of _ "join_errors [e, e2]"]) auto
  qed
qed

text \<open>C13: A \<open>Flush\<close> with nobody else at work empties the buffer and settles every event in it exactly
  once and in order: it goes out in a request of at most \<open>maxBatch\<close> events and \<open>maxBodyBytes\<close>
  bytes, or, when its context cannot be encoded, on its own without it, or is given up because
  it alone exceeds the limit. No event is lost in any other way, and \<open>Flush\<close> returns no error
  exactly when all of them went out as they are and every request was answered 2xx.\<close>

theorem Flush_settles:
  assumes "Flush alone sendable c = (err, c')" "sendable (cl_endpoint c @ ''/logs'')" "0 < cl_maxBatch c"
  shows "\<exists>fs xs. cl_buf c' = [] \<and> cl_dropped c' = 0 \<and> cl_posted c' = cl_posted c @ xs \<and>
    settled (cl_maxBodyBytes c) (cl_buf c) fs xs err \<and>
    list_all (\<lambda>f. int (length (fate_events f)) \<le> cl_maxBatch c) fs \<and>
    list_all (\<lambda>x. int (length (wr_body (fst x))) \<le> cl_maxBodyBytes c) xs"
proof -
  define c1 where "c1 = reportDrops c"
  have c1: "cl_buf c1 = cl_buf c" "cl_endpoint c1 = cl_endpoint c" "cl_maxBatch c1 = cl_maxBatch c"
    "cl_maxBodyBytes c1 = cl_maxBodyBytes c" "cl_posted c1 = cl_posted c" "cl_dropped c1 = 0"
    by (simp_all add: c1_def reportDrops_def take_drops_def report_def)
  have loop: "flush_loop alone sendable 0 (int (length (cl_buf c1))) [] c1 = (err, c')"
    using assms(1) by (simp add: Flush_def c1_def Let_def)
  obtain fs xs e where r: "c' = posts (c1\<lparr>cl_buf := []\<rparr>) xs" "settled (cl_maxBodyBytes c) (cl_buf c) fs xs e"
    "list_all (\<lambda>f. int (length (fate_events f)) \<le> cl_maxBatch c) fs" "err = None \<longleftrightarrow> e = None"
    using flush_loop_spec [OF loop] assms(2,3) by (auto simp: c1)
  have "list_all (\<lambda>x. int (length (wr_body (fst x))) \<le> cl_maxBodyBytes c) xs"
  proof -
    have "fate_ok limit f \<Longrightarrow> fate_body f = Some b \<Longrightarrow> int (length b) \<le> limit" for limit f b
      by (cases f) (auto simp: fits_body_def)
    then have "\<forall>b \<in> set (List.map_filter fate_body fs). int (length b) \<le> cl_maxBodyBytes c"
      using r(2) by (force simp: settled_def list_all_iff List.map_filter_def)
    moreover have "wr_body (fst x) \<in> set (List.map_filter fate_body fs)" if "x \<in> set xs" for x
      using r(2) that by (metis (no_types, lifting) image_eqI settled_def set_map)
    ultimately show ?thesis by (auto simp: list_all_iff)
  qed
  moreover have "settled (cl_maxBodyBytes c) (cl_buf c) fs xs err" using r(2,4) by (simp add: settled_def)
  ultimately show ?thesis using r(1,3) c1 by (intro exI [of _ fs] exI [of _ xs]) simp
qed

definition demo_event :: event where
  "demo_event = \<lparr>cev_project = ''shop'', cev_level = ''info'', cev_message = ''hi'',
     cev_context = [(''ratio'', VOther None)], cev_timestamp = []\<rparr>"

definition demo_client :: client where
  "demo_client =
     (New (\<lambda>_ _. Answer 204 []) ''http://logs:8080/'' ''s3cret'' ''shop'' [WithBatch 2 0, WithLimits 3 300])
       \<lparr>cl_buf := [demo_event, demo_event\<lparr>cev_context := []\<rparr>]\<rparr>"

lemma demo_client_fields:
  "cl_maxBodyBytes demo_client = 300" "cl_maxBatch demo_client = 3" "cl_posted demo_client = []"
  "cl_buf demo_client = [demo_event, demo_event\<lparr>cev_context := []\<rparr>]"
  by (simp_all add: demo_client_def New_def clamp_batch_def defaultMaxBatch_def defaultMaxBuffer_def Let_def)

lemma Flush_settles_witness:
  "\<exists>fs xs. cl_buf (snd (Flush alone (\<lambda>_. True) demo_client)) = [] \<and>
     cl_posted (snd (Flush alone (\<lambda>_. True) demo_client)) = xs \<and>
     settled 300 [demo_event, demo_event\<lparr>cev_context := []\<rparr>] fs xs (fst (Flush alone (\<lambda>_. True) demo_client))"
  using Flush_settles [of "\<lambda>_. True" demo_client, OF surjective_pairing]
  by (fastforce simp: demo_client_fields)

section \<open>Many goroutines\<close>

definition batching_run :: "client \<Rightarrow> batching \<Rightarrow> bool" where
  "batching_run c b \<longleftrightarrow> bstep\<^sup>*\<^sup>* (start_batching c) b"

lemma append_event_fields:
  assumes "append_event e c = (full, c')"
  shows "cl_maxBuffer c' = cl_maxBuffer c" "cl_maxBatch c' = cl_maxBatch c" "cl_batch c' = cl_batch c"
    "cl_buf c' = drop (nat (int (length (cl_buf c)) + 1 - cl_maxBuffer c)) (cl_buf c @ [e])"
    "cl_dropped c' = cl_dropped c + max 0 (int (length (cl_buf c)) + 1 - cl_maxBuffer c)"
    "cl_wake c' = cl_wake c" "full \<longleftrightarrow> cl_batch c \<le> int (length (cl_buf c'))"
  using assms by (auto simp: append_event_def Let_def add.commute split: if_splits)

lemma send_wake_fields [simp]:
  "cl_maxBuffer (send_wake c) = cl_maxBuffer c" "cl_maxBatch (send_wake c) = cl_maxBatch c"
  "cl_batch (send_wake c) = cl_batch c" "cl_buf (send_wake c) = cl_buf c" "cl_dropped (send_wake c) = cl_dropped c"
  "cl_wake (send_wake c)" "cl_stop (send_wake c) = cl_stop c"
  by (simp_all add: send_wake_def)

lemma take_chunk_fields:
  assumes "take_chunk c = (chunk, c')"
  shows "cl_buf c = chunk @ cl_buf c'" "0 < cl_maxBatch c \<Longrightarrow> int (length chunk) \<le> cl_maxBatch c"
    "chunk = [] \<Longrightarrow> 0 < cl_maxBatch c \<Longrightarrow> cl_buf c = []"
    "cl_maxBuffer c' = cl_maxBuffer c" "cl_maxBatch c' = cl_maxBatch c" "cl_batch c' = cl_batch c"
    "cl_dropped c' = cl_dropped c" "cl_wake c' = cl_wake c" "cl_stop c' = cl_stop c"
  using assms by (auto simp: take_chunk_def Let_def min_def split: if_splits)

lemma take_drops_fields:
  "take_drops c = (n, c') \<longleftrightarrow> n = cl_dropped c \<and> c' = c\<lparr>cl_dropped := 0\<rparr>"
  by (auto simp: take_drops_def)

text \<open>The configuration does not change, the buffer keeps to its cap and every event is where it
  should be.\<close>

definition accounted :: "batching \<Rightarrow> bool" where
  "accounted b \<longleftrightarrow>
     int (length (cl_buf (bt_c b))) \<le> cl_maxBuffer (bt_c b) \<and>
     list_all (\<lambda>ch. int (length ch) \<le> cl_maxBatch (bt_c b)) (bt_chunks b) \<and>
     subseq (concat (bt_chunks b) @ cl_buf (bt_c b)) (bt_logged b) \<and>
     int (length (bt_logged b)) =
       int (length (concat (bt_chunks b))) + int (length (cl_buf (bt_c b))) + cl_dropped (bt_c b) + bt_lost b"

definition limits_kept :: "client \<Rightarrow> client \<Rightarrow> bool" where
  "limits_kept c c' \<longleftrightarrow> cl_maxBatch c' = cl_maxBatch c \<and> cl_maxBuffer c' = cl_maxBuffer c \<and> cl_batch c' = cl_batch c"

lemma bstep_limits: "bstep b b' \<Longrightarrow> limits_kept (bt_c b) (bt_c b')"
  by (cases rule: bstep.cases) (auto simp: limits_kept_def take_drops_fields dest: append_event_fields take_chunk_fields)

lemma bstep_accounted:
  assumes "bstep b b'" "accounted b" "0 < cl_maxBatch (bt_c b)" "0 < cl_maxBuffer (bt_c b)"
  shows "accounted b'"
  using assms(1)
proof cases
  case (b_log e full c)
  let ?buf = "cl_buf (bt_c b)" and ?k = "nat (int (length (cl_buf (bt_c b))) + 1 - cl_maxBuffer (bt_c b))"
  have k: "?k \<le> length (?buf @ [e])" using assms(4) by simp
  have "subseq (concat (bt_chunks b) @ ?buf @ [e]) (bt_logged b @ [e])"
    using assms(2) subseq_append_iff [of "concat (bt_chunks b) @ ?buf" "[e]"]
    by (metis accounted_def append.assoc list_emb_append_mono subseq_order.order_refl)
  moreover have "subseq (concat (bt_chunks b) @ drop ?k (?buf @ [e])) (concat (bt_chunks b) @ ?buf @ [e])"
    by (rule list_emb_append_mono [OF subseq_order.order_refl]) (rule suffix_imp_subseq [OF suffix_drop])
  ultimately have "subseq (concat (bt_chunks b) @ drop ?k (?buf @ [e])) (bt_logged b @ [e])"
    using subseq_order.order_trans by blast
  then show ?thesis
    using assms(2,4) k by (auto simp: b_log(1) accounted_def append_event_fields [OF b_log(2)])
next
  case (b_chunk left chunk c)
  then show ?thesis using assms(2,3) take_chunk_fields [OF b_chunk(4)] by (auto simp: accounted_def)
next
  case (b_caller chunk c)
  then show ?thesis using assms(2,3) take_chunk_fields [OF b_caller(2)] by (auto simp: accounted_def)
next
  case (b_drops n c)
  then show ?thesis using assms(2) by (auto simp: accounted_def take_drops_fields)
qed (use assms(2) in \<open>auto simp: accounted_def\<close>)

interpretation limits: invariant_system bstep "\<lambda>b. limits_kept c (bt_c b)" for c
  by unfold_locales (auto simp: limits_kept_def dest: bstep_limits)

interpretation accounts: invariant_system bstep
    "\<lambda>b. 0 < cl_maxBatch (bt_c b) \<and> 0 < cl_maxBuffer (bt_c b) \<and> accounted b"
  by unfold_locales (use bstep_accounted bstep_limits in \<open>force simp: limits_kept_def\<close>)

text \<open>C15: However many goroutines log and flush, and in whatever order the locked regions run: the
  buffer never holds more than \<open>maxBuffer\<close> events; no chunk taken to be sent has more than
  \<open>maxBatch\<close> events; the events sent and waiting are events that were logged, each at most once
  and in the order they were logged; and those missing are exactly the ones counted as
  dropped, reported already or still to be.\<close>

theorem client_accounts:
  assumes "batching_run c b" "fresh c"
  shows "accounted b"
proof -
  have "0 < cl_maxBatch c \<and> 0 < cl_maxBuffer c \<and> accounted (start_batching c)"
    using assms(2) by (auto simp: accounted_def start_batching_def fresh_def limits_ok_def)
  then show ?thesis
    using accounts.reach_inv assms(1) by (fastforce simp: batching_run_def start_batching_def)
qed

text \<open>A client that batches by one, after one call of \<open>Log\<close>.\<close>

definition small_client :: client where
  "small_client = New (\<lambda>_ _. NoAnswer) ''http://logs'' ''s3cret'' ''shop'' [WithBatch 1 0, WithMaxBuffer 2]"

definition logged_once :: batching where
  "logged_once = (start_batching small_client)\<lparr>bt_c := snd (append_event demo_event small_client), bt_logged := [demo_event],
     bt_full := (if fst (append_event demo_event small_client) then 1 else 0)\<rparr>"

lemma logged_once_run: "batching_run small_client logged_once"
  using b_log [of demo_event "start_batching small_client" "fst (append_event demo_event small_client)"
      "snd (append_event demo_event small_client)"]
  by (auto simp: batching_run_def logged_once_def start_batching_def)

lemma small_client_fields:
  "fresh small_client" "cl_batch small_client = 1" "cl_maxBuffer small_client = 2" "cl_maxBatch small_client = 1000"
  using New_fresh [of "\<lambda>_ _. NoAnswer" "''http://logs''" "''s3cret''" "''shop''" "[WithBatch 1 0, WithMaxBuffer 2]"]
  by (simp_all add: small_client_def) (simp_all add: New_def clamp_batch_def defaultMaxBatch_def defaultMaxBuffer_def Let_def)

lemma client_accounts_witness: "accounted logged_once"
  by (rule client_accounts [OF logged_once_run small_client_fields(1)])

section \<open>No full batch is forgotten\<close>

definition wake_kept :: "batching \<Rightarrow> bool" where
  "wake_kept b \<longleftrightarrow>
     cl_wake (bt_c b) \<or> 0 < bt_full b \<or> int (length (cl_buf (bt_c b))) < cl_batch (bt_c b) \<or>
     (case bt_pc b of
        Waiting \<Rightarrow> False
      | Woken \<Rightarrow> True
      | Draining left \<Rightarrow> int (length (cl_buf (bt_c b))) \<le> left
      | Gone \<Rightarrow> cl_stop (bt_c b))"

lemma bstep_wake:
  assumes "bstep b b'" "wake_kept b" "0 < cl_maxBatch (bt_c b)" "0 < cl_batch (bt_c b)"
  shows "wake_kept b'"
  using assms(1)
proof cases
  case (b_log e full c)
  then show ?thesis
    by (cases full) (auto simp: wake_kept_def append_event_fields(3,7) [OF b_log(2)])
next
  case (b_chunk left chunk c)
  then show ?thesis
    using assms(2) take_chunk_fields [OF b_chunk(4)] by (auto simp: wake_kept_def split: flusher.splits)
next
  case (b_caller chunk c)
  then show ?thesis
    using assms(2) take_chunk_fields [OF b_caller(2)] by (auto simp: wake_kept_def split: flusher.splits)
next
  case (b_done left)
  obtain chunk c where "take_chunk (bt_c b) = (chunk, c)" by (cases "take_chunk (bt_c b)")
  then show ?thesis
    using b_done assms(2-4) take_chunk_fields(3) by (fastforce simp: wake_kept_def split: flusher.splits)
next
  case (b_drops n c)
  then show ?thesis using assms(2) by (auto simp: wake_kept_def take_drops_fields split: flusher.splits)
qed (use assms(2) in \<open>auto simp: wake_kept_def split: flusher.splits\<close>)

interpretation wakes: invariant_system bstep
    "\<lambda>b. 0 < cl_maxBatch (bt_c b) \<and> 0 < cl_batch (bt_c b) \<and> wake_kept b"
  by unfold_locales (use bstep_wake bstep_limits in \<open>force simp: limits_kept_def\<close>)

text \<open>C39: A full batch is never left behind: in every reachable state in which the buffer holds at least
  the batch size, a wake is pending, or a call of \<open>Log\<close> has released the lock and is about to
  send one, or the flusher is at work and has not got past these events, or it is gone because
  the client was closed. In particular a waiting flusher with a full batch has its wake as soon
  as the calls of \<open>Log\<close> under way have returned.\<close>

theorem client_wakes:
  assumes "batching_run c b" "fresh c" "0 < cl_batch c" "cl_batch c \<le> int (length (cl_buf (bt_c b)))"
  shows "cl_wake (bt_c b) \<or> 0 < bt_full b \<or> bt_pc b = Woken \<or>
    (\<exists>left. bt_pc b = Draining left \<and> int (length (cl_buf (bt_c b))) \<le> left) \<or>
    bt_pc b = Gone \<and> cl_stop (bt_c b)"
proof -
  have run: "bstep\<^sup>*\<^sup>* (start_batching c) b" using assms(1) by (simp add: batching_run_def)
  have "0 < cl_maxBatch c \<and> 0 < cl_batch c \<and> wake_kept (start_batching c)"
    using assms(2,3) by (simp add: wake_kept_def start_batching_def fresh_def limits_ok_def)
  then have "wake_kept b" using wakes.reach_inv [OF run] by (simp add: start_batching_def)
  moreover have "cl_batch (bt_c b) = cl_batch c"
    using limits.reach_inv [OF run, of c] by (simp add: limits_kept_def start_batching_def)
  ultimately show ?thesis using assms(4) by (auto simp: wake_kept_def split: flusher.splits)
qed

text \<open>After one call of \<open>Log\<close> that has not sent its wake yet, and after it has.\<close>

definition woken_once :: batching where
  "woken_once = logged_once\<lparr>bt_c := send_wake (bt_c logged_once), bt_full := 0\<rparr>"

lemma logged_once_fields:
  "bt_pc logged_once = Waiting" "bt_full logged_once = 1" "int (length (cl_buf (bt_c logged_once))) = 1"
  "\<not> cl_wake (bt_c logged_once)"
proof -
  obtain full c where a: "append_event demo_event small_client = (full, c)" by (cases "append_event demo_event small_client")
  have "cl_buf small_client = []" "\<not> cl_wake small_client" using small_client_fields(1) by (simp_all add: fresh_def)
  then have "cl_buf c = [demo_event]" "\<not> cl_wake c" using append_event_fields [OF a] small_client_fields(3) by simp_all
  moreover have full using append_event_fields(7) [OF a] small_client_fields(2) calculation(1) by simp
  ultimately show "bt_pc logged_once = Waiting" "bt_full logged_once = 1" "int (length (cl_buf (bt_c logged_once))) = 1"
    "\<not> cl_wake (bt_c logged_once)" by (simp_all add: logged_once_def start_batching_def a)
qed

lemma woken_once_run: "batching_run small_client woken_once"
proof -
  have "bstep logged_once woken_once" using b_send [of logged_once] by (simp add: woken_once_def logged_once_fields)
  then show ?thesis using logged_once_run by (simp add: batching_run_def)
qed

lemma client_wakes_witness: "cl_wake (bt_c woken_once)"
proof -
  have "bt_pc woken_once = Waiting" "bt_full woken_once = 0" "1 \<le> int (length (cl_buf (bt_c woken_once)))"
    by (simp_all add: woken_once_def logged_once_fields)
  then show ?thesis
    using client_wakes [OF woken_once_run small_client_fields(1)] small_client_fields(2) by simp
qed

end
