(* ===== verification/ClientGateway.thy ===== *)
theory ClientGateway
  imports ServerFacts ClientFacts
begin

text \<open>
  The client and the gateway speak the same language: what the client posts is a batch the
  gateway decodes to the same events, and the reason the gateway answers is the reason the
  client reports.
\<close>

section \<open>What the client prints is a JSON value\<close>

text \<open>Where the scanner stands after a value: the next separator is taken as at its end.\<close>

definition value_end :: "sstate \<Rightarrow> pstate list \<Rightarrow> bool" where
  "value_end st ps \<longleftrightarrow> (\<forall>d \<in> {CHR '','', CHR ''}'', CHR '']''}. scan_step d (st, ps) = end_value d ps)"

text \<open>A text the scanner takes for one value wherever a value may stand in a list or object;
  \<open>st\<close> is where it is at the end, inside a number for instance.\<close>

definition value_at :: "pstate list \<Rightarrow> string \<Rightarrow> bool" where
  "value_at ps t \<longleftrightarrow>
     (\<exists>c cs st. t = c # cs \<and> \<not> is_space c \<and> c \<noteq> CHR '']'' \<and> scans (BeginValue, ps) t (st, ps) \<and> value_end st ps)"

lemma value_atI:
  "scans (BeginValue, ps) (c # cs) (st, ps) \<Longrightarrow> value_end st ps \<Longrightarrow> \<not> is_space c \<Longrightarrow> c \<noteq> CHR '']'' \<Longrightarrow>
   value_at ps (c # cs)"
  unfolding value_at_def by blast

lemma value_end_states [simp]: "value_end EndValue ps" "value_end Num1 ps" "value_end Num0 ps"
  by (auto simp: value_end_def state0_def digit_def)

lemma value_at_words: "value_at ps ''null''" "value_at ps ''true''" "value_at ps ''false''"
  by (rule value_atI [of _ _ _ EndValue]; simp add: scans_def begin_value_def is_space_def)+

lemma value_at_quote: "value_at ps (quote html s)"
proof -
  have "scans (BeginValue, ps) (quote html s) (EndValue, ps)"
    by (rule scans_string) (simp add: begin_value_def is_space_def)
  then show ?thesis unfolding quote_def by (rule value_atI) (simp_all add: is_space_def)
qed

lemma not_digits [simp]:
  "\<not> digit CHR '' ''" "\<not> digit CHR 0x09" "\<not> digit CHR 0x0D" "\<not> digit CHR 0x0A" "\<not> digit CHR ''{''"
  "\<not> digit CHR ''[''" "\<not> digit CHR 0x22" "\<not> digit CHR ''-''" "\<not> digit CHR ''t''" "\<not> digit CHR ''f''"
  "\<not> digit CHR ''n''" "\<not> digit CHR '']''" "\<not> digit CHR '',''" "\<not> digit CHR ''}''" "\<not> digit CHR ''.''"
  "\<not> digit CHR ''e''" "\<not> digit CHR ''E''"
  by (simp_all add: digit_def)

lemma begin_digit:
  assumes "digit c" "c \<noteq> CHR ''0''"
  shows "scan_step c (BeginValue, ps) = (ScanBeginLiteral, (Num1, ps))" "scan_step c (Neg, ps) = (ScanContinue, (Num1, ps))"
    "\<not> is_space c" "c \<noteq> CHR '']''"
proof -
  have ne: "\<And>d. \<not> digit d \<Longrightarrow> c \<noteq> d" using assms by auto
  show "scan_step c (BeginValue, ps) = (ScanBeginLiteral, (Num1, ps))" "scan_step c (Neg, ps) = (ScanContinue, (Num1, ps))"
    "\<not> is_space c" "c \<noteq> CHR '']''"
    using assms by (simp_all add: begin_value_def is_space_def ne)
qed

lemma value_at_itoa: "value_at ps (itoa n)"
proof -
  consider "n < 0" | "n = 0" | "0 < n" by linarith
  then show ?thesis
  proof cases
    case 1
    obtain c cs where c: "dec (- n) = c # cs" "digit c" "c \<noteq> CHR ''0''" "list_all digit cs"
      using dec_first [of "- n"] 1 by auto
    have "scans (Neg, ps) (dec (- n)) (Num1, ps)"
      unfolding c(1) by (rule scans_Cons [OF begin_digit(2) [OF c(2,3)] _ scans_digits [OF c(4)]]) simp
    then have "scans (BeginValue, ps) (CHR ''-'' # dec (- n)) (Num1, ps)"
      by (intro scans_Cons [of _ _ ScanBeginLiteral "(Neg, ps)"]) (simp_all add: begin_value_def is_space_def)
    from value_atI [OF this] have "value_at ps (CHR ''-'' # dec (- n))" by (simp add: is_space_def)
    then show ?thesis using 1 by (simp add: itoa_def)
  next
    case 2
    have "scans (BeginValue, ps) ''0'' (Num0, ps)" by (simp add: scans_def begin_value_def is_space_def)
    from value_atI [OF this] have "value_at ps ''0''" by (simp add: is_space_def)
    moreover have "itoa 0 = ''0''" by code_simp
    ultimately show ?thesis using 2 by simp
  next
    case 3
    obtain c cs where c: "dec n = c # cs" "digit c" "c \<noteq> CHR ''0''" using dec_first [OF 3] by blast
    have "scans (BeginValue, ps) (c # cs) (Num1, ps)" using scans_dec [OF 3] c(1) by simp
    from value_atI [OF this] have "value_at ps (c # cs)" using begin_digit(3,4) [OF c(2,3)] by simp
    then show ?thesis using 3 c(1) by (simp add: itoa_def)
  qed
qed

section \<open>Lists and objects\<close>

lemma value_atE:
  assumes "value_at ps t"
  obtains c cs st where "t = c # cs" "\<not> is_space c" "c \<noteq> CHR '']''" "scans (BeginValue, ps) t (st, ps)" "value_end st ps"
  using assms unfolding value_at_def by blast

lemma scans_or_empty:
  "scans (BeginValue, ps) (c # cs) sc \<Longrightarrow> \<not> is_space c \<Longrightarrow> c \<noteq> CHR '']'' \<Longrightarrow> scans (BeginValueOrEmpty, ps) (c # cs) sc"
  by (simp add: scans_def)

lemma scans_values:
  "ts \<noteq> [] \<Longrightarrow> list_all (value_at (ParseArrayValue # ps)) ts \<Longrightarrow>
   \<exists>st. scans (BeginValue, ParseArrayValue # ps) (join '','' ts) (st, ParseArrayValue # ps) \<and>
     value_end st (ParseArrayValue # ps)"
proof (induction ts rule: induct_list012)
  case (2 t)
  then show ?case by (auto elim: value_atE)
next
  case (3 t u ts)
  let ?ps = "ParseArrayValue # ps" and ?rest = "join '','' (u # ts)"
  obtain st where st: "scans (BeginValue, ?ps) t (st, ?ps)" "value_end st ?ps" using 3(4) by (auto elim: value_atE)
  obtain st' where st': "scans (BeginValue, ?ps) ?rest (st', ?ps)" "value_end st' ?ps" using 3 by auto
  have "scans (st, ?ps) (CHR '','' # ?rest) (st', ?ps)"
    using st(2) by (intro scans_Cons [OF _ _ st'(1), of _ _ ScanArrayValue]) (simp_all add: value_end_def is_space_def)
  then show ?case using scans_append [OF st(1)] st'(2) by auto
qed simp

lemma value_at_list:
  assumes "list_all (value_at (ParseArrayValue # ps)) ts" "length ps < maxNestingDepth" "ps \<noteq> []"
  shows "value_at ps (list_text ts)"
proof -
  let ?ps = "ParseArrayValue # ps"
  have open_bracket: "scan_step CHR ''['' (BeginValue, ps) = (ScanBeginArray, (BeginValueOrEmpty, ?ps))"
    using assms(2) by (simp add: begin_value_def is_space_def push_def)
  have close_bracket: "end_value CHR '']'' ?ps = (ScanEndArray, (EndValue, ps))"
    using assms(3) by (simp add: is_space_def pop_def)
  have "scans (BeginValueOrEmpty, ?ps) (join '','' ts @ '']'') (EndValue, ps)"
  proof (cases ts)
    case Nil
    then show ?thesis using close_bracket by (simp add: scans_def is_space_def)
  next
    case (Cons t us)
    obtain st where st: "scans (BeginValue, ?ps) (join '','' ts) (st, ?ps)" "value_end st ?ps"
      using scans_values [of ts ps] assms(1) Cons by auto
    obtain c cs where t: "t = c # cs" "\<not> is_space c" "c \<noteq> CHR '']''"
      using assms(1) Cons by (auto elim: value_atE)
    then obtain ds where "join '','' ts = c # ds" using Cons by (cases us) auto
    then have "scans (BeginValueOrEmpty, ?ps) (join '','' ts) (st, ?ps)" using st(1) t scans_or_empty by simp
    moreover have "scans (st, ?ps) '']'' (EndValue, ps)" using st(2) close_bracket by (simp add: scans_def value_end_def)
    ultimately show ?thesis by (rule scans_append)
  qed
  then have "scans (BeginValue, ps) (CHR ''['' # join '','' ts @ '']'') (EndValue, ps)"
    by (intro scans_Cons [OF open_bracket]) simp_all
  from value_atI [OF this] show ?thesis by (simp add: list_text_def is_space_def)
qed

abbreviation member_text :: "string \<times> string \<Rightarrow> string" where
  "member_text \<equiv> (\<lambda>(k, t). quote True k @ '':'' @ t)"

lemma scans_members_any:
  "ms \<noteq> [] \<Longrightarrow> list_all (\<lambda>m. value_at (ParseObjectValue # ps) (snd m)) ms \<Longrightarrow>
   st0 = BeginString \<or> st0 = BeginStringOrEmpty \<Longrightarrow>
   \<exists>st. scans (st0, ParseObjectKey # ps) (join '','' (map member_text ms)) (st, ParseObjectValue # ps) \<and>
     value_end st (ParseObjectValue # ps)"
proof (induction ms arbitrary: st0)
  case (Cons m ms)
  let ?ps = "ParseObjectValue # ps"
  obtain k t where m: "m = (k, t)" by (cases m)
  obtain st where st: "scans (BeginValue, ?ps) t (st, ?ps)" "value_end st ?ps"
    using Cons.prems(2) m by (auto elim: value_atE)
  have "scans (st0, ParseObjectKey # ps) (quote True k) (EndValue, ParseObjectKey # ps)"
    using Cons.prems(3) by (intro scans_string) (auto simp: begin_string_def is_space_def)
  moreover have "scans (EndValue, ParseObjectKey # ps) (CHR '':'' # t) (st, ?ps)"
    by (rule scans_Cons [OF _ _ st(1), of _ _ ScanObjectKey]) (simp_all add: is_space_def)
  ultimately have one: "scans (st0, ParseObjectKey # ps) (member_text m) (st, ?ps)" using scans_append by (simp add: m)
  show ?case
  proof (cases ms)
    case Nil
    then show ?thesis using one st(2) by auto
  next
    case (Cons n ns)
    obtain st' where st': "scans (BeginString, ParseObjectKey # ps) (join '','' (map member_text ms)) (st', ?ps)"
      "value_end st' ?ps" using Cons.IH [of BeginString] Cons.prems Cons by auto
    have "scans (st, ?ps) (CHR '','' # join '','' (map member_text ms)) (st', ?ps)"
      using st(2) by (intro scans_Cons [OF _ _ st'(1), of _ _ ScanObjectValue]) (simp_all add: value_end_def is_space_def)
    then show ?thesis using scans_append [OF one] st'(2) Cons by auto
  qed
qed simp

lemma scans_map_text:
  assumes "list_all (\<lambda>m. value_at (ParseObjectValue # ps) (snd m)) ms"
  shows "\<exists>st qs. scans (BeginStringOrEmpty, ParseObjectKey # ps) (join '','' (map member_text ms)) (st, qs # ps) \<and>
    scan_step CHR ''}'' (st, qs # ps) = pop ScanEndObject ps \<and> st \<noteq> EndTop"
proof (cases "ms = []")
  case True
  then show ?thesis
    by (intro exI [of _ BeginStringOrEmpty] exI [of _ ParseObjectKey]) (simp add: scans_def is_space_def)
next
  case False
  then obtain st where st: "scans (BeginStringOrEmpty, ParseObjectKey # ps) (join '','' (map member_text ms))
      (st, ParseObjectValue # ps)" "value_end st (ParseObjectValue # ps)"
    using scans_members_any [OF _ assms] by blast
  then have "scan_step CHR ''}'' (st, ParseObjectValue # ps) = pop ScanEndObject ps"
    by (simp add: value_end_def is_space_def)
  moreover from this have "st \<noteq> EndTop" by (auto simp: pop_def)
  ultimately show ?thesis using st(1) by blast
qed

lemma value_at_map:
  assumes "list_all (\<lambda>m. value_at (ParseObjectValue # ps) (snd m)) ms" "length ps < maxNestingDepth" "ps \<noteq> []"
  shows "value_at ps (map_text ms)"
proof -
  obtain st qs where st: "scans (BeginStringOrEmpty, ParseObjectKey # ps) (join '','' (map member_text ms)) (st, qs # ps)"
    "scan_step CHR ''}'' (st, qs # ps) = pop ScanEndObject ps" using scans_map_text [OF assms(1)] by blast
  have "scans (st, qs # ps) ''}'' (EndValue, ps)" using st(2) assms(3) by (simp add: scans_def pop_def)
  then have "scans (BeginValue, ps) (CHR ''{'' # join '','' (map member_text ms) @ ''}'') (EndValue, ps)"
    using assms(2) scans_append [OF st(1)]
    by (intro scans_Cons [of _ _ ScanBeginObject "(BeginStringOrEmpty, ParseObjectKey # ps)"])
      (simp_all add: begin_value_def is_space_def push_def)
  from value_atI [OF this] show ?thesis by (simp add: map_text_def is_space_def)
qed

text \<open>
  The contexts the gateway can read: at most \<open>n\<close> levels deep (its decoder, and the client's
  encoder, are bounded by \<open>maxNestingDepth\<close> and by memory), and the texts of other values are
  single JSON values in valid UTF-8, as \<open>encoding/json\<close> prints numbers.
\<close>

fun value_ok :: "nat \<Rightarrow> goval \<Rightarrow> bool" where
  "value_ok n (VOther t) \<longleftrightarrow>
     (\<forall>x. t = Some x \<longrightarrow> utf8_valid x \<and> (\<forall>ps. ps \<noteq> [] \<longrightarrow> value_at ps x))"
| "value_ok n (VList vs) \<longleftrightarrow> 0 < n \<and> (\<forall>v \<in> set vs. value_ok (n - 1) v)"
| "value_ok n (VMap kvs) \<longleftrightarrow> 0 < n \<and> (\<forall>kv \<in> set kvs. value_ok (n - 1) (snd kv))"
| "value_ok n _ \<longleftrightarrow> True"

lemma those_Some: "those xs = Some ys \<longleftrightarrow> xs = map Some ys"
  by (induction xs arbitrary: ys) (auto split: option.splits simp: map_eq_Cons_conv Cons_eq_map_conv)

lemma those_map:
  "those (map f xs) = Some ys \<Longrightarrow> length ys = length xs \<and> (\<forall>y \<in> set ys. \<exists>x \<in> set xs. f x = Some y)"
proof -
  assume "those (map f xs) = Some ys"
  then have m: "map f xs = map Some ys" by (simp add: those_Some)
  then have "length ys = length xs" by (metis length_map)
  moreover have "\<exists>x \<in> set xs. f x = Some y" if "y \<in> set ys" for y
    using m that by (metis (mono_tags, lifting) image_eqI image_iff set_map)
  ultimately show ?thesis by blast
qed

lemma sort_members_set [simp]: "set (sort_members ms) = set ms"
  by (simp add: sort_members_def)

lemma value_scans:
  "marshal_value v = Some t \<Longrightarrow> value_ok n v \<Longrightarrow> ps \<noteq> [] \<Longrightarrow> length ps + n \<le> maxNestingDepth \<Longrightarrow> value_at ps t"
proof (induction v arbitrary: t n ps rule: marshal_value.induct)
  case (6 vs)
  obtain ts where ts: "those (map marshal_value vs) = Some ts" "t = list_text ts" using 6(2) by auto
  have "list_all (value_at (ParseArrayValue # ps)) ts"
    using those_map [OF ts(1)] 6 by (fastforce simp: list_all_iff)
  then show ?case using 6 by (simp add: ts(2) value_at_list)
next
  case (7 kvs)
  obtain ms where ms: "those (map (\<lambda>(k, v). map_option (Pair k) (marshal_value v)) kvs) = Some ms"
    "t = map_text (sort_members ms)" using 7(2) by auto
  have "list_all (\<lambda>m. value_at (ParseObjectValue # ps) (snd m)) (sort_members ms)"
    using those_map [OF ms(1)] 7 by (fastforce simp: list_all_iff)
  then show ?case using 7 by (simp add: ms(2) value_at_map)
qed (auto simp: value_at_words value_at_quote value_at_itoa split: if_splits)

section \<open>An object read back\<close>

lemma over_stays: "scan_all sc s = Some sc' \<Longrightarrow> fst sc \<in> {EndValue, EndTop, Failed} \<Longrightarrow> snd sc = [] \<Longrightarrow> snd sc' = []"
proof (induction s arbitrary: sc)
  case (Cons c s)
  obtain st ps where sc: "sc = (st, ps)" by (cases sc)
  have "fst (snd (scan_step c sc)) \<in> {EndTop, Failed} \<and> snd (snd (scan_step c sc)) = []"
    using Cons.prems(2,3) by (auto simp: sc split: if_splits)
  then show ?case
    using Cons.prems(1) Cons.IH [of "snd (scan_step c sc)"]
    by (cases "scan_step c sc") (auto split: sop.splits)
qed auto

lemma closes_to_top:
  assumes "scan_step c sc = (op, sc')" "op = ScanEndObject \<or> op = ScanEndArray" "snd sc' = []"
  shows "fst sc' = EndTop"
proof -
  have ev: "end_value c ps = (op, sc') \<Longrightarrow> fst sc' = EndTop" for ps
    using assms(2,3) by (cases ps) (auto simp: pop_def split: if_splits pstate.splits)
  have pv: "pop o1 ps = (op, sc') \<Longrightarrow> fst sc' = EndTop" for o1 ps
    using assms(3) by (auto simp: pop_def)
  have bv: "begin_value c ps \<noteq> (op, sc')" for ps
    using assms(2) by (auto simp: begin_value_def push_def split: if_splits)
  show ?thesis
    using assms(1,2) ev bv pv
    by (cases "(c, sc)" rule: scan_step.cases)
      (auto simp: begin_string_def state0_def split: if_splits list.splits)
qed

lemma read_value_scans:
  "scan_all sc t = Some sc' \<Longrightarrow> inside sc \<Longrightarrow> inside sc' \<Longrightarrow>
   read_value_aux sc acc (t @ rest) = read_value_aux sc' (rev t @ acc) rest"
proof (induction t arbitrary: sc acc)
  case (Cons c t)
  obtain op sc1 where st: "scan_step c sc = (op, sc1)" by (cases "scan_step c sc")
  have op: "op \<noteq> ScanError" "op \<noteq> ScanEnd" "scan_all sc1 t = Some sc'"
    using Cons.prems(1) st inside_no_end [OF Cons.prems(2), of c] by (auto split: sop.splits)
  have "\<not> ((op = ScanEndObject \<or> op = ScanEndArray) \<and> snd sc1 = [])"
  proof
    assume a: "(op = ScanEndObject \<or> op = ScanEndArray) \<and> snd sc1 = []"
    then have "fst sc1 = EndTop" using closes_to_top [OF st] by blast
    then show False using over_stays [OF op(3)] a Cons.prems(3) by (simp add: inside_def)
  qed
  then show ?case
    using Cons.IH [OF op(3), of "c # acc"] Cons.prems(3) inside_step [OF Cons.prems(2) st] st op by auto
qed simp

lemma map_text_object:
  assumes "list_all (\<lambda>m. value_at [ParseObjectValue] (snd m)) ms"
  shows "object_text (map_text ms)" "scans scan_start (map_text ms) (EndTop, [])"
proof -
  let ?body = "join '','' (map member_text ms)"
  obtain st qs where st: "scans (BeginStringOrEmpty, [ParseObjectKey]) ?body (st, [qs])"
    "scan_step CHR ''}'' (st, [qs]) = pop ScanEndObject []" "st \<noteq> EndTop"
    using scans_map_text [OF assms] by blast
  have first: "scan_step CHR ''{'' scan_start = (ScanBeginObject, (BeginStringOrEmpty, [ParseObjectKey]))"
    by (simp add: begin_value_def is_space_def push_def maxNestingDepth_def)
  have ins: "inside (BeginStringOrEmpty, [ParseObjectKey])" "inside (st, [qs])" using st(3) by (simp_all add: inside_def)
  note through = read_value_scans [OF st(1) [unfolded scans_def] ins, of "''{''" "''}''"]
  have "read_value_aux (BeginStringOrEmpty, [ParseObjectKey]) ''{'' (?body @ ''}'') =
      ReadOk (CHR ''{'' # ?body @ ''}'') []"
    using through st(2) by (simp add: pop_def)
  then show "object_text (map_text ms)"
    using first by (simp add: object_text_def map_text_def read_raw_def is_space_def)
  have "scans (st, [qs]) ''}'' (EndTop, [])" using st(2) by (simp add: scans_def pop_def)
  then have "scans (BeginStringOrEmpty, [ParseObjectKey]) (?body @ ''}'') (EndTop, [])" by (rule scans_append [OF st(1)])
  then show "scans scan_start (map_text ms) (EndTop, [])"
    using scans_Cons [OF first, of "?body @ ''}''"] by (simp add: map_text_def)
qed

definition raw_text :: "string \<Rightarrow> bool" where
  "raw_text t \<longleftrightarrow> (\<forall>c rest. read_raw (t @ c # rest) = ReadOk t (c # rest))"

lemma raw_text_quote: "raw_text (quote html s)"
  by (simp add: raw_text_def read_raw_string)

lemma raw_text_object: "object_text t \<Longrightarrow> raw_text t"
  using read_raw_object [of t] by (simp add: raw_text_def)

lemma object_members_raw:
  "ms \<noteq> [] \<Longrightarrow> list_all (\<lambda>m. raw_text (snd m)) ms \<Longrightarrow> length ms \<le> fuel \<Longrightarrow>
   object_members fuel (join '','' (map member_text ms) @ ''}'') = Some (map (\<lambda>(k, t). (quote True k, t)) ms)"
proof (induction ms arbitrary: fuel)
  case (Cons m ms)
  obtain k t where m: "m = (k, t)" by (cases m)
  obtain f where f: "fuel = Suc f" using Cons.prems(3) by (cases fuel) auto
  have raw: "read_raw (t @ c # rest) = ReadOk t (c # rest)" for c rest
    using Cons.prems(2) m by (simp add: raw_text_def)
  have key: "read_raw (quote True k @ CHR '':'' # rest) = ReadOk (quote True k) (CHR '':'' # rest)" for rest
    by (rule read_raw_string)
  show ?case
  proof (cases ms)
    case Nil
    then show ?thesis using key [of "t @ ''}''"] raw by (simp add: m f is_space_def)
  next
    case (Cons n ns)
    have "object_members f (join '','' (map member_text ms) @ ''}'') = Some (map (\<lambda>(k, t). (quote True k, t)) ms)"
      using Cons.IH [of f] Cons.prems Cons f by simp
    then show ?thesis
      using key [of "t @ CHR '','' # join '','' (map member_text ms) @ ''}''"] raw Cons by (simp add: m f is_space_def)
  qed
qed simp

lemma map_text_members:
  assumes "ms \<noteq> []" "list_all (\<lambda>m. raw_text (snd m)) ms"
  shows "members (map_text ms) = Some (map (\<lambda>(k, t). (quote True k, t)) ms)"
proof -
  let ?body = "join '','' (map member_text ms)"
  have "list_all (\<lambda>x. x \<noteq> []) (map member_text ms)" by (auto simp: list_all_iff)
  then have "length ms \<le> length ?body" using join_length [of "map member_text ms" "'',''"] by simp
  then have m: "object_members (length (map_text ms)) (?body @ ''}'') = Some (map (\<lambda>(k, t). (quote True k, t)) ms)"
    by (intro object_members_raw assms) (simp add: map_text_def)
  obtain k t ns where "ms = (k, t) # ns" using assms(1) by (cases ms) auto
  then have "\<exists>x. ?body @ ''}'' = CHR 0x22 # x" by (cases ns) (simp_all add: quote_def)
  then obtain x where "?body @ ''}'' = CHR 0x22 # x" ..
  then show ?thesis using m by (simp add: members_def map_text_def is_space_def)
qed

section \<open>The text is valid UTF-8\<close>

lemma hex_char_ascii: "n < 16 \<Longrightarrow> byte_of (hex_char n) < 0x80"
  by simp

lemma escape_byte_ascii: "byte_of b < 0x80 \<Longrightarrow> list_all (\<lambda>c. byte_of c < 0x80) (escape_byte html b)"
  by (simp add: escape_byte_def escape_u00_def hex_char_ascii del: hex_char_byte)

lemma escape_tok_utf8: "tok_ok t \<Longrightarrow> utf8_valid (escape_tok html t)"
proof (erule tok_cases)
  fix b assume "t = Rune [b]" "byte_of b < 0x80"
  then show ?thesis using escape_byte_ascii utf8_valid_ascii by simp
next
  fix r assume r: "t = Rune r" "2 \<le> length r" "rune_len r = length r"
  have "r \<noteq> []" using r(2) by auto
  then have "utf8_valid r" using utf8_valid_runes [of "[r]"] r(3) by simp
  moreover have "utf8_valid ([CHR 0x5C] @ ''u2028'')" "utf8_valid ([CHR 0x5C] @ ''u2029'')"
    by (rule utf8_valid_ascii; simp)+
  ultimately show ?thesis using r by simp
next
  fix b assume "t = Stray b"
  moreover have "utf8_valid ([CHR 0x5C] @ ''ufffd'')" by (rule utf8_valid_ascii) simp
  ultimately show ?thesis by simp
qed

lemma utf8_valid_concat: "(\<And>x. x \<in> set xs \<Longrightarrow> utf8_valid x) \<Longrightarrow> utf8_valid (concat xs)"
  by (induction xs) (auto intro: utf8_valid_append)

lemma quote_utf8: "utf8_valid (quote html s)"
proof -
  have "utf8_valid (quote_body html s)"
    using scan_utf8_ok [of s]
    unfolding quote_body_def by (intro utf8_valid_concat) (auto simp: list_all_iff intro: escape_tok_utf8)
  moreover have "utf8_valid [CHR 0x22]" by (rule utf8_valid_ascii) simp
  ultimately show ?thesis unfolding quote_def by (intro utf8_valid_Cons utf8_valid_append) simp_all
qed

lemma join_utf8: "utf8_valid sep \<Longrightarrow> list_all utf8_valid xs \<Longrightarrow> utf8_valid (join sep xs)"
  by (induction sep xs rule: join.induct) (auto intro!: utf8_valid_append)

lemma separators_utf8: "utf8_valid '',''" "utf8_valid '':''" "utf8_valid ''}''" "utf8_valid '']''"
  by (rule utf8_valid_ascii; simp)+

lemma map_text_utf8: "list_all (\<lambda>m. utf8_valid (snd m)) ms \<Longrightarrow> utf8_valid (map_text ms)"
proof -
  assume "list_all (\<lambda>m. utf8_valid (snd m)) ms"
  then have "list_all utf8_valid (map member_text ms)"
    by (auto simp: list_all_iff intro!: utf8_valid_append [OF quote_utf8] utf8_valid_Cons)
  then have "utf8_valid (join '','' (map member_text ms) @ ''}'')"
    by (intro utf8_valid_append join_utf8 separators_utf8)
  then show ?thesis unfolding map_text_def by (simp add: utf8_valid_Cons)
qed

lemma list_text_utf8: "list_all utf8_valid ts \<Longrightarrow> utf8_valid (list_text ts)"
proof -
  assume "list_all utf8_valid ts"
  then have "utf8_valid (join '','' ts @ '']'')" by (intro utf8_valid_append join_utf8 separators_utf8)
  then show ?thesis unfolding list_text_def by (simp add: utf8_valid_Cons)
qed

lemma digit_char_ascii: "digit c \<Longrightarrow> byte_of c < 0x80"
  by (simp add: digit_def)

lemma itoa_utf8: "utf8_valid (itoa n)"
proof -
  have "utf8_valid (dec m)" if "0 \<le> m" for m
    using decimal_dec [OF that] by (simp add: decimal_def utf8_valid_digits)
  then show ?thesis by (simp add: itoa_def utf8_valid_Cons)
qed

lemma value_utf8: "marshal_value v = Some t \<Longrightarrow> value_ok n v \<Longrightarrow> utf8_valid t"
proof (induction v arbitrary: t n rule: marshal_value.induct)
  case (6 vs)
  obtain ts where ts: "those (map marshal_value vs) = Some ts" "t = list_text ts" using 6(2) by auto
  have "list_all utf8_valid ts" using those_map [OF ts(1)] 6 by (fastforce simp: list_all_iff)
  then show ?case by (simp add: ts(2) list_text_utf8)
next
  case (7 kvs)
  obtain ms where ms: "those (map (\<lambda>(k, v). map_option (Pair k) (marshal_value v)) kvs) = Some ms"
    "t = map_text (sort_members ms)" using 7(2) by auto
  have "list_all (\<lambda>m. utf8_valid (snd m)) (sort_members ms)"
    using those_map [OF ms(1)] 7 by (fastforce simp: list_all_iff)
  then show ?case by (simp add: ms(2) map_text_utf8)
qed (auto simp: quote_utf8 itoa_utf8 intro!: utf8_valid_ascii)

section \<open>An event read back\<close>

definition event_ok :: "event \<Rightarrow> bool" where
  "event_ok e \<longleftrightarrow>
     utf8_valid (cev_project e) \<and> utf8_valid (cev_level e) \<and> utf8_valid (cev_message e) \<and>
     value_ok 9999 (VMap (cev_context e))"

definition stamp_ok :: "time \<Rightarrow> bool" where
  "stamp_ok t \<longleftrightarrow> time_ok t \<and> 0 \<le> t_sec t \<and> t_sec t < 86400 * days_before 9999"

text \<open>The event the gateway sees is the one that was logged: its context as the JSON text, and
  its time stamp, when it is the client's, as the same instant.\<close>

definition same_event :: "event \<Rightarrow> inEvent \<Rightarrow> bool" where
  "same_event e ev \<longleftrightarrow>
     ev_project ev = cev_project e \<and> ev_level ev = cev_level e \<and> ev_message ev = cev_message e \<and>
     (if cev_context e = [] then ev_context ev = [] else marshal_value (VMap (cev_context e)) = Some (ev_context ev)) \<and>
     (\<forall>t. stamp_ok t \<and> cev_timestamp e = format_nano t \<longrightarrow> event_time (trim_space (ev_timestamp ev)) = Some t)"

text \<open>The texts of the members of an event.\<close>

definition member_texts :: "event \<Rightarrow> (string \<times> string) list" where
  "member_texts e = map (\<lambda>(k, v). (k, the (marshal_value v))) (event_members e)"

lemma marshal_event_texts:
  assumes "marshal_event e = Some x"
  shows "x = map_text (member_texts e)" "\<And>k v. (k, v) \<in> set (event_members e) \<Longrightarrow> \<exists>t. marshal_value v = Some t"
proof -
  obtain ms where ms: "those (map (\<lambda>(k, v). map_option (Pair k) (marshal_value v)) (event_members e)) = Some ms"
    "x = map_text ms" using assms by (auto simp: marshal_event_def)
  show enc: "\<And>k v. (k, v) \<in> set (event_members e) \<Longrightarrow> \<exists>t. marshal_value v = Some t"
  proof -
    fix k v assume "(k, v) \<in> set (event_members e)"
    then have "map_option (Pair k) (marshal_value v) \<in> set (map Some ms)"
      using ms(1) unfolding those_Some by (metis (no_types, lifting) case_prod_conv image_eqI set_map)
    then show "\<exists>t. marshal_value v = Some t" by auto
  qed
  have "list_all (\<lambda>(k, v). marshal_value v \<noteq> None) (event_members e)" using enc by (fastforce simp: list_all_iff)
  from marshal_strings [OF this] show "x = map_text (member_texts e)" using ms by (simp add: member_texts_def)
qed

lemma marshal_map:
  assumes "marshal_value (VMap kvs) = Some t" "value_ok (Suc n) (VMap kvs)" "ps \<noteq> []" "length ps + n \<le> maxNestingDepth"
  obtains ms where "t = map_text ms" "list_all (\<lambda>m. value_at ps (snd m)) ms" "length ms = length kvs"
proof -
  obtain ms where ms: "those (map (\<lambda>(k, v). map_option (Pair k) (marshal_value v)) kvs) = Some ms"
    "t = map_text (sort_members ms)" using assms(1) by auto
  have "list_all (\<lambda>m. value_at ps (snd m)) (sort_members ms)"
    using those_map [OF ms(1)] assms(2-4) by (fastforce simp: list_all_iff intro: value_scans)
  moreover have "length (sort_members ms) = length kvs" using those_map [OF ms(1)] by (simp add: sort_members_def)
  ultimately show thesis using that ms(2) by blast
qed

lemma context_object:
  assumes "marshal_value (VMap kvs) = Some t" "value_ok 9999 (VMap kvs)"
  shows "object_text t"
proof -
  have "value_ok (Suc 9998) (VMap kvs)" using assms(2) by simp
  from marshal_map [OF assms(1) this, of "[ParseObjectValue]"] show ?thesis
    using map_text_object(1) by (auto simp: maxNestingDepth_def)
qed

lemma event_members_cases:
  "(k, v) \<in> set (event_members e) \<Longrightarrow> (\<exists>s. v = VString s) \<or> v = VMap (cev_context e)"
  by (auto simp: event_members_def split: if_splits)

lemma member_texts_values:
  assumes "marshal_event e = Some x" "event_ok e"
  shows "list_all (\<lambda>m. value_at [ParseObjectValue] (snd m) \<and> raw_text (snd m) \<and> utf8_valid (snd m)) (member_texts e)"
proof -
  have "value_at [ParseObjectValue] t \<and> raw_text t \<and> utf8_valid t"
    if "(k, v) \<in> set (event_members e)" "marshal_value v = Some t" for k v t
  proof -
    note kv = that
    show ?thesis
    proof (cases "v = VMap (cev_context e)")
      case True
      have "value_ok 9999 v" using assms(2) True by (simp add: event_ok_def)
      then have "utf8_valid t" by (rule value_utf8 [OF kv(2)])
      moreover have "value_at [ParseObjectValue] t"
        using value_scans [OF kv(2) \<open>value_ok 9999 v\<close>] by (simp add: maxNestingDepth_def)
      moreover have "raw_text t"
        by (rule raw_text_object, rule context_object) (use kv(2) True \<open>value_ok 9999 v\<close> in auto)
      ultimately show ?thesis by blast
    next
      case False
      then obtain s where "t = quote True s" using event_members_cases [OF kv(1)] kv(2) by auto
      then show ?thesis by (simp add: value_at_quote raw_text_quote quote_utf8)
    qed
  qed
  then show ?thesis
    using marshal_event_texts(2) [OF assms(1)] by (fastforce simp: member_texts_def list_all_iff)
qed

lemma unquote_names:
  "unquote (quote True ''project'') = Some ''project''" "unquote (quote True ''level'') = Some ''level''"
  "unquote (quote True ''message'') = Some ''message''" "unquote (quote True ''context'') = Some ''context''"
  "unquote (quote True ''timestamp'') = Some ''timestamp''"
  by (rule unquote_quote, rule utf8_valid_ascii, simp)+

lemma field_of_names:
  "field_of ''project'' = Some FProject" "field_of ''level'' = Some FLevel" "field_of ''message'' = Some FMessage"
  "field_of ''context'' = Some FContext" "field_of ''timestamp'' = Some FTimestamp"
  by (simp_all add: field_of_def field_names_def)

lemma quote_not_null: "quote html s \<noteq> ''null''"
  by (simp add: quote_def)

text \<open>The event without \<open>same_event\<close>'s reading of the stamp.\<close>

definition seen_event :: "event \<Rightarrow> inEvent" where
  "seen_event e =
     \<lparr>ev_project = cev_project e, ev_level = cev_level e, ev_message = cev_message e,
      ev_context = (if cev_context e = [] then [] else the (marshal_value (VMap (cev_context e)))),
      ev_timestamp = (if cev_timestamp e = [] then [] else quote True (cev_timestamp e))\<rparr>"

lemma fold_members_event:
  assumes "event_ok e"
  shows "fold set_member (map (\<lambda>(k, t). (quote True k, t)) (member_texts e)) (empty_event, True) = (seen_event e, True)"
  using assms
  by (simp add: member_texts_def event_members_def set_member_def unquote_names field_of_names set_string_def
      quote_not_null unquote_quote event_ok_def seen_event_def empty_event_def del: marshal_value.simps(7))

lemma marshal_event_read:
  assumes "marshal_event e = Some x" "event_ok e"
  shows "object_text x" "utf8_valid x" "unmarshal_event x = Some (seen_event e)"
proof -
  note vals = member_texts_values [OF assms]
  have x: "x = map_text (member_texts e)" using marshal_event_texts(1) [OF assms(1)] .
  have v: "list_all (\<lambda>m. value_at [ParseObjectValue] (snd m)) (member_texts e)"
    "list_all (\<lambda>m. raw_text (snd m)) (member_texts e)" "list_all (\<lambda>m. utf8_valid (snd m)) (member_texts e)"
    using vals by (auto simp: list_all_iff)
  show "object_text x" using map_text_object(1) [OF v(1)] by (simp add: x)
  show "utf8_valid x" using map_text_utf8 [OF v(3)] by (simp add: x)
  have ne: "member_texts e \<noteq> []" by (simp add: member_texts_def event_members_def)
  have "json_valid x" using map_text_object(2) [OF v(1)] by (simp add: x json_valid_def scans_def scan_eof_def)
  moreover have "x \<noteq> ''null''" by (simp add: x map_text_def)
  ultimately show "unmarshal_event x = Some (seen_event e)"
    using map_text_members [OF ne v(2)] fold_members_event [OF assms(2)] by (simp add: unmarshal_event_def x)
qed

text \<open>A text between printable ASCII characters has no blanks to trim.\<close>

lemma stamp_text:
  assumes "stamp_ok t"
  shows "list_all (\<lambda>c. byte_of c < 0x80) (format_nano t)" "\<exists>c cs. format_nano t = c # cs @ [CHR ''Z''] \<and> digit c"
proof -
  define s where "s = t_sec t mod 86400"
  obtain y m d where c: "civil (t_sec t div 86400) = (y, m, d)" by (cases "civil (t_sec t div 86400)") auto
  note parts = clock_parts [OF _ _ c s_def]
  have y: "\<not> y < 0" "0 \<le> y" "y < 10 ^ 4" "0 \<le> m" "0 \<le> d" using assms parts(1-5) by (auto simp: stamp_ok_def)
  have form: "format_nano t =
      pad_zeros 4 y @ ''-'' @ pad_zeros 2 m @ ''-'' @ pad_zeros 2 d @ ''T'' @
      pad_zeros 2 (s div 3600) @ '':'' @ pad_zeros 2 (s mod 3600 div 60) @ '':'' @ pad_zeros 2 (s mod 60) @
      format_fraction (t_nsec t) @ ''Z''"
    unfolding format_nano_def c Let_def prod.case s_def [symmetric] using y(1) by (simp add: format_year_def)
  have pad: "list_all (\<lambda>c. byte_of c < 0x80) (pad_zeros w n)" if "0 \<le> n" for w n
    using pad_zeros_digits [OF that, of w] by (auto simp: list_all_iff intro: digit_char_ascii)
  have "list_all (\<lambda>c. byte_of c < 0x80) (format_fraction (t_nsec t))"
    using pad [of "t_nsec t" 9] assms
    by (auto simp: format_fraction_def trim_right_def stamp_ok_def time_ok_def list_all_iff dest!: set_dropWhileD)
  then show "list_all (\<lambda>c. byte_of c < 0x80) (format_nano t)"
    using pad parts(8,10,12) y assms by (simp add: form stamp_ok_def)
  have "length (pad_zeros 4 y) = 4" using y by (intro pad_zeros_length) simp_all
  then obtain a as where "pad_zeros 4 y = a # as" by (cases "pad_zeros 4 y") auto
  moreover have "list_all digit (pad_zeros 4 y)" using pad_zeros_digits y(2) by blast
  ultimately show "\<exists>c cs. format_nano t = c # cs @ [CHR ''Z''] \<and> digit c" by (simp add: form)
qed

lemma quote_valid: "json_valid (quote html s)"
proof -
  have "scans scan_start (quote html s) (EndValue, [])"
    by (rule scans_string) (simp add: begin_value_def is_space_def)
  then show ?thesis by (simp add: json_valid_def scans_def scan_eof_def is_space_def)
qed

lemma stamp_read:
  assumes "stamp_ok t"
  shows "event_time (trim_space (quote True (format_nano t))) = Some t"
proof -
  obtain c cs where f: "format_nano t = c # cs @ [CHR ''Z'']" "digit c" using stamp_text(2) [OF assms] by blast
  have "solid c" using f(2) by (auto simp: solid_def digit_def)
  then have "trim_space (format_nano t) = format_nano t" using trim_space_solid [of c "CHR ''Z''" cs] f(1) by (simp add: solid_def)
  moreover have "trim_space (quote True (format_nano t)) = quote True (format_nano t)"
    using trim_space_solid [of "CHR 0x22" "CHR 0x22"] by (simp add: quote_def solid_def)
  moreover have "unquote (quote True (format_nano t)) = Some (format_nano t)"
    using stamp_text(1) [OF assms] by (intro unquote_quote utf8_valid_ascii)
  moreover have "parse_rfc3339 (format_nano t) = Some t" using assms parse_format_nano by (simp add: stamp_ok_def)
  moreover have "hd (quote True (format_nano t)) = CHR 0x22" by (simp add: quote_def)
  ultimately show ?thesis by (simp add: event_time_def quote_valid)
qed

lemma seen_same: "marshal_event e = Some x \<Longrightarrow> event_ok e \<Longrightarrow> same_event e (seen_event e)"
proof -
  assume m: "marshal_event e = Some x" "event_ok e"
  have "\<exists>t. marshal_value (VMap (cev_context e)) = Some t" if "cev_context e \<noteq> []"
    using marshal_event_texts(2) [OF m(1), of "''context''" "VMap (cev_context e)"] that
    by (auto simp: event_members_def)
  moreover have "format_nano t \<noteq> []" for t
    by (simp add: format_nano_def Let_def split: prod.split)
  ultimately show ?thesis
    using stamp_read by (auto simp: same_event_def seen_event_def simp del: marshal_value.simps(7))
qed

text \<open>A batch the client prints, taken apart: one element per event, each read as the event seen.\<close>

lemma client_batch_elements:
  assumes "marshal_events es = Some body" "es \<noteq> []" "int (length es) \<le> limit" "list_all event_ok es"
  obtains texts where "batch_elements limit (skip_spaces body) = Elements texts" "texts \<noteq> []" "skip_spaces body \<noteq> []"
    "list_all2 (\<lambda>e x. unmarshal_event (sanitise x) = Some (seen_event e) \<and> marshal_event e = Some x \<and> event_ok e) es texts"
proof -
  obtain texts where t: "map marshal_event es = map Some texts" "body = list_text texts"
    using assms(1) by (auto simp: marshal_events_def those_Some)
  then have l2: "list_all2 (\<lambda>e x. marshal_event e = Some x) es texts"
    by (metis (mono_tags, lifting) length_map list_all2_conv_all_nth nth_map)
  have read: "list_all2 (\<lambda>e x. object_text x \<and> unmarshal_event (sanitise x) = Some (seen_event e) \<and>
      marshal_event e = Some x \<and> event_ok e) es texts"
    unfolding list_all2_conv_all_nth
  proof (intro conjI allI impI)
    show "length es = length texts" using l2 by (simp add: list_all2_conv_all_nth)
    fix i assume "i < length es"
    then have e: "marshal_event (es ! i) = Some (texts ! i)" "event_ok (es ! i)"
      using l2 assms(4) by (simp_all add: list_all2_conv_all_nth list_all_length)
    note r = marshal_event_read [OF e]
    show "object_text (texts ! i)" by (rule r(1))
    show "unmarshal_event (sanitise (texts ! i)) = Some (seen_event (es ! i))" using r(2,3) by (simp add: sanitise_def)
    show "marshal_event (es ! i) = Some (texts ! i)" "event_ok (es ! i)" by (rule e)+
  qed
  then have obj: "list_all object_text texts" "texts \<noteq> []" "length texts = length es"
    using assms(2) by (auto simp: list_all2_conv_all_nth list_all_length)
  have "batch_elements limit (skip_spaces body) = batch_of (nat limit) texts"
    using array_loop_objects [OF obj(1,2), of "nat limit"] by (simp add: batch_elements_def t(2) list_text_def is_space_def)
  then have els: "batch_elements limit (skip_spaces body) = Elements texts" using obj(3) assms(3) by (simp add: batch_of_def)
  moreover have "skip_spaces body \<noteq> []" by (simp add: t(2) list_text_def is_space_def)
  moreover have "list_all2 (\<lambda>e x. unmarshal_event (sanitise x) = Some (seen_event e) \<and> marshal_event e = Some x \<and> event_ok e) es texts"
    using read by (rule list_all2_mono) blast
  ultimately show thesis using that obj(2) by blast
qed

text \<open>The events \<open>buildRow\<close> takes: a project it allows and a message that is not blank.\<close>

definition acceptable :: "event \<Rightarrow> bool" where
  "acceptable e \<longleftrightarrow> projectRe (trim_space (cev_project e)) \<and> trim_space (cev_message e) \<noteq> []"

lemma seen_event_taken: "fst (buildRow cfg now now' (seen_event e) m) = None \<longleftrightarrow> \<not> acceptable e"
  by (auto simp: acceptable_def buildRow_def seen_event_def Let_def case_prod_beta)

lemma seen_rows_count:
  "list_all2 (\<lambda>e x. unmarshal_event (sanitise x) = Some (seen_event e) \<and> marshal_event e = Some x \<and> event_ok e) es texts \<Longrightarrow>
   length (element_rows cfg clock k texts) = length (filter acceptable es)"
proof (induction es texts arbitrary: k rule: list_all2_induct)
  case (Cons e es x texts)
  have "element_row cfg (clock k) x = None \<longleftrightarrow> \<not> acceptable e"
    using Cons.hyps(1) seen_event_taken by (simp add: element_row_def)
  then show ?case
    using Cons.IH [of "Suc k"] by (auto simp: element_rows_def List.map_filter_simps split: option.splits)
qed (simp add: element_rows_def List.map_filter_simps)

text \<open>C14: What the client prints for a batch of events is a batch the gateway takes apart into the same
  events, one element each and in order: the same project, level and message, the context's
  JSON, the client's time stamp as the same instant. The gateway makes one row for every
  acceptable event, however many of the others the batch holds, and refuses the batch only,
  as all invalid, when not a single event is acceptable. The strings of the events are valid
  UTF-8, and the batch has at most MAX_BATCH_EVENTS events.\<close>

theorem client_batch_decodes:
  assumes "marshal_events es = Some body" "es \<noteq> []" "int (length es) \<le> maxBatchEvents cfg" "list_all event_ok es"
  shows "(\<exists>texts. batch_elements (maxBatchEvents cfg) (skip_spaces body) = Elements texts \<and>
      list_all2 (\<lambda>e x. \<exists>ev. unmarshal_event (sanitise x) = Some ev \<and> same_event e ev) es texts) \<and>
    (if list_ex acceptable es
     then \<exists>rows. fst (parse_data cfg clock body m) = Rows rows \<and> length rows = length (filter acceptable es)
     else fst (parse_data cfg clock body m) = Rejected 400 ''all_invalid'')"
proof -
  obtain texts where t: "batch_elements (maxBatchEvents cfg) (skip_spaces body) = Elements texts" "texts \<noteq> []"
      "skip_spaces body \<noteq> []"
      "list_all2 (\<lambda>e x. unmarshal_event (sanitise x) = Some (seen_event e) \<and> marshal_event e = Some x \<and> event_ok e) es texts"
    by (rule client_batch_elements [OF assms])
  have "fst (parse_data cfg clock body m) =
      (if element_rows cfg clock 0 texts = [] then Rejected 400 ''all_invalid'' else Rows (element_rows cfg clock 0 texts))"
    using t(1-3) event_rows_elements [of cfg clock 0 texts m] by (auto simp: parse_data_def Let_def split: prod.split)
  moreover have "element_rows cfg clock 0 texts = [] \<longleftrightarrow> filter acceptable es = []"
    using seen_rows_count [OF t(4), of cfg clock 0] by (metis length_0_conv)
  then have "element_rows cfg clock 0 texts = [] \<longleftrightarrow> \<not> list_ex acceptable es"
    by (simp add: list_ex_iff filter_empty_conv)
  moreover have "list_all2 (\<lambda>e x. \<exists>ev. unmarshal_event (sanitise x) = Some ev \<and> same_event e ev) es texts"
    using t(4) by (rule list_all2_mono) (auto intro: seen_same)
  ultimately show ?thesis using t(1) seen_rows_count [OF t(4), of cfg clock 0] by auto
qed

definition checkout_event :: event where
  "checkout_event = \<lparr>cev_project = ''shop'', cev_level = ''error'', cev_message = ''payment timeout'',
     cev_context = [(''order_id'', VInt 123), (''tags'', VList [VString ''eu'', VNull])],
     cev_timestamp = format_nano \<lparr>t_sec = 63835596800, t_nsec = 250000000\<rparr>\<rparr>"

lemma checkout_event_ok: "event_ok checkout_event"
  by (simp add: event_ok_def checkout_event_def utf8_valid_ascii)

lemma checkout_event_marshals: "\<exists>x. marshal_event checkout_event = Some x"
proof -
  have "list_all (\<lambda>(k, v). marshal_value v \<noteq> None) (event_members checkout_event)"
    by (simp add: event_members_def checkout_event_def)
  from marshal_strings [OF this] show ?thesis by (simp add: marshal_event_def)
qed

lemma client_batch_decodes_witness:
  "\<exists>texts. batch_elements 3 (skip_spaces (the (marshal_events [checkout_event]))) = Elements texts \<and> length texts = 1"
proof -
  obtain x where "marshal_event checkout_event = Some x" using checkout_event_marshals by blast
  then have "marshal_events [checkout_event] = Some (the (marshal_events [checkout_event]))" by (simp add: marshal_events_def)
  from client_batch_decodes [OF this, of demo_config] checkout_event_ok
  obtain texts where "batch_elements 3 (skip_spaces (the (marshal_events [checkout_event]))) = Elements texts"
    "list_all2 (\<lambda>e x. \<exists>ev. unmarshal_event (sanitise x) = Some ev \<and> same_event e ev) [checkout_event] texts"
    by (auto simp: demo_max_events)
  then show ?thesis by (auto dest: list_all2_lengthD)
qed

section \<open>The reason of a refusal\<close>

definition reason_char :: "char \<Rightarrow> bool" where
  "reason_char c \<longleftrightarrow> c = CHR ''_'' \<or> 97 \<le> byte_of c \<and> byte_of c \<le> 122"

lemma reason_char_range: "reason_char c \<Longrightarrow> 0x20 \<le> byte_of c \<and> byte_of c < 0x7F"
  by (auto simp: reason_char_def)

lemma reason_char_bytes: "list_all reason_char s \<Longrightarrow> list_all (\<lambda>c. byte_of c < 0x80) s"
  using reason_char_range by (fastforce simp: list_all_iff)

lemma reason_runes: "list_all reason_char s \<Longrightarrow> scan_utf8 s = map (\<lambda>c. Rune [c]) s"
proof -
  assume "list_all reason_char s"
  then have "list_all (\<lambda>r. r \<noteq> [] \<and> rune_len r = length r) (map (\<lambda>c. [c]) s)"
    using reason_char_bytes rune_len_ascii by (simp add: list_all_iff del: rune_len.simps)
  from scan_utf8_runes [OF this, of "[]"] show ?thesis by (simp add: concat_map_singleton comp_def)
qed

lemma not_reason_chars:
  "\<not> reason_char CHR 0x22" "\<not> reason_char CHR 0x5C" "\<not> reason_char CHR 0x08" "\<not> reason_char CHR 0x0C"
  "\<not> reason_char CHR 0x0A" "\<not> reason_char CHR 0x0D" "\<not> reason_char CHR 0x09" "\<not> reason_char CHR ''<''"
  "\<not> reason_char CHR ''>''" "\<not> reason_char CHR ''&''"
  by (simp_all add: reason_char_def)

lemma reason_char_plain: "reason_char c \<Longrightarrow> escape_byte html c = [c]"
proof -
  assume c: "reason_char c"
  have "c \<notin> {CHR 0x22, CHR 0x5C, CHR 0x08, CHR 0x0C, CHR 0x0A, CHR 0x0D, CHR 0x09, CHR ''<'', CHR ''>'', CHR ''&''}"
    using c not_reason_chars by blast
  moreover have "\<not> byte_of c < 0x20" using reason_char_range [OF c] by simp
  ultimately show ?thesis by (simp add: escape_byte_def)
qed

lemma quote_reason: "list_all reason_char s \<Longrightarrow> quote html s = CHR 0x22 # s @ [CHR 0x22]"
proof -
  assume s: "list_all reason_char s"
  have "concat (map (escape_tok html) (map (\<lambda>c. Rune [c]) s)) = s"
    using s by (induction s) (auto simp: reason_char_plain)
  then show ?thesis by (simp only: quote_def quote_body_def reason_runes [OF s])
qed

lemma sanitize_plain: "list_all reason_char s \<Longrightarrow> length s \<le> n \<Longrightarrow> sanitize_runes n (map (\<lambda>c. Rune [c]) s) = s"
proof (induction s arbitrary: n)
  case (Cons c s)
  then obtain m where "n = Suc m" by (cases n) auto
  then show ?case using Cons reason_char_range [of c] by simp
qed simp

lemma error_body_read:
  assumes "list_all reason_char reason" "length reason \<le> 120"
  shows "readReason [Chunk (error_body reason)] = reason"
proof -
  let ?ms = "[(''error'', quote True reason)]"
  have err: "quote True ''error'' = CHR 0x22 # ''error'' @ [CHR 0x22]" by (rule quote_reason) (simp add: reason_char_def)
  have body: "error_body reason = map_text ?ms @ [CHR 0x0A]"
    unfolding error_body_def map_text_def by (simp add: err quote_reason [OF assms(1)])
  have vals: "list_all (\<lambda>m. value_at [ParseObjectValue] (snd m)) ?ms" "list_all (\<lambda>m. raw_text (snd m)) ?ms"
    by (simp_all add: value_at_quote raw_text_quote)
  have valid: "json_valid (map_text ?ms @ [CHR 0x0A])"
    using map_text_object(2) [OF vals(1)]
    by (simp add: json_valid_def scans_def scan_all_append scan_eof_def is_space_def del: list.map)
  have read: "read_raw (map_text ?ms @ [CHR 0x0A]) = ReadOk (map_text ?ms) [CHR 0x0A]"
    using read_raw_object [OF map_text_object(1) [OF vals(1)]] .
  have mem: "members (map_text ?ms) = Some [(quote True ''error'', quote True reason)]"
    using map_text_members [OF _ vals(2)] by simp
  have "utf8_valid reason" by (rule utf8_valid_ascii [OF reason_char_bytes [OF assms(1)]])
  then have uq: "unquote (quote True reason) = Some reason" "unquote (quote True ''error'') = Some ''error''"
    by (auto intro!: unquote_quote utf8_valid_ascii)
  have "payload_error (map_text ?ms @ [CHR 0x0A]) = Some reason"
    using valid read mem uq quote_not_null [of True reason]
    by (simp add: payload_error_def error_member_def map_text_def)
  moreover have "length (error_body reason) < 4096" using assms(2) by (simp add: error_body_def)
  moreover have "sanitizeReason reason = reason"
    using sanitize_plain [OF assms(1,2)] by (simp add: sanitizeReason_def reason_runes [OF assms(1)])
  ultimately show ?thesis
    by (simp add: readReason_def maxErrorBody_def body)
qed

text \<open>C40: The reason the client reports is the one the gateway gave: every reason of \<open>/logs\<close>, the full
  buffer's included, survives the JSON body, its reading and its sanitising unchanged.\<close>

theorem gateway_reasons_read:
  "list_all (\<lambda>reason. readReason [Chunk (rsp_body (writeError code reason new_response))] = reason)
    (''buffer_full'' # map snd reject_reasons)"
proof -
  have "list_all (\<lambda>reason. list_all reason_char reason \<and> length reason \<le> 120) (''buffer_full'' # map snd reject_reasons)"
    by (simp add: reject_reasons_def parse_reasons_def reason_char_def)
  then show ?thesis using error_body_read by (auto simp: list_all_iff)
qed

end
