(* ===== verification/LoadTest.thy ===== *)
theory LoadTest
  imports ClientGateway
begin

text \<open>
  \<open>tools/loadtest/main.go\<close>: its flags, the body every worker posts, what the workers count and the
  line printed at the end. The scan of the command line (\<open>flag.Parse\<close>), the replies, the moment the
  test's context ends and the time elapsed are arguments.
\<close>

section \<open>Flags\<close>

text \<open>The duration is in nanoseconds.\<close>

record load_options =
  lo_url :: string
  lo_token :: string
  lo_project :: string
  lo_concurrency :: int
  lo_duration :: int
  lo_batch :: int

text \<open>\<open>token\<close> is LOG_TOKEN.\<close>

definition default_options :: "string \<Rightarrow> load_options" where
  "default_options token =
     \<lparr>lo_url = ''http://localhost:8080'', lo_token = token, lo_project = ''loadtest'', lo_concurrency = 8,
      lo_duration = 10 * 1000000000, lo_batch = 50\<rparr>"

datatype load_flag =
    URLFlag string | TokenFlag string | ProjectFlag string
  | ConcurrencyFlag int | DurationFlag int | BatchFlag int

fun set_flag :: "load_flag \<Rightarrow> load_options \<Rightarrow> load_options" where
  "set_flag (URLFlag v) o1 = o1\<lparr>lo_url := v\<rparr>"
| "set_flag (TokenFlag v) o1 = o1\<lparr>lo_token := v\<rparr>"
| "set_flag (ProjectFlag v) o1 = o1\<lparr>lo_project := v\<rparr>"
| "set_flag (ConcurrencyFlag n) o1 = o1\<lparr>lo_concurrency := n\<rparr>"
| "set_flag (DurationFlag d) o1 = o1\<lparr>lo_duration := d\<rparr>"
| "set_flag (BatchFlag n) o1 = o1\<lparr>lo_batch := n\<rparr>"

definition load_options_of :: "string \<Rightarrow> load_flag list \<Rightarrow> load_options" where
  "load_options_of token flags = fold set_flag flags (default_options token)"

text \<open>The workers share one client: its timeout, and the idle connections it keeps, overall and per
  host.\<close>

definition load_client :: "load_options \<Rightarrow> int \<times> int \<times> int" where
  "load_client o1 = (10 * 1000000000, lo_concurrency o1 * 2, lo_concurrency o1 * 2)"

section \<open>The body\<close>

definition loadtest_event :: "string \<Rightarrow> nat \<Rightarrow> goval" where
  "loadtest_event project i =
     VMap [(''project'', VString project), (''level'', VString ''info''),
       (''message'', VString ''load test event''), (''context'', VMap [(''i'', VInt (int i))])]"

definition loadtest_body :: "string \<Rightarrow> nat \<Rightarrow> string" where
  "loadtest_body project batch =
     (case marshal_value (VList (map (loadtest_event project) [0..<batch])) of Some t \<Rightarrow> t | None \<Rightarrow> [])"

section \<open>The workers\<close>

text \<open>Without a token the program exits with 2.\<close>

definition loadtest_exit :: "string \<Rightarrow> nat option" where
  "loadtest_exit token = (if token = [] then Some 2 else None)"

definition loadtest_request :: "string \<Rightarrow> string \<Rightarrow> string \<Rightarrow> wire_request" where
  "loadtest_request url token body =
     \<lparr>wr_method = ''POST'', wr_url = url @ ''/logs'',
      wr_headers = [(''Authorization'', ''Bearer '' @ token), (''Content-Type'', ''application/json'')],
      wr_body = body\<rparr>"

text \<open>A round of a worker: no reply (with the context over or not) or a status. The counters are
  atomic, so the rounds of all workers are one sequence.\<close>

datatype load_round = NoResponse bool | Status nat

definition loadtest_round :: "nat \<Rightarrow> load_round \<Rightarrow> int \<times> int \<Rightarrow> int \<times> int" where
  "loadtest_round batch r counts =
     (case counts of (sent, errs) \<Rightarrow>
        (case r of
           NoResponse over \<Rightarrow> if over then (sent, errs) else (sent, errs + 1)
         | Status code \<Rightarrow> if code div 100 = 2 then (sent + int batch, errs) else (sent, errs + 1)))"

definition loadtest_run :: "nat \<Rightarrow> load_round list \<Rightarrow> int \<times> int" where
  "loadtest_run batch rounds = fold (loadtest_round batch) rounds (0, 0)"

definition accepted_round :: "load_round \<Rightarrow> bool" where
  "accepted_round r \<longleftrightarrow> (case r of Status code \<Rightarrow> code div 100 = 2 | _ \<Rightarrow> False)"

definition failed_round :: "load_round \<Rightarrow> bool" where
  "failed_round r \<longleftrightarrow> (case r of Status code \<Rightarrow> code div 100 \<noteq> 2 | NoResponse over \<Rightarrow> \<not> over)"

lemma loadtest_counts:
  "loadtest_run batch rounds =
    (int batch * int (length (filter accepted_round rounds)), int (length (filter failed_round rounds)))"
proof (induction rounds rule: rev_induct)
  case (snoc r rounds)
  then show ?case
    by (cases r) (simp_all add: loadtest_run_def loadtest_round_def accepted_round_def failed_round_def algebra_simps)
qed (simp add: loadtest_run_def)

section \<open>The report\<close>

text \<open>\<open>time.Duration\<close>: \<open>Round\<close>, \<open>Seconds\<close> and \<open>String\<close> (a fraction without its trailing zeros, the
  two bytes of the micro sign).\<close>

definition trem :: "int \<Rightarrow> int \<Rightarrow> int" where
  "trem a b = a - tdiv a b * b"

definition duration_round :: "int \<Rightarrow> int \<Rightarrow> int" where
  "duration_round d m =
     (if m \<le> 0 then d
      else if d < 0 then
        (let r = - trem d m in
         if 2 * r < m then d + r else if - (2 ^ 63) \<le> d - m + r then d - m + r else - (2 ^ 63))
      else
        (let r = trem d m in
         if 2 * r < m then d - r else if d + m - r < 2 ^ 63 then d + m - r else 2 ^ 63 - 1))"

definition duration_seconds :: "int \<Rightarrow> float64" where
  "duration_seconds d =
     f_add (f_of_int (tdiv d 1000000000)) (f_div (f_of_int (trem d 1000000000)) (Fin 1000000000))"

definition fraction_text :: "int \<Rightarrow> nat \<Rightarrow> string" where
  "fraction_text u prec =
     (let f = u mod 10 ^ prec in
      dec (u div 10 ^ prec) @ (if f = 0 then [] else CHR ''.'' # trim_right ''0'' (pad_zeros prec f)))"

definition duration_string :: "int \<Rightarrow> string" where
  "duration_string d =
     (let u = abs d; sign = (if d < 0 then ''-'' else []) in
      if u = 0 then ''0s''
      else if u < 1000 then sign @ dec u @ ''ns''
      else if u < 1000000 then sign @ fraction_text u 3 @ [CHR 0xC2, CHR 0xB5, CHR ''s'']
      else if u < 1000000000 then sign @ fraction_text u 6 @ ''ms''
      else
        (let secs = u div 1000000000; mins = secs div 60; hours = mins div 60 in
         sign @ (if 0 < hours then dec hours @ ''h'' else []) @
         (if 0 < mins then dec (mins mod 60) @ ''m'' else []) @
         fraction_text (secs mod 60 * 1000000000 + u mod 1000000000) 9 @ ''s''))"

text \<open>\<open>fmt\<close>'s \<open>%.0f\<close>.\<close>

fun whole_text :: "float64 \<Rightarrow> string" where
  "whole_text (Fin x) = itoa (round_even x)"
| "whole_text PInf = ''+Inf''"
| "whole_text NInf = ''-Inf''"
| "whole_text NaN = ''NaN''"

definition loadtest_report :: "int \<Rightarrow> int \<Rightarrow> int \<Rightarrow> string" where
  "loadtest_report sent errs elapsed =
     ''sent='' @ itoa sent @ '' errors='' @ itoa errs @ '' duration='' @
     duration_string (duration_round elapsed 1000000) @ '' throughput='' @
     whole_text (f_div (f_of_int sent) (duration_seconds elapsed)) @ '' events/s'' @ [CHR 0x0A]"

text \<open>The program: it exits with 2 without a token, \<open>make\<close> panics on a negative batch, and else it
  prints the report. Without workers there are no rounds.\<close>

datatype load_outcome = LoadExit nat | LoadPanic | LoadReport string

definition loadtest_main :: "string \<Rightarrow> load_flag list \<Rightarrow> load_round list \<Rightarrow> int \<Rightarrow> load_outcome" where
  "loadtest_main token flags rounds elapsed =
     (let o1 = load_options_of token flags in
      case loadtest_exit (lo_token o1) of
        Some code \<Rightarrow> LoadExit code
      | None \<Rightarrow>
          if lo_batch o1 < 0 then LoadPanic
          else
            (case loadtest_run (nat (lo_batch o1)) (if lo_concurrency o1 \<le> 0 then [] else rounds) of
               (sent, errs) \<Rightarrow> LoadReport (loadtest_report sent errs elapsed)))"

lemma duration_round_near:
  assumes "0 \<le> d" "d < 2 ^ 62" "0 < m" "m < 2 ^ 62"
  shows "2 * abs (duration_round d m - d) \<le> m \<and> duration_round d m mod m = 0"
proof -
  define r where "r = d mod m"
  have "tdiv d m = d div m" using assms by (cases "d = 0") (simp_all add: tdiv_def)
  then have r: "trem d m = r" by (simp add: trem_def r_def minus_div_mult_eq_mod)
  have b: "0 \<le> r" "r < m" using assms(3) by (simp_all add: r_def)
  have d: "d = m * (d div m) + r" by (simp add: r_def)
  show ?thesis
  proof (cases "2 * r < m")
    case True
    then have "duration_round d m = d - r" using assms by (simp add: duration_round_def r Let_def)
    moreover have "(d - r) mod m = 0" by (simp add: r_def minus_mod_eq_mult_div)
    ultimately show ?thesis using True b by simp
  next
    case False
    then have e: "duration_round d m = d + m - r" using assms b by (simp add: duration_round_def r Let_def)
    have "d + m - r = m * (d div m + 1)" using d by (simp add: algebra_simps)
    then have "(d + m - r) mod m = 0" by simp
    then show ?thesis using False b e by simp
  qed
qed

lemma duration_examples:
  "duration_string 0 = ''0s''" "duration_string 999 = ''999ns''" "duration_string 1500000 = ''1.5ms''"
  "duration_string 10001000000 = ''10.001s''" "duration_string 90000000000 = ''1m30s''" "duration_string 3600000000000 = ''1h0m0s''"
  by code_simp+

text \<open>The default settings, with 400 batches accepted and one refused.\<close>

lemma loadtest_example:
  "loadtest_main ''s3cret'' [] (replicate 400 (Status 204) @ [Status 503]) elapsed =
   LoadReport (loadtest_report 20000 1 elapsed)"
proof -
  have "loadtest_run 50 (replicate 400 (Status 204) @ [Status 503]) = (20000, 1)"
    by (simp add: loadtest_counts accepted_round_def failed_round_def)
  then show ?thesis
    by (simp add: loadtest_main_def load_options_of_def default_options_def loadtest_exit_def)
qed

section \<open>What the gateway makes of the body\<close>

definition loadtest_texts :: "string \<Rightarrow> nat \<Rightarrow> (string \<times> string) list" where
  "loadtest_texts project i =
     [(''context'', map_text [(''i'', itoa (int i))]), (''level'', quote True ''info''),
      (''message'', quote True ''load test event''), (''project'', quote True project)]"

lemma loadtest_event_text:
  "marshal_value (loadtest_event project i) = Some (map_text (loadtest_texts project i))"
  by (simp add: loadtest_event_def loadtest_texts_def sort_members_def less_char_def)

lemma loadtest_body_text:
  "loadtest_body project batch = list_text (map (\<lambda>i. map_text (loadtest_texts project i)) [0..<batch])"
proof -
  have "map marshal_value (map (loadtest_event project) [0..<batch]) =
      map Some (map (\<lambda>i. map_text (loadtest_texts project i)) [0..<batch])"
    by (simp add: loadtest_event_text)
  then have "those (map marshal_value (map (loadtest_event project) [0..<batch])) =
      Some (map (\<lambda>i. map_text (loadtest_texts project i)) [0..<batch])"
    by (simp only: those_Some)
  then show ?thesis by (simp only: loadtest_body_def marshal_value.simps option.map option.case)
qed

lemma index_context: "object_text (map_text [(''i'', itoa (int i))])"
  by (rule map_text_object(1)) (simp add: value_at_itoa)

lemma loadtest_values:
  "list_all (\<lambda>m. value_at [ParseObjectValue] (snd m)) (loadtest_texts project i)"
  "list_all (\<lambda>m. raw_text (snd m)) (loadtest_texts project i)"
  using value_at_map [of "[ParseObjectValue]" "[(''i'', itoa (int i))]"]
  by (simp_all add: loadtest_texts_def value_at_quote value_at_itoa raw_text_quote maxNestingDepth_def
      raw_text_object [OF index_context])

lemma loadtest_event_read:
  assumes "utf8_valid project"
  shows "unmarshal_event (map_text (loadtest_texts project i)) =
    Some \<lparr>ev_project = project, ev_level = ''info'', ev_message = ''load test event'',
      ev_context = map_text [(''i'', itoa (int i))], ev_timestamp = []\<rparr>"
proof -
  have "json_valid (map_text (loadtest_texts project i))"
    using map_text_object(2) [OF loadtest_values(1)] by (simp add: json_valid_def scans_def scan_eof_def)
  moreover have "map_text (loadtest_texts project i) \<noteq> ''null''" by (simp add: map_text_def)
  moreover have "utf8_valid ''info''" "utf8_valid ''load test event''" by (rule utf8_valid_ascii; simp)+
  then have "fold set_member (map (\<lambda>(k, t). (quote True k, t)) (loadtest_texts project i)) (empty_event, True) =
      (\<lparr>ev_project = project, ev_level = ''info'', ev_message = ''load test event'',
        ev_context = map_text [(''i'', itoa (int i))], ev_timestamp = []\<rparr>, True)"
    using assms
    by (simp add: loadtest_texts_def set_member_def unquote_names field_of_names set_string_def quote_not_null
        unquote_quote empty_event_def)
  ultimately show ?thesis
    using map_text_members [OF _ loadtest_values(2)] by (simp add: unmarshal_event_def loadtest_texts_def)
qed

text \<open>The body is a batch of the size asked for, and each element is the event of its number.\<close>

lemma loadtest_body_decodes:
  assumes "0 < batch" "int batch \<le> limit" "utf8_valid project"
  shows "\<exists>texts. batch_elements limit (loadtest_body project batch) = Elements texts \<and> length texts = batch \<and>
    (\<forall>i < batch. \<exists>ev. unmarshal_event (texts ! i) = Some ev \<and> ev_project ev = project \<and>
      ev_context ev = map_text [(''i'', itoa (int i))])"
proof -
  let ?texts = "map (\<lambda>i. map_text (loadtest_texts project i)) [0..<batch]"
  have obj: "list_all object_text ?texts" "?texts \<noteq> []"
    using assms(1) map_text_object(1) [OF loadtest_values(1)] by (simp_all add: list_all_iff)
  have "batch_elements limit (loadtest_body project batch) = Elements ?texts"
    using array_loop_objects [OF obj, of "nat limit"] assms(2)
    by (simp add: loadtest_body_text list_text_def batch_elements_def batch_of_def)
  then show ?thesis using loadtest_event_read [OF assms(3)] by (intro exI [of _ ?texts]) simp
qed

end
