(* ===== verification/EndToEnd.thy ===== *)
theory EndToEnd
  imports ClientGateway
begin

text \<open>
  From an application's \<open>Log\<close> to the gateway's buffer: the events of a send that reports no
  error are in the buffer of the gateway that answered it, each as the row its fields make.
\<close>

section \<open>The row of an event\<close>

text \<open>The stored row of an event, \<open>now\<close> being the two readings of the gateway's clock: what fits the
  limits is stored as it was logged, and a time stamp within the window is the client's.\<close>

definition stored_as :: "config \<Rightarrow> time \<times> time \<Rightarrow> event \<Rightarrow> row \<Rightarrow> bool" where
  "stored_as cfg now e r \<longleftrightarrow>
     row_project r = trim_space (cev_project e) \<and> row_level r = normalizeLevel (cev_level e) \<and>
     row_message r = (if maxMessageBytes cfg < int (length (cev_message e))
       then truncate_message (maxMessageBytes cfg) (cev_message e) else cev_message e) \<and>
     (cev_context e = [] \<longrightarrow> row_context r = ''{}'') \<and>
     (\<forall>x. cev_context e \<noteq> [] \<and> marshal_value (VMap (cev_context e)) = Some x \<longrightarrow>
       row_context r = (if int (length x) \<le> maxContextBytes cfg then x else truncated_marker (int (length x)))) \<and>
     (\<forall>t. stamp_ok t \<and> cev_timestamp e = format_nano t \<and>
         \<not> before (time_add (fst now) (5 * 60 * 1000000000)) t \<and> \<not> before t (time_add (fst now) (- retention cfg)) \<longrightarrow>
       row_timestamp r = format_ch t)"

lemma normalizeContext_kept:
  assumes "marshal_value (VMap kvs) = Some x" "value_ok 9999 (VMap kvs)"
  shows "fst (normalizeContext x limit) =
    (if int (length x) \<le> limit then x else truncated_marker (int (length x)))"
proof -
  have ok: "value_ok (Suc 9998) (VMap kvs)" using assms(2) by simp
  obtain ms where ms: "x = map_text ms" "list_all (\<lambda>m. value_at [ParseObjectValue] (snd m)) ms"
    using marshal_map [OF assms(1) ok, of "[ParseObjectValue]"] by (auto simp: maxNestingDepth_def)
  have x: "x = CHR ''{'' # join '','' (map (\<lambda>(k, t). quote True k @ '':'' @ t) ms) @ [CHR ''}'']"
    by (simp add: ms(1) map_text_def)
  have "trim_space x = x" unfolding x by (rule trim_space_solid) (simp_all add: solid_def)
  moreover have "json_valid x"
    using map_text_object(2) [OF ms(2)] by (simp add: ms(1) json_valid_def scans_def scan_eof_def)
  moreover have "utf8_valid x" using value_utf8 [OF assms] .
  moreover have "x \<noteq> []" "x \<noteq> ''null''" by (simp_all add: x)
  ultimately show ?thesis by (simp add: normalizeContext_def Let_def truncated_marker_def)
qed

lemma normalizeEventTime_kept:
  assumes "stamp_ok t" "\<not> before (time_add now (5 * 60 * 1000000000)) t" "\<not> before t (time_add now (- keep))"
  shows "normalizeEventTime now (quote True (format_nano t)) keep = (format_ch t, SkewNone)"
proof -
  have q: "trim_space (quote True s) = quote True s" "quote True s \<noteq> []" for s
    using trim_space_solid [of "CHR 0x22" "CHR 0x22"] by (simp_all add: quote_def solid_def)
  have "event_time (quote True (format_nano t)) = Some t" using stamp_read [OF assms(1)] by (simp add: q(1))
  then show ?thesis
    using assms(2,3) q(2) quote_not_null [of True "format_nano t"] by (simp add: normalizeEventTime_def Let_def q(1))
qed

lemma seen_event_row:
  assumes "marshal_event e = Some x" "event_ok e"
  shows "if acceptable e then \<exists>r. fst (buildRow cfg (fst now) (snd now) (seen_event e) m) = Some r \<and> stored_as cfg now e r
    else fst (buildRow cfg (fst now) (snd now) (seen_event e) m) = None"
proof (cases "acceptable e")
  case False
  then show ?thesis by (auto simp: acceptable_def buildRow_def seen_event_def Let_def)
next
  case True
  obtain r where r: "fst (buildRow cfg (fst now) (snd now) (seen_event e) m) = Some r"
      "row_project r = trim_space (cev_project e)" "row_level r = normalizeLevel (cev_level e)"
      "row_message r = (if maxMessageBytes cfg < int (length (cev_message e))
         then truncate_message (maxMessageBytes cfg) (cev_message e) else cev_message e)"
      "row_context r = fst (normalizeContext (ev_context (seen_event e)) (maxContextBytes cfg))"
      "row_timestamp r = (let ts = fst (normalizeEventTime (fst now) (ev_timestamp (seen_event e)) (retention cfg)) in
         if ts = [] then format_ch (snd now) else ts)"
    using True by (auto simp: acceptable_def buildRow_def seen_event_def Let_def case_prod_beta)
  have "trim_space [] = []" by (simp add: trim_space_def strip.simps space_seqs_def)
  then have "row_context r = ''{}''" if "cev_context e = []"
    using that by (simp add: r(5) seen_event_def normalizeContext_def)
  moreover have "row_context r = (if int (length y) \<le> maxContextBytes cfg then y else truncated_marker (int (length y)))"
    if "cev_context e \<noteq> []" "marshal_value (VMap (cev_context e)) = Some y" for y
    using that assms(2) normalizeContext_kept [OF that(2)]
    by (simp add: r(5) seen_event_def event_ok_def del: marshal_value.simps(7) value_ok.simps)
  moreover have "row_timestamp r = format_ch t"
    if "stamp_ok t" "cev_timestamp e = format_nano t" "\<not> before (time_add (fst now) (5 * 60 * 1000000000)) t"
      "\<not> before t (time_add (fst now) (- retention cfg))" for t
  proof -
    have "format_nano t \<noteq> []" by (simp add: format_nano_def Let_def split: prod.split)
    then have "ev_timestamp (seen_event e) = quote True (format_nano t)" using that(2) by (simp add: seen_event_def)
    then show ?thesis using normalizeEventTime_kept [OF that(1,3,4)] by (simp add: r(6) Let_def)
  qed
  ultimately show ?thesis using True r(1-4) by (auto simp: stored_as_def)
qed

section \<open>The rows of a batch\<close>

text \<open>Row by row, the acceptable events of a batch, each with its number.\<close>

definition stored_rows :: "config \<Rightarrow> (nat \<Rightarrow> time \<times> time) \<Rightarrow> nat \<Rightarrow> event list \<Rightarrow> row list \<Rightarrow> bool" where
  "stored_rows cfg clock k es rows \<longleftrightarrow>
     list_all2 (\<lambda>(i, e) r. stored_as cfg (clock i) e r) (filter (\<lambda>(i, e). acceptable e) (enumerate k es)) rows"

lemma seen_rows:
  "list_all2 (\<lambda>e x. unmarshal_event (sanitise x) = Some (seen_event e) \<and> marshal_event e = Some x \<and> event_ok e) es texts \<Longrightarrow>
   stored_rows cfg clock k es (fst (event_rows cfg clock k texts m))"
proof (induction es texts arbitrary: k m rule: list_all2_induct)
  case (Cons e es x texts)
  have e: "unmarshal_event (sanitise x) = Some (seen_event e)" "marshal_event e = Some x" "event_ok e"
    using Cons.hyps(1) by simp_all
  obtain ro m1 where b: "buildRow cfg (fst (clock k)) (snd (clock k)) (seen_event e) m = (ro, m1)"
    by (cases "buildRow cfg (fst (clock k)) (snd (clock k)) (seen_event e) m")
  note row = seen_event_row [OF e(2,3), of cfg "clock k" m]
  obtain m2 where er: "event_row cfg (clock k) x m = (ro, m2)"
    using b by (cases ro) (auto simp: event_row_def e(1))
  obtain rows m3 where rs: "event_rows cfg clock (Suc k) texts m2 = (rows, m3)"
    by (cases "event_rows cfg clock (Suc k) texts m2")
  have "stored_rows cfg clock (Suc k) es rows" using Cons.IH [of "Suc k" m2] by (simp add: rs)
  then show ?case
    using row by (auto simp: stored_rows_def er rs b split: if_splits)
qed (simp add: stored_rows_def)

section \<open>What a 204 stored\<close>

lemma receive_batch_data:
  assumes "receive_batch env r s = (Rows rows, s')" "0 < maxBodyBytes (srv_cfg s)" "maxBodyBytes (srv_cfg s) < 2 ^ 63 - 1"
    "\<not> equal_fold (header_get r ''Content-Encoding'') ''gzip''"
  shows "fst (parse_data (srv_cfg s) (le_clock env) (stream_data (req_body r)) (srv_m s)) = Rows rows"
proof -
  let ?bs = "case srv_inflight s of Some b \<Rightarrow> b | None \<Rightarrow> newByteSemaphore 0" and ?res = "newReservation (srv_inflight s)"
  obtain bs' res' m where p: "parseBatch (le_gunzip env) (srv_cfg s) (le_clock env) (le_others env) r ?bs ?res (srv_m s) =
      (Rows rows, bs', res', m)"
    using assms(1) by (auto simp: receive_batch_def Let_def split: prod.splits)
  then obtain data where d: "fst (readBody (le_gunzip env) (srv_cfg s) (le_others env) r ?bs ?res) = Body data"
    "fst (parse_data (srv_cfg s) (le_clock env) data (srv_m s)) = Rows rows"
    by (auto simp: parseBatch_def split: prod.splits body_result.splits)
  obtain out bs2 res2 where q: "read_all (le_others env) 0 (limit_reader (maxBodyBytes (srv_cfg s) + 1) (req_body r)) 0 ?bs ?res =
      (out, bs2, res2)"
    by (cases "read_all (le_others env) 0 (limit_reader (maxBodyBytes (srv_cfg s) + 1) (req_body r)) 0 ?bs ?res") auto
  have "body_verdict (maxBodyBytes (srv_cfg s)) (req_body r) = Body data"
    using d(1) judge_identity [OF q assms(2)] by (auto simp: readBody_identity [OF assms(2-4)] q)
  then show ?thesis using d(2) by (auto simp: body_verdict_def split: if_splits)
qed

text \<open>Only storing a batch is answered with success.\<close>

lemma handleLogs_success:
  assumes "handleLogs env r w s = (w', s')" "rsp_status w = None" "response_code w' div 100 = 2"
  shows "\<exists>s1 s2 rows. srv_cfg s1 = srv_cfg s \<and> srv_ingest s1 = srv_ingest s \<and>
    receive_batch env r s1 = (Rows rows, s2) \<and> store_batch r rows w s2 = (w', s')"
proof -
  have no: "reject code reason v t \<noteq> (w', s')" if "rsp_status v = None" "code div 100 \<noteq> 2" for code reason v t
    using assms(3) that by (auto simp: reject_def response_code_def)
  obtain ok s1 where rl: "rate_allows (le_now env) s = (ok, s1)" by (cases "rate_allows (le_now env) s")
  obtain out s2 where b: "receive_batch env r s1 = (out, s2)" by (cases "receive_batch env r s1")
  have h: "req_method r = ''POST'' \<and> authorized s r \<and> ok"
    using assms(1,2) no by (auto simp: handleLogs_def rl split: if_splits bool.splits)
  show ?thesis
  proof (cases out)
    case (Rows rows)
    then have "store_batch r rows w s2 = (w', s')" using assms(1) h by (simp add: handleLogs_def rl b)
    then show ?thesis using rate_allows_frame [OF rl] b Rows by auto
  next
    case (Rejected code reason)
    then have "(code, reason) \<in> set parse_reasons"
      using b parseBatch_reasons by (force simp: receive_batch_def Let_def split: prod.splits)
    then have "code div 100 \<noteq> 2" by (auto simp: parse_reasons_def)
    moreover have "reject code reason (if reason = reasonOverloaded then set_header ''Retry-After'' ''1'' w else w) s2 = (w', s')"
      using assms(1) h Rejected by (simp add: handleLogs_def rl b)
    ultimately show ?thesis using no [of "if reason = reasonOverloaded then set_header ''Retry-After'' ''1'' w else w" code]
      assms(2) by auto
  qed
qed

lemma store_batch_success:
  assumes "store_batch r rows w s = (w', s')" "rsp_status w = None" "response_code w' div 100 = 2"
  shows "ing_ch (srv_ingest s') = ing_ch (srv_ingest s) @ enqueue_lines rows (clientIP (trustedProxies (srv_cfg s)) r) \<and>
    m_received (srv_m s') = m_received (srv_m s) + int (length rows)"
proof -
  obtain accepted dropped ing where q: "enqueue (srv_cfg s) rows (clientIP (trustedProxies (srv_cfg s)) r) (srv_ingest s) =
      ((accepted, dropped), ing)"
    by (metis prod.exhaust)
  let ?s1 = "s\<lparr>srv_ingest := ing\<rparr>"
  let ?m = "(srv_m ?s1)\<lparr>m_received := m_received (srv_m ?s1) + accepted, m_projects := projects_observe rows accepted (m_projects (srv_m ?s1))\<rparr>"
  have dropped: "\<not> 0 < dropped" using assms by (auto simp: store_batch_def q Let_def response_code_def)
  then have s': "s' = set_m ?m ?s1" using assms(1) by (simp add: store_batch_def q Let_def)
  from q show ?thesis
  proof (rule enqueue_cases)
    assume "accepted = int (length rows)" "ing = (srv_ingest s)\<lparr>ing_ch := ing_ch (srv_ingest s) @
        enqueue_lines rows (clientIP (trustedProxies (srv_cfg s)) r),
        ing_bufBytes := ing_bufBytes (srv_ingest s) + line_bytes (enqueue_lines rows (clientIP (trustedProxies (srv_cfg s)) r))\<rparr>"
    then show ?thesis by (simp add: s' srv_m_def)
  next
    assume "accepted = 0" "dropped = int (length rows)" "ing = srv_ingest s"
    then show ?thesis using dropped by (simp add: s' srv_m_def enqueue_lines_def)
  qed
qed

text \<open>What the transport makes of the client's request: the headers as \<open>net/http\<close> hands them over, the
  body in whatever pieces it arrives. The endpoint is a gateway, without a path of its own.\<close>

definition as_received :: "string \<Rightarrow> reader \<Rightarrow> wire_request \<Rightarrow> request" where
  "as_received addr pieces q =
     \<lparr>req_method = wr_method q, req_path = ''/logs'', req_headers = map (\<lambda>(k, v). (k, [v])) (wr_headers q),
      remoteAddr = addr, req_body = pieces\<rparr>"

text \<open>One request: a batch that a gateway answers with success has its rows at the end of the
  buffer.\<close>

lemma request_buffered:
  assumes "marshal_events es = Some body" "es \<noteq> []" "list_all event_ok es" "response_code w' div 100 = 2"
    "r = as_received addr pieces (log_request c body)" "stream_data pieces = body" "serve env r s = (w', s')"
    "int (length es) \<le> maxBatchEvents (srv_cfg s)" "0 < maxBodyBytes (srv_cfg s)" "maxBodyBytes (srv_cfg s) < 2 ^ 63 - 1"
  shows "\<exists>rows. stored_rows (srv_cfg s) (le_clock (se_logs env)) 0 es rows \<and> rows \<noteq> [] \<and>
    ing_ch (srv_ingest s') = ing_ch (srv_ingest s) @ enqueue_lines rows (clientIP (trustedProxies (srv_cfg s)) r) \<and>
    m_received (srv_m s') = m_received (srv_m s) + int (length rows)"
proof -
  obtain w1 s1 where h: "handleLogs (se_logs env) r (securityHeaders new_response) s = (w1, s1)"
    by (cases "handleLogs (se_logs env) r (securityHeaders new_response) s")
  have "mux env r (securityHeaders new_response) s = (w1, s1)"
    using h by (simp add: mux_def assms(5) as_received_def split: prod.split)
  then have s': "w' = w1" "ing_ch (srv_ingest s') = ing_ch (srv_ingest s1)" "m_received (srv_m s') = m_received (srv_m s1)"
    using assms(7) by (auto simp: serve_def countRequests_def srv_m_def set_m_def)
  have code: "response_code w1 div 100 = 2" using assms(4) by (simp add: s'(1))
  have status: "rsp_status (securityHeaders new_response) = None" by (simp add: securityHeaders_def)
  obtain s0 s2 rows where hs: "srv_cfg s0 = srv_cfg s" "srv_ingest s0 = srv_ingest s"
    "receive_batch (se_logs env) r s0 = (Rows rows, s2)" "store_batch r rows (securityHeaders new_response) s2 = (w1, s1)"
    using handleLogs_success [OF h status code] by blast
  have "header_get r ''Content-Encoding'' = []"
    by (simp add: assms(5) as_received_def log_request_def header_get_def header_values_def)
  then have "fst (parse_data (srv_cfg s) (le_clock (se_logs env)) body (srv_m s0)) = Rows rows"
    using receive_batch_data [OF hs(3)] assms(6,9,10) by (simp add: hs(1) assms(5) as_received_def)
  moreover obtain texts where t: "batch_elements (maxBatchEvents (srv_cfg s)) (skip_spaces body) = Elements texts" "texts \<noteq> []"
      "skip_spaces body \<noteq> []"
      "list_all2 (\<lambda>e x. unmarshal_event (sanitise x) = Some (seen_event e) \<and> marshal_event e = Some x \<and> event_ok e) es texts"
    by (rule client_batch_elements [OF assms(1,2,8,3)])
  ultimately have rows: "rows = fst (event_rows (srv_cfg s) (le_clock (se_logs env)) 0 texts (srv_m s0))" "rows \<noteq> []"
    by (auto simp: parse_data_def Let_def split: prod.splits if_splits)
  have frame: "srv_cfg s2 = srv_cfg s0" "ing_ch (srv_ingest s2) = ing_ch (srv_ingest s0)" "m_received (srv_m s2) = m_received (srv_m s0)"
    using receive_batch_frame [OF hs(3)] by (auto simp: not_stored_def same_buffer_def)
  show ?thesis
  proof (intro exI conjI)
    show "stored_rows (srv_cfg s) (le_clock (se_logs env)) 0 es rows" unfolding rows(1) by (rule seen_rows [OF t(4)])
    show "rows \<noteq> []" by (rule rows(2))
    show "ing_ch (srv_ingest s') = ing_ch (srv_ingest s) @ enqueue_lines rows (clientIP (trustedProxies (srv_cfg s)) r)"
      using store_batch_success [OF hs(4) status code] by (simp add: s' frame hs(1,2))
    show "m_received (srv_m s') = m_received (srv_m s) + int (length rows)"
      using store_batch_success [OF hs(4) status code] frame(3) hs(2) s'(3) by (simp add: srv_m_def)
  qed
qed

text \<open>A client whose endpoint is a gateway: \<open>gw k\<close> is the gateway when the client's \<open>k\<close>-th request
  arrives, whatever other senders and its worker have done to it meanwhile. The request gets the
  gateway's answer, or none.\<close>

record served =
  sv_env :: "nat \<Rightarrow> serve_env"
  sv_addr :: string
  sv_pieces :: "nat \<Rightarrow> string \<Rightarrow> reader"
  sv_gateway :: "nat \<Rightarrow> server"

definition received :: "served \<Rightarrow> client \<Rightarrow> nat \<Rightarrow> string \<Rightarrow> request" where
  "received v c k body = as_received (sv_addr v) (sv_pieces v k body) (log_request c body)"

definition served_by :: "served \<Rightarrow> client \<Rightarrow> bool" where
  "served_by v c \<longleftrightarrow>
     (\<forall>k body. stream_data (sv_pieces v k body) = body \<and>
       (cl_http c k (log_request c body) = NoAnswer \<or>
        (case serve (sv_env v k) (received v c k body) (sv_gateway v k) of
           (w, s) \<Rightarrow> cl_http c k (log_request c body) = Answer (response_code w) [Chunk (rsp_body w)])))"

text \<open>The request with number \<open>k\<close> stored the events \<open>es\<close>.\<close>

definition stored_by :: "served \<Rightarrow> client \<Rightarrow> nat \<Rightarrow> event list \<Rightarrow> bool" where
  "stored_by v c k es \<longleftrightarrow>
     (\<exists>body w s rows. marshal_events es = Some body \<and>
       serve (sv_env v k) (received v c k body) (sv_gateway v k) = (w, s) \<and>
       stored_rows (srv_cfg (sv_gateway v k)) (le_clock (se_logs (sv_env v k))) 0 es rows \<and> rows \<noteq> [] \<and>
       ing_ch (srv_ingest s) = ing_ch (srv_ingest (sv_gateway v k)) @
         enqueue_lines rows (clientIP (trustedProxies (srv_cfg (sv_gateway v k))) (received v c k body)) \<and>
       m_received (srv_m s) = m_received (srv_m (sv_gateway v k)) + int (length rows))"

definition gateway_ok :: "nat \<Rightarrow> server \<Rightarrow> bool" where
  "gateway_ok n s \<longleftrightarrow> int n \<le> maxBatchEvents (srv_cfg s) \<and> 0 < maxBodyBytes (srv_cfg s) \<and> maxBodyBytes (srv_cfg s) < 2 ^ 63 - 1"

lemma posts_served [simp]:
  "served_by v (posts c xs) = served_by v c" "stored_by v (posts c xs) = stored_by v c"
  by (simp_all add: served_by_def stored_by_def received_def log_request_def posts_def fun_eq_iff)

lemma stored_by_some: "stored_by v c k es \<Longrightarrow> es \<noteq> []"
  by (auto simp: stored_by_def stored_rows_def)

lemma post_stored:
  assumes "post sendable body c = (None, c')" "marshal_events es = Some body" "es \<noteq> []" "list_all event_ok es"
    "served_by v c" "gateway_ok (length es) (sv_gateway v (length (cl_posted c)))"
  shows "\<exists>x. c' = posts c [x] \<and> stored_by v c (length (cl_posted c)) es"
proof -
  let ?k = "length (cl_posted c)"
  obtain w s where sv: "serve (sv_env v ?k) (received v c ?k body) (sv_gateway v ?k) = (w, s)"
    by (cases "serve (sv_env v ?k) (received v c ?k body) (sv_gateway v ?k)")
  have http: "cl_http c ?k (log_request c body) = NoAnswer \<or>
      cl_http c ?k (log_request c body) = Answer (response_code w) [Chunk (rsp_body w)]"
    and body: "stream_data (sv_pieces v ?k body) = body"
    using assms(5) [unfolded served_by_def, rule_format, of ?k body] sv by auto
  have "response_code w div 100 = 2" "c' = posts c [(log_request c body, cl_http c ?k (log_request c body))]"
    using assms(1) http by (auto simp: post_def posts_def Let_def split: if_splits)
  then show ?thesis
    using request_buffered [OF assms(2-4) _ received_def body sv] assms(2,6) sv
    by (auto simp: stored_by_def gateway_ok_def)
qed

lemma send_stored:
  "send sendable es c = (None, c') \<Longrightarrow> list_all event_ok es \<Longrightarrow> served_by v c \<Longrightarrow>
   (\<And>k. gateway_ok (length es) (sv_gateway v k)) \<Longrightarrow>
   \<exists>parts xs. concat parts = es \<and> c' = posts c xs \<and> length xs = length parts \<and>
     (\<forall>j < length parts. stored_by v c (length (cl_posted c) + j) (parts ! j))"
proof (induction sendable es c arbitrary: c' rule: send.induct)
  case (1 sendable es c)
  let ?limit = "cl_maxBodyBytes c" and ?body = "marshal_events es" and ?half = "length es div 2"
  let ?split = "1 < length es \<and> (case ?body of None \<Rightarrow> True | Some t \<Rightarrow> ?limit < int (length t))"
  note s = send.simps [of sendable es c]
  consider "es = []" | "?split" | "es \<noteq> []" "\<not> ?split" by auto
  then show ?case
  proof cases
    case 1
    with "1.prems" show ?thesis by (intro exI [of _ "[]"]) (simp add: send.simps)
  next
    case 2
    then have ne: "es \<noteq> []" by auto
    have ok: "list_all event_ok (take ?half es)" "list_all event_ok (drop ?half es)"
      "gateway_ok (length (take ?half es)) (sv_gateway v k)" "gateway_ok (length (drop ?half es)) (sv_gateway v k)" for k
      using "1.prems"(2) "1.prems"(4) [of k] by (auto simp: gateway_ok_def list_all_iff dest: in_set_takeD in_set_dropD)
    obtain e1 c1 where s1: "send sendable (take ?half es) c = (e1, c1)" by (cases "send sendable (take ?half es) c")
    obtain e2 c2 where s2: "send sendable (drop ?half es) c1 = (e2, c2)" by (cases "send sendable (drop ?half es) c1")
    have "join_errors [e1, e2] = None" and c': "c' = c2"
      using "1.prems"(1) ne 2 s1 s2 by (simp_all add: s Let_def)
    then have e: "e1 = None" "e2 = None" by simp_all
    obtain ps xs where h1: "concat ps = take ?half es" "c1 = posts c xs" "length xs = length ps"
      "\<forall>j < length ps. stored_by v c (length (cl_posted c) + j) (ps ! j)"
      using "1.IH"(1) [OF ne refl refl 2 s1 [unfolded e] ok(1) "1.prems"(3) ok(3)] by blast
    have "served_by v c1" using "1.prems"(3) by (simp add: h1(2))
    then obtain qs ys where h2: "concat qs = drop ?half es" "c2 = posts c1 ys" "length ys = length qs"
      "\<forall>j < length qs. stored_by v c1 (length (cl_posted c1) + j) (qs ! j)"
      using "1.IH"(2) [OF ne refl refl 2 s1 [symmetric] s2 [unfolded e] ok(2) _ ok(4)] by blast
    have "stored_by v c (length (cl_posted c) + j) ((ps @ qs) ! j)" if "j < length (ps @ qs)" for j
    proof (cases "j < length ps")
      case True
      then show ?thesis using h1(4) by (simp add: nth_append)
    next
      case False
      then have "stored_by v c1 (length (cl_posted c1) + (j - length ps)) (qs ! (j - length ps))"
        using h2(4) [rule_format, of "j - length ps"] that False by simp
      then show ?thesis using False h1(3) by (simp add: h1(2) nth_append)
    qed
    moreover have "c' = posts c (xs @ ys)" by (simp add: c' h1(2) h2(2))
    moreover have "concat (ps @ qs) = es" using h1(1) h2(1) by simp
    ultimately show ?thesis using h1(3) h2(3) by (intro exI [of _ "ps @ qs"] exI [of _ "xs @ ys"]) simp
  next
    case 3
    show ?thesis
    proof (cases ?body)
      case None
      then obtain e where e: "es = [e]" using 3 singleton by auto
      then have "sendWithoutContext sendable e Unencodable c = (None, c')"
        using "1.prems"(1) None by (simp add: send.simps)
      moreover have "fst (sendWithoutContext sendable e Unencodable c) \<noteq> None"
        by (auto simp: sendWithoutContext_def Let_def simp del: not_None_eq split: option.split prod.split)
      ultimately show ?thesis by simp
    next
      case (Some txt1)
      then have "post sendable txt1 c = (None, c')"
        using "1.prems"(1) 3 by (auto simp: s Let_def split: if_splits)
      then obtain x where "c' = posts c [x]" "stored_by v c (length (cl_posted c)) es"
        using post_stored [OF _ Some 3(1) "1.prems"(2,3)] "1.prems"(4) by blast
      then show ?thesis by (intro exI [of _ "[es]"] exI [of _ "[x]"]) simp
    qed
  qed
qed

text \<open>C3: A \<open>send\<close> that reports no error has its events stored, also when it splits the batch to keep its
  requests below the client's limit. Then there are parts of the batch, which in order are the
  whole batch, and for each of them one request of the client, to which the gateway appended the
  rows of every acceptable event of the part at the end of its buffer, in order: the project,
  level, message, context and time that were logged, as far as the gateway's limits go, and the
  sender's address; and as many events are counted as received. The events are ones whose
  strings are valid UTF-8 (others are stored with replacement characters), the batch has at
  most MAX_BATCH_EVENTS events, and MAX_BODY_BYTES is positive and below 2^63 - 1.\<close>

theorem sent_events_buffered:
  assumes "send sendable es c = (None, c')" "list_all event_ok es" "served_by v c"
    "\<And>k. gateway_ok (length es) (sv_gateway v k)"
  shows "\<exists>parts. concat parts = es \<and> length (cl_posted c') = length (cl_posted c) + length parts \<and>
    (\<forall>j < length parts. stored_by v c (length (cl_posted c) + j) (parts ! j))"
proof -
  obtain parts xs where "concat parts = es" "c' = posts c xs" "length xs = length parts"
    "\<forall>j < length parts. stored_by v c (length (cl_posted c) + j) (parts ! j)"
    using send_stored [OF assms] by blast
  then show ?thesis by (intro exI [of _ parts]) (simp add: posts_def)
qed

section \<open>One event on its way\<close>

definition demo_logged :: event where
  "demo_logged = \<lparr>cev_project = ''shop'', cev_level = [], cev_message = ''hi'', cev_context = [], cev_timestamp = []\<rparr>"

lemma demo_logged_body: "marshal_events [demo_logged] = Some demo_body"
  by code_simp

lemma demo_logged_ok: "event_ok demo_logged"
  by (simp add: event_ok_def demo_logged_def utf8_valid_ascii)

text \<open>A transport that is a gateway, and a client that uses it.\<close>

definition demo_env_serve :: serve_env where
  "demo_env_serve = \<lparr>se_logs = demo_env, se_sendable = (\<lambda>_. True), se_db = (\<lambda>_. NoReply), se_checked = 0,
    se_printable = (\<lambda>_. True), se_build = ([], [], [], []), se_fallback = (\<lambda>_ w. w)\<rparr>"

definition demo_served :: served where
  "demo_served = \<lparr>sv_env = (\<lambda>_. demo_env_serve), sv_addr = ''10.0.0.8:4000'', sv_pieces = (\<lambda>_ body. [Chunk body]),
     sv_gateway = (\<lambda>_. demo_server)\<rparr>"

definition demo_http :: http_client where
  "demo_http k q =
     (case serve demo_env_serve (as_received ''10.0.0.8:4000'' [Chunk (wr_body q)] q) demo_server of
        (w, s) \<Rightarrow> Answer (response_code w) [Chunk (rsp_body w)])"

definition demo_sender :: client where
  "demo_sender = New demo_http ''http://gw'' ''s3cret'' ''shop'' []"

lemma demo_sender_fields:
  "log_request demo_sender body = \<lparr>wr_method = ''POST'', wr_url = ''http://gw/logs'',
     wr_headers = [(''Authorization'', ''Bearer s3cret''), (''Content-Type'', ''application/json'')], wr_body = body\<rparr>"
  "cl_maxBodyBytes demo_sender = 4 * 2 ^ 20" "cl_http demo_sender = demo_http" "cl_posted demo_sender = []"
  by (simp_all add: demo_sender_def New_def clamp_batch_def Let_def log_request_def trim_right_def
      defaultMaxBatch_def defaultMaxBuffer_def defaultMaxBodyBytes_def)

definition demo_sent :: request where
  "demo_sent = as_received ''10.0.0.8:4000'' [Chunk demo_body] (log_request demo_sender demo_body)"

lemma demo_sent_same:
  "handleLogs demo_env demo_sent w demo_server = handleLogs demo_env (demo_request demo_body) w demo_server"
  and demo_sent_client: "clientIP ns demo_sent = clientIP ns (demo_request demo_body)"
proof -
  have h: "header_values demo_sent k = header_values (demo_request demo_body) k" if "k \<noteq> ''Content-Type''" for k
    using that by (simp add: demo_sent_def as_received_def demo_sender_fields header_values_def demo_request_def)
  have g: "header_get demo_sent k = header_get (demo_request demo_body) k" if "k \<noteq> ''Content-Type''" for k
    using h [OF that] by (simp add: header_get_def)
  have f: "req_method demo_sent = req_method (demo_request demo_body)" "req_body demo_sent = req_body (demo_request demo_body)"
    "remoteAddr demo_sent = remoteAddr (demo_request demo_body)"
    by (simp_all add: demo_sent_def as_received_def demo_sender_fields demo_request_def)
  have ne: "''Authorization'' \<noteq> ''Content-Type''" "''X-Log-Token'' \<noteq> ''Content-Type''"
    "''Content-Encoding'' \<noteq> ''Content-Type''" "''X-Forwarded-For'' \<noteq> ''Content-Type''" by simp_all
  have "bearer demo_sent = bearer (demo_request demo_body)"
    unfolding bearer_def g [OF ne(1)] g [OF ne(2)] ..
  then have "authorized s demo_sent = authorized s (demo_request demo_body)" for s
    by (simp add: authorized_def)
  moreover have "receive_batch demo_env demo_sent s = receive_batch demo_env (demo_request demo_body) s" for s
    unfolding receive_batch_def parseBatch_def readBody_def f g [OF ne(3)] ..
  moreover show ip: "clientIP ns demo_sent = clientIP ns (demo_request demo_body)" for ns
    unfolding clientIP_def f h [OF ne(4)] ..
  then have "store_batch demo_sent rows w s = store_batch (demo_request demo_body) rows w s" for rows w s
    by (simp add: store_batch_def)
  ultimately show "handleLogs demo_env demo_sent w demo_server = handleLogs demo_env (demo_request demo_body) w demo_server"
    unfolding handleLogs_def f by presburger
qed

lemma sent_events_buffered_witness:
  "\<exists>c' body rows. send (\<lambda>_. True) [demo_logged] demo_sender = (None, c') \<and>
    stored_rows demo_config (\<lambda>_. (unix 0 0, unix 0 0)) 0 [demo_logged] rows \<and> rows \<noteq> [] \<and>
    ing_ch (srv_ingest (snd (serve demo_env_serve (received demo_served demo_sender 0 body) demo_server))) =
      enqueue_lines rows (clientIP (trustedProxies demo_config) (received demo_served demo_sender 0 body))"
proof -
  have by_gateway: "served_by demo_served demo_sender"
    by (simp add: served_by_def demo_served_def received_def demo_sender_fields demo_http_def split: prod.split)
  obtain w s' where sv: "serve demo_env_serve demo_sent demo_server = (w, s')" by (cases "serve demo_env_serve demo_sent demo_server")
  have http: "cl_http demo_sender 0 (log_request demo_sender demo_body) = Answer (response_code w) [Chunk (rsp_body w)]"
    using sv by (simp add: demo_sender_fields demo_http_def demo_sent_def)
  have "fst (serve demo_env_serve demo_sent demo_server) = fst (handleLogs demo_env (demo_request demo_body) (securityHeaders new_response) demo_server)"
    by (simp add: serve_def countRequests_def mux_def demo_env_serve_def demo_sent_same [symmetric] demo_sent_def as_received_def split: prod.split)
  moreover have "rsp_status (fst (handleLogs demo_env (demo_request demo_body) (securityHeaders new_response) demo_server)) = Some 204"
    by (rule demo_handleLogs) (simp add: securityHeaders_def)
  ultimately have "response_code w div 100 = 2" by (simp add: sv response_code_def)
  then have "fst (post (\<lambda>_. True) demo_body demo_sender) = None"
    using http by (simp add: post_def Let_def demo_sender_fields(4))
  moreover have "int (length demo_body) \<le> cl_maxBodyBytes demo_sender" by (simp add: demo_sender_fields demo_length)
  ultimately have "fst (send (\<lambda>_. True) [demo_logged] demo_sender) = None"
    by (subst send.simps) (simp add: demo_logged_body)
  then obtain c' where send: "send (\<lambda>_. True) [demo_logged] demo_sender = (None, c')"
    by (cases "send (\<lambda>_. True) [demo_logged] demo_sender") auto
  have gw: "gateway_ok (length [demo_logged]) (sv_gateway demo_served k)" for k
    by (simp add: gateway_ok_def demo_served_def demo_server_fields demo_max_events) (simp add: demo_config_def)
  have ok: "list_all event_ok [demo_logged]" using demo_logged_ok by simp
  obtain parts where parts: "concat parts = [demo_logged]"
    "\<forall>j < length parts. stored_by demo_served demo_sender (length (cl_posted demo_sender) + j) (parts ! j)"
    using sent_events_buffered [OF send ok by_gateway gw] by blast
  have stored: "stored_by demo_served demo_sender j (parts ! j)" if "j < length parts" for j
    using parts(2) that by (simp add: demo_sender_fields(4))
  have "p \<noteq> []" if "p \<in> set parts" for p
    using that stored stored_by_some by (metis in_set_conv_nth)
  then have "parts = [[demo_logged]]"
    using parts(1) by (cases parts; cases "hd parts"; cases "tl parts") auto
  then have "stored_by demo_served demo_sender 0 [demo_logged]" using stored [of 0] by simp
  then obtain body w1 s1 rows where st: "serve (sv_env demo_served 0) (received demo_served demo_sender 0 body)
        (sv_gateway demo_served 0) = (w1, s1)" "rows \<noteq> []"
      "stored_rows (srv_cfg (sv_gateway demo_served 0)) (le_clock (se_logs (sv_env demo_served 0))) 0 [demo_logged] rows"
      "ing_ch (srv_ingest s1) = ing_ch (srv_ingest (sv_gateway demo_served 0)) @
        enqueue_lines rows (clientIP (trustedProxies (srv_cfg (sv_gateway demo_served 0))) (received demo_served demo_sender 0 body))"
    unfolding stored_by_def by blast
  have f: "sv_env demo_served 0 = demo_env_serve" "sv_gateway demo_served 0 = demo_server"
    "le_clock (se_logs demo_env_serve) = (\<lambda>_. (unix 0 0, unix 0 0))"
    by (simp_all add: demo_served_def demo_env_serve_def demo_env_def)
  show ?thesis
    using send st by (intro exI [of _ c'] exI [of _ body] exI [of _ rows]) (simp add: f demo_server_fields)
qed

end
