(* ===== verification/Durability.thy ===== *)
theory Durability
  imports SpoolFacts
begin

text \<open>
  The spool's system calls one by one (\<open>writeFileSync\<close>, the rest of \<open>spool\<close>, \<open>syncDir\<close>, the
  calls of the replay loop and of \<open>start\<close> in \<open>gateway/ingest.go\<close>), on a disk whose contents and
  directory reach the medium only when they are synced. The process may be killed and the power
  may fail between any two calls. A start may find the directory missing or unreadable; then the
  counter is not resumed, which the theorems about the files exclude (\<open>numbered_run\<close>).
\<close>

section \<open>The disk\<close>

type_synonym inode = nat

text \<open>A change of the directory, with the file it is about.\<close>

datatype dirop = Link string inode | Unlink string | Move string string inode

text \<open>\<open>dk_stable\<close> is the directory on the medium, \<open>dk_pending\<close> what happened to it since, oldest
  first; \<open>dk_data\<close> is what a reader sees of a file, \<open>dk_synced\<close> whether that is on the medium.\<close>

record disk =
  dk_stable :: "(string \<times> inode) list"
  dk_pending :: "dirop list"
  dk_data :: "inode \<Rightarrow> string"
  dk_synced :: "inode \<Rightarrow> bool"
  dk_next :: inode

definition unlinked :: "string \<Rightarrow> (string \<times> inode) list \<Rightarrow> (string \<times> inode) list" where
  "unlinked n t = filter (\<lambda>e. fst e \<noteq> n) t"

fun apply_op :: "dirop \<Rightarrow> (string \<times> inode) list \<Rightarrow> (string \<times> inode) list" where
  "apply_op (Link n i) t = (n, i) # unlinked n t"
| "apply_op (Unlink n) t = unlinked n t"
| "apply_op (Move a b i) t = (b, i) # unlinked b (unlinked a t)"

definition live :: "disk \<Rightarrow> (string \<times> inode) list" where
  "live d = fold apply_op (dk_pending d) (dk_stable d)"

text \<open>The directory as \<open>Spool\<close> has it.\<close>

definition disk_dir :: "disk \<Rightarrow> dir" where
  "disk_dir d = map (\<lambda>(n, i). (n, Plain (dk_data d i))) (live d)"

text \<open>\<open>os.OpenFile\<close> with \<open>O_CREATE\<close> and \<open>O_TRUNC\<close>.\<close>

definition open_trunc :: "string \<Rightarrow> disk \<Rightarrow> inode \<times> disk" where
  "open_trunc n d =
     (case map_of (live d) n of
        Some i \<Rightarrow> (i, d\<lparr>dk_data := (dk_data d)(i := []), dk_synced := (dk_synced d)(i := False)\<rparr>)
      | None \<Rightarrow>
          (let i = dk_next d in
           (i, d\<lparr>dk_pending := dk_pending d @ [Link n i], dk_data := (dk_data d)(i := []),
              dk_synced := (dk_synced d)(i := False), dk_next := Suc i\<rparr>)))"

definition write_bytes :: "inode \<Rightarrow> string \<Rightarrow> disk \<Rightarrow> disk" where
  "write_bytes i b d = d\<lparr>dk_data := (dk_data d)(i := dk_data d i @ b), dk_synced := (dk_synced d)(i := False)\<rparr>"

definition fsync :: "inode \<Rightarrow> disk \<Rightarrow> disk" where
  "fsync i d = d\<lparr>dk_synced := (dk_synced d)(i := True)\<rparr>"

definition rename_entry :: "string \<Rightarrow> string \<Rightarrow> disk \<Rightarrow> disk" where
  "rename_entry a b d =
     (case map_of (live d) a of
        Some i \<Rightarrow> d\<lparr>dk_pending := dk_pending d @ [Move a b i]\<rparr>
      | None \<Rightarrow> d)"

definition remove_entry :: "string \<Rightarrow> disk \<Rightarrow> disk" where
  "remove_entry n d = (if map_of (live d) n = None then d else d\<lparr>dk_pending := dk_pending d @ [Unlink n]\<rparr>)"

text \<open>\<open>syncDir\<close>: best effort, \<open>ok\<close> is whether the directory opens and syncs.\<close>

definition syncDir :: "bool \<Rightarrow> disk \<Rightarrow> disk" where
  "syncDir ok d = (if ok then d\<lparr>dk_stable := live d, dk_pending := []\<rparr> else d)"

text \<open>After the power fails, \<open>ops\<close> are the directory changes that had arrived, and \<open>lost\<close> is what
  is found in files that were not synced.\<close>

definition power_loss :: "dirop list \<Rightarrow> (inode \<Rightarrow> string) \<Rightarrow> disk \<Rightarrow> disk" where
  "power_loss ops lost d =
     \<lparr>dk_stable = fold apply_op ops (dk_stable d), dk_pending = [],
      dk_data = (\<lambda>i. if dk_synced d i then dk_data d i else lost i), dk_synced = (\<lambda>_. True), dk_next = dk_next d\<rparr>"

text \<open>Any of the pending changes may have arrived, in any order.\<close>

definition may_arrive :: "dirop list \<Rightarrow> disk \<Rightarrow> bool" where
  "may_arrive ops d \<longleftrightarrow> set ops \<subseteq> set (dk_pending d)"

section \<open>The process on the disk\<close>

text \<open>Where the worker is in \<open>spool\<close>: the name of the batch, its open file and its body.
  \<open>sp_replay\<close> tells whether the replay loop runs.\<close>

datatype saver =
    NotRunning | AtRest
  | Opened string inode string | Filled string inode string | Flushed string inode string
  | Ready string inode string | InPlace string string | Failing string

record spooler =
  sp_disk :: disk
  sp_pc :: saver
  sp_seq :: int
  sp_pid :: int
  sp_replay :: bool

datatype syscall =
    OpenTmp bool string | WriteBody bool nat | SyncFile bool | CloseFile bool
  | RenameTmp bool | RemoveTmp bool | SyncDir bool
  | RemoveFile string | RenameFile string string
  | Kill | PowerLoss "dirop list" "inode \<Rightarrow> string" | Boot int bool bool "string \<Rightarrow> bool" bool

definition is_tmp :: "string \<Rightarrow> bool" where
  "is_tmp n \<longleftrightarrow> suffix ''.tmp'' n"

text \<open>\<open>start\<close> on a fresh ingester: with a directory that is there, \<open>cleanupTmp\<close> removes the orphans if
  it can list them, and \<open>resumeSpoolSeq\<close> finds the largest number if it can list the directory; else
  the counter stays at 0. The worker starts in any case, the replay loop only with a directory.\<close>

definition boot_disk :: "bool \<Rightarrow> (string \<Rightarrow> bool) \<Rightarrow> disk \<Rightarrow> disk" where
  "boot_disk listed removable d =
     (if listed
      then d\<lparr>dk_pending := dk_pending d @ map Unlink (filter (\<lambda>n. is_tmp n \<and> removable n) (map fst (live d)))\<rparr>
      else d)"

definition boot_seq :: "bool \<Rightarrow> disk \<Rightarrow> int" where
  "boot_seq listed d = (if listed then max_seq (map fst (live d)) else 0)"

text \<open>One call; \<open>None\<close> when the process does not make it in this state. The calls of \<open>spool\<close> come
  in the order of the code, those of the replay loop at any moment.\<close>

definition call :: "syscall \<Rightarrow> spooler \<Rightarrow> spooler option" where
  "call a s =
     (case a of
        OpenTmp ok body \<Rightarrow>
          if sp_pc s = AtRest then
            (let seq = next_seq (sp_seq s); name = spoolFileName (sp_pid s) seq; s1 = s\<lparr>sp_seq := seq\<rparr> in
             if ok then
               (case open_trunc (name @ ''.tmp'') (sp_disk s) of
                  (i, d) \<Rightarrow> Some (s1\<lparr>sp_disk := d, sp_pc := Opened name i body\<rparr>))
             else Some (s1\<lparr>sp_pc := Failing name\<rparr>))
          else None
      | WriteBody ok k \<Rightarrow>
          (case sp_pc s of
             Opened name i body \<Rightarrow>
               Some (s\<lparr>sp_disk := write_bytes i (if ok then body else take k body) (sp_disk s),
                       sp_pc := (if ok then Filled name i body else Failing name)\<rparr>)
           | _ \<Rightarrow> None)
      | SyncFile ok \<Rightarrow>
          (case sp_pc s of
             Filled name i body \<Rightarrow>
               Some (if ok then s\<lparr>sp_disk := fsync i (sp_disk s), sp_pc := Flushed name i body\<rparr>
                     else s\<lparr>sp_pc := Failing name\<rparr>)
           | _ \<Rightarrow> None)
      | CloseFile ok \<Rightarrow>
          (case sp_pc s of
             Flushed name i body \<Rightarrow> Some (s\<lparr>sp_pc := (if ok then Ready name i body else Failing name)\<rparr>)
           | _ \<Rightarrow> None)
      | RenameTmp ok \<Rightarrow>
          (case sp_pc s of
             Ready name i body \<Rightarrow>
               Some (if ok then s\<lparr>sp_disk := rename_entry (name @ ''.tmp'') name (sp_disk s), sp_pc := InPlace name body\<rparr>
                     else s\<lparr>sp_pc := Failing name\<rparr>)
           | _ \<Rightarrow> None)
      | RemoveTmp ok \<Rightarrow>
          (case sp_pc s of
             Failing name \<Rightarrow>
               Some (s\<lparr>sp_disk := (if ok then remove_entry (name @ ''.tmp'') (sp_disk s) else sp_disk s), sp_pc := AtRest\<rparr>)
           | _ \<Rightarrow> None)
      | SyncDir ok \<Rightarrow>
          (case sp_pc s of
             InPlace name body \<Rightarrow> Some (s\<lparr>sp_disk := syncDir ok (sp_disk s), sp_pc := AtRest\<rparr>)
           | _ \<Rightarrow> None)
      | RemoveFile n \<Rightarrow>
          if sp_pc s \<noteq> NotRunning \<and> sp_replay s \<and> replayable n then Some (s\<lparr>sp_disk := remove_entry n (sp_disk s)\<rparr>) else None
      | RenameFile n ext \<Rightarrow>
          if sp_pc s \<noteq> NotRunning \<and> sp_replay s \<and> replayable n \<and> ext \<in> {''.bad'', ''.delivered''}
          then Some (s\<lparr>sp_disk := rename_entry n (n @ ext) (sp_disk s)\<rparr>) else None
      | Kill \<Rightarrow> Some (s\<lparr>sp_pc := NotRunning\<rparr>)
      | PowerLoss ops lost \<Rightarrow>
          if may_arrive ops (sp_disk s)
          then Some (s\<lparr>sp_disk := power_loss ops lost (sp_disk s), sp_pc := NotRunning\<rparr>) else None
      | Boot pid made listed removable listed' \<Rightarrow>
          if sp_pc s = NotRunning \<and> 0 \<le> pid then
            (let d = boot_disk (made \<and> listed) removable (sp_disk s) in
             Some (s\<lparr>sp_disk := d, sp_pc := AtRest, sp_seq := boot_seq (made \<and> listed') d, sp_pid := pid,
                     sp_replay := made\<rparr>))
          else None)"

fun calls :: "syscall list \<Rightarrow> spooler \<Rightarrow> spooler option" where
  "calls [] s = Some s"
| "calls (a # as) s = (case call a s of None \<Rightarrow> None | Some s' \<Rightarrow> calls as s')"

text \<open>Every start on the way could list the directory, and the counter has not come to its end.\<close>

definition resumed :: "syscall \<Rightarrow> spooler \<Rightarrow> bool" where
  "resumed a s \<longleftrightarrow>
     (case a of
        OpenTmp ok body \<Rightarrow> sp_seq s < 2 ^ 64 - 1
      | Boot pid made listed removable listed' \<Rightarrow> made \<and> listed'
      | _ \<Rightarrow> True)"

fun numbered_run :: "syscall list \<Rightarrow> spooler \<Rightarrow> bool" where
  "numbered_run [] s = True"
| "numbered_run (a # as) s =
     (resumed a s \<and> (case call a s of None \<Rightarrow> True | Some s' \<Rightarrow> numbered_run as s'))"

text \<open>Before the first start: a directory at rest on the medium.\<close>

definition at_rest :: "spooler \<Rightarrow> bool" where
  "at_rest s \<longleftrightarrow>
     sp_pc s = NotRunning \<and> dk_pending (sp_disk s) = [] \<and>
     list_all (\<lambda>e. dk_synced (sp_disk s) (snd e) \<and> snd e < dk_next (sp_disk s)) (dk_stable (sp_disk s))"

definition begun :: "syscall list \<Rightarrow> string list" where
  "begun as = concat (map (\<lambda>a. case a of OpenTmp ok body \<Rightarrow> [body] | _ \<Rightarrow> []) as)"

definition complete_bodies :: "spooler \<Rightarrow> string list" where
  "complete_bodies s =
     map (\<lambda>(n, i). dk_data (sp_disk s) i) (filter (\<lambda>(n, i). \<not> is_tmp n) (dk_stable (sp_disk s)))"

section \<open>The directory\<close>

lemma map_of_unlinked [simp]: "map_of (unlinked n t) m = (if m = n then None else map_of t m)"
  by (induction t) (auto simp: unlinked_def)

lemma set_unlinked: "set (unlinked n t) \<subseteq> set t"
  by (auto simp: unlinked_def)

fun op_links :: "dirop \<Rightarrow> (string \<times> inode) list" where
  "op_links (Link n i) = [(n, i)]"
| "op_links (Unlink n) = []"
| "op_links (Move a b i) = [(b, i)]"

fun touches :: "string \<Rightarrow> dirop \<Rightarrow> bool" where
  "touches m (Link n i) = (m = n)"
| "touches m (Unlink n) = (m = n)"
| "touches m (Move a b i) = (m = a \<or> m = b)"

text \<open>Every entry the directory has, had or may get back.\<close>

definition links :: "disk \<Rightarrow> (string \<times> inode) set" where
  "links d = set (dk_stable d) \<union> (\<Union>op \<in> set (dk_pending d). set (op_links op))"

lemma apply_op_links: "set (apply_op op t) \<subseteq> set t \<union> set (op_links op)"
  using set_unlinked by (cases op) (auto simp: unlinked_def)

lemma apply_ops_links: "set (fold apply_op ops t) \<subseteq> set t \<union> (\<Union>op \<in> set ops. set (op_links op))"
proof (induction ops arbitrary: t)
  case (Cons op ops)
  show ?case using Cons [of "apply_op op t"] apply_op_links [of op t] by auto
qed simp

lemma live_links: "set (live d) \<subseteq> links d"
  using apply_ops_links by (auto simp: live_def links_def)

lemma map_of_apply: "\<not> touches n op \<Longrightarrow> map_of (apply_op op t) n = map_of t n"
  by (cases op) auto

lemma map_of_untouched: "(\<forall>op \<in> set ops. \<not> touches n op) \<Longrightarrow> map_of (fold apply_op ops t) n = map_of t n"
  by (induction ops arbitrary: t) (simp_all add: map_of_apply)

lemma map_of_files: "map_of (map (\<lambda>(n, i). (n, Plain (f i))) t) m = map_option (\<lambda>i. Plain (f i)) (map_of t m)"
  by (induction t) auto

lemma disk_dir_entry: "map_of (disk_dir d) m = map_option (\<lambda>i. Plain (dk_data d i)) (map_of (live d) m)"
  by (simp add: disk_dir_def map_of_files)

text \<open>What each call does to the live directory and to the links.\<close>

lemma live_pending: "live (d\<lparr>dk_pending := dk_pending d @ [op]\<rparr>) = apply_op op (live d)"
  by (simp add: live_def)

lemma live_frame [simp]:
  "live (d\<lparr>dk_data := x\<rparr>) = live d" "live (d\<lparr>dk_synced := y\<rparr>) = live d" "live (d\<lparr>dk_next := n\<rparr>) = live d"
  "links (d\<lparr>dk_data := x\<rparr>) = links d" "links (d\<lparr>dk_synced := y\<rparr>) = links d" "links (d\<lparr>dk_next := n\<rparr>) = links d"
  by (simp_all add: live_def links_def)

lemma links_pending:
  "links (d\<lparr>dk_pending := dk_pending d @ ops\<rparr>) = links d \<union> (\<Union>op \<in> set ops. set (op_links op))"
  by (auto simp: links_def)

lemma links_syncDir: "links (syncDir ok d) \<subseteq> links d"
  using live_links [of d] by (auto simp: syncDir_def links_def)

lemma live_syncDir [simp]: "live (syncDir ok d) = live d"
  by (simp add: syncDir_def live_def)

lemma live_power_loss: "live (power_loss ops lost d) = fold apply_op ops (dk_stable d)"
  by (simp add: power_loss_def live_def)

lemma links_power_loss: "may_arrive ops d \<Longrightarrow> links (power_loss ops lost d) \<subseteq> links d"
  using apply_ops_links [of ops "dk_stable d"] by (fastforce simp: power_loss_def links_def may_arrive_def)

section \<open>The invariant\<close>

definition files_ok :: "string set \<Rightarrow> disk \<Rightarrow> bool" where
  "files_ok bodies d \<longleftrightarrow>
     (\<forall>(n, i) \<in> links d. i < dk_next d \<and> (\<not> is_tmp n \<longrightarrow> dk_synced d i \<and> dk_data d i \<in> bodies))"

definition numbers_ok :: "spooler \<Rightarrow> bool" where
  "numbers_ok s \<longleftrightarrow>
     0 \<le> sp_seq s \<and> 0 \<le> sp_pid s \<and>
     (\<forall>(n, i) \<in> set (live (sp_disk s)). \<forall>q. parseSpoolSeq n = Some q \<longrightarrow> q \<le> sp_seq s)"

text \<open>The file the worker holds has no name but its temporary one.\<close>

definition holds :: "disk \<Rightarrow> string \<Rightarrow> inode \<Rightarrow> bool" where
  "holds d name i \<longleftrightarrow> map_of (live d) (name @ ''.tmp'') = Some i \<and> (\<forall>(n, j) \<in> links d. j = i \<longrightarrow> is_tmp n)"

definition numbered :: "string \<Rightarrow> spooler \<Rightarrow> bool" where
  "numbered name s \<longleftrightarrow> name = spoolFileName (sp_pid s) (sp_seq s) \<and> sp_seq s < 2 ^ 64"

definition saver_ok :: "string set \<Rightarrow> spooler \<Rightarrow> bool" where
  "saver_ok bodies s \<longleftrightarrow>
     (case sp_pc s of
        Opened name i body \<Rightarrow>
          body \<in> bodies \<and> holds (sp_disk s) name i \<and> dk_data (sp_disk s) i = [] \<and> numbered name s
      | Filled name i body \<Rightarrow> body \<in> bodies \<and> holds (sp_disk s) name i \<and> dk_data (sp_disk s) i = body \<and> numbered name s
      | Flushed name i body \<Rightarrow> body \<in> bodies \<and> holds (sp_disk s) name i \<and> dk_data (sp_disk s) i = body \<and>
          dk_synced (sp_disk s) i \<and> numbered name s
      | Ready name i body \<Rightarrow> body \<in> bodies \<and> holds (sp_disk s) name i \<and> dk_data (sp_disk s) i = body \<and>
          dk_synced (sp_disk s) i \<and> numbered name s
      | InPlace name body \<Rightarrow> numbered name s \<and>
          (\<forall>i. map_of (live (sp_disk s)) name = Some i \<longrightarrow> dk_synced (sp_disk s) i \<and> dk_data (sp_disk s) i = body)
      | Failing name \<Rightarrow> numbered name s
      | _ \<Rightarrow> True)"

definition spooler_inv :: "string set \<Rightarrow> spooler \<Rightarrow> bool" where
  "spooler_inv bodies s \<longleftrightarrow>
     files_ok bodies (sp_disk s) \<and> (sp_pc s \<noteq> NotRunning \<longrightarrow> numbers_ok s) \<and> saver_ok bodies s"

lemma tmp_names [simp]: "is_tmp (n @ ''.tmp'')" "replayable n \<Longrightarrow> \<not> is_tmp n"
  by (auto simp: is_tmp_def replayable_def suffix_to_prefix dest: prefix_same_cases)

lemma replayable_not_suffixed: "replayable n \<Longrightarrow> ext \<in> {''.tmp'', ''.bad'', ''.delivered''} \<Longrightarrow> n \<noteq> m @ ext"
  using not_replayable_append by blast

lemma live_entry: "map_of (live d) n = Some i \<Longrightarrow> (n, i) \<in> links d"
  using live_links [of d] by (auto dest: map_of_SomeD)

lemma new_name_free:
  assumes "numbers_ok s" "sp_seq s < 2 ^ 64 - 1" "n = spoolFileName (sp_pid s) (sp_seq s + 1) @ ext"
  shows "map_of (live (sp_disk s)) n = None"
proof -
  have "parseSpoolSeq n = Some (sp_seq s + 1)"
    unfolding assms(3) by (rule parse_spoolFileName) (use assms(1,2) in \<open>simp_all add: numbers_ok_def\<close>)
  then have "(n, i) \<notin> set (live (sp_disk s))" for i
    using assms(1) unfolding numbers_ok_def by fastforce
  then show ?thesis by (meson map_of_SomeD not_None_eq)
qed

lemma call_open:
  assumes "call (OpenTmp ok body) s = Some s'" "spooler_inv B s" "body \<in> B" "sp_seq s < 2 ^ 64 - 1"
  shows "spooler_inv B s'"
proof -
  define name where "name = spoolFileName (sp_pid s) (sp_seq s + 1)"
  let ?d = "sp_disk s"
  have g: "sp_pc s = AtRest" "sp_seq s < 2 ^ 64 - 1" using assms(1,4) by (auto simp: call_def split: if_splits)
  have inv: "files_ok B ?d" "numbers_ok s" using assms(2) g by (auto simp: spooler_inv_def)
  have nx: "next_seq (sp_seq s) = sp_seq s + 1" using inv(2) g(2) by (simp add: numbers_ok_def next_seq_small)
  have parse: "parseSpoolSeq (name @ ext) = Some (sp_seq s + 1)" for ext
    unfolding name_def by (rule parse_spoolFileName) (use inv(2) g(2) in \<open>simp_all add: numbers_ok_def\<close>)
  have num: "numbers_ok (s\<lparr>sp_seq := sp_seq s + 1, sp_pc := pc\<rparr>)" for pc
    using inv(2) unfolding numbers_ok_def by fastforce
  show ?thesis
  proof (cases ok)
    case False
    then have "s' = s\<lparr>sp_seq := sp_seq s + 1, sp_pc := Failing name\<rparr>"
      using assms(1) g nx by (simp add: call_def Let_def name_def)
    then show ?thesis using inv(1) num g(2) by (simp add: spooler_inv_def saver_ok_def numbered_def name_def)
  next
    case True
    let ?i = "dk_next ?d"
    define d' where "d' = ?d\<lparr>dk_pending := dk_pending ?d @ [Link (name @ ''.tmp'') ?i],
      dk_data := (dk_data ?d)(?i := []), dk_synced := (dk_synced ?d)(?i := False), dk_next := Suc ?i\<rparr>"
    have "open_trunc (name @ ''.tmp'') ?d = (?i, d')"
      using new_name_free [OF inv(2) g(2), of _ "''.tmp''"] by (simp add: open_trunc_def d'_def name_def Let_def)
    then have s': "s' = s\<lparr>sp_seq := sp_seq s + 1, sp_disk := d', sp_pc := Opened name ?i body\<rparr>"
      using assms(1) g True nx by (simp add: call_def Let_def name_def)
    have lv: "live d' = (name @ ''.tmp'', ?i) # unlinked (name @ ''.tmp'') (live ?d)"
      by (simp add: d'_def live_def)
    have lk: "links d' = links ?d \<union> {(name @ ''.tmp'', ?i)}" by (auto simp: d'_def links_def)
    have old: "i < ?i" if "(n, i) \<in> links ?d" for n i using inv(1) that by (auto simp: files_ok_def)
    have "files_ok B d'" using inv(1) old unfolding files_ok_def lk by (fastforce simp: d'_def)
    moreover have "holds d' name ?i" using old unfolding holds_def lk lv by fastforce
    moreover have "numbers_ok (s\<lparr>sp_seq := sp_seq s + 1, sp_disk := d', sp_pc := pc\<rparr>)" for pc
      using num [of pc] parse [of "''.tmp''"] set_unlinked unfolding numbers_ok_def by (fastforce simp: lv)
    ultimately show ?thesis
      using assms(3) g(2) by (simp add: s' spooler_inv_def saver_ok_def numbered_def name_def d'_def)
  qed
qed

text \<open>The calls on the open file, which change no name.\<close>

lemma files_ok_held:
  assumes "files_ok B d" "holds d name i"
  shows "files_ok B (d\<lparr>dk_data := (dk_data d)(i := b), dk_synced := (dk_synced d)(i := x)\<rparr>)"
    "files_ok B (d\<lparr>dk_synced := (dk_synced d)(i := x)\<rparr>)"
  using assms unfolding files_ok_def holds_def by fastforce+

lemma holds_frame [simp]:
  "holds (d\<lparr>dk_data := x\<rparr>) name i = holds d name i" "holds (d\<lparr>dk_synced := y\<rparr>) name i = holds d name i"
  by (simp_all add: holds_def)

lemma numbers_frame [simp]:
  "numbers_ok (s\<lparr>sp_pc := pc\<rparr>) = numbers_ok s"
  "live d = live (sp_disk s) \<Longrightarrow> numbers_ok (s\<lparr>sp_disk := d\<rparr>) = numbers_ok s"
  by (simp_all add: numbers_ok_def)

lemma numbered_frame [simp]:
  "numbered name (s\<lparr>sp_pc := pc\<rparr>) = numbered name s" "numbered name (s\<lparr>sp_disk := d\<rparr>) = numbered name s"
  by (simp_all add: numbered_def)

lemma call_file:
  assumes "call a s = Some s'" "spooler_inv B s" "a \<in> range (case_prod WriteBody) \<union> range SyncFile \<union> range CloseFile"
  shows "spooler_inv B s'"
proof -
  from assms(3) consider ok k where "a = WriteBody ok k" | ok where "a = SyncFile ok" | ok where "a = CloseFile ok" by auto
  then show ?thesis
  proof cases
    case 1
    then obtain name i body where pc: "sp_pc s = Opened name i body"
      using assms(1) by (auto simp: call_def split: saver.splits)
    have "s' = s\<lparr>sp_disk := write_bytes i (if ok then body else take k body) (sp_disk s),
        sp_pc := (if ok then Filled name i body else Failing name)\<rparr>"
      using assms(1) by (simp add: call_def 1 pc)
    then show ?thesis
      using assms(2) files_ok_held(1) [of B "sp_disk s" name i]
      by (auto simp: spooler_inv_def saver_ok_def pc write_bytes_def)
  next
    case 2
    then obtain name i body where pc: "sp_pc s = Filled name i body"
      using assms(1) by (auto simp: call_def split: saver.splits)
    have "s' = (if ok then s\<lparr>sp_disk := fsync i (sp_disk s), sp_pc := Flushed name i body\<rparr> else s\<lparr>sp_pc := Failing name\<rparr>)"
      using assms(1) by (simp add: call_def 2 pc)
    then show ?thesis
      using assms(2) files_ok_held(2) [of B "sp_disk s" name i]
      by (auto simp: spooler_inv_def saver_ok_def pc fsync_def)
  next
    case 3
    then obtain name i body where pc: "sp_pc s = Flushed name i body"
      using assms(1) by (auto simp: call_def split: saver.splits)
    have "s' = s\<lparr>sp_pc := (if ok then Ready name i body else Failing name)\<rparr>"
      using assms(1) by (simp add: call_def 3 pc)
    then show ?thesis
      using assms(2) by (auto simp: spooler_inv_def saver_ok_def pc)
  qed
qed

lemma files_ok_links: "files_ok B d \<Longrightarrow> links d' \<subseteq> links d \<Longrightarrow> dk_data d' = dk_data d \<Longrightarrow> dk_synced d' = dk_synced d \<Longrightarrow>
    dk_next d' = dk_next d \<Longrightarrow> files_ok B d'"
  unfolding files_ok_def by fastforce

lemma remove_entry_links [simp]: "links (remove_entry n d) = links d"
  by (simp add: remove_entry_def links_def)

lemma remove_entry_files [simp]: "dk_data (remove_entry n d) = dk_data d" "dk_synced (remove_entry n d) = dk_synced d"
    "dk_next (remove_entry n d) = dk_next d" "files_ok B (remove_entry n d) = files_ok B d"
proof -
  show *: "dk_data (remove_entry n d) = dk_data d" "dk_synced (remove_entry n d) = dk_synced d"
    "dk_next (remove_entry n d) = dk_next d" by (simp_all add: remove_entry_def)
  show "files_ok B (remove_entry n d) = files_ok B d" by (simp add: files_ok_def *)
qed

lemma remove_entry_live: "set (live (remove_entry n d)) \<subseteq> set (live d)"
    "map_of (live (remove_entry n d)) m = (if m = n then None else map_of (live d) m)"
  using set_unlinked by (auto simp: remove_entry_def live_pending)

lemma rename_entry_files [simp]: "dk_data (rename_entry a b d) = dk_data d" "dk_synced (rename_entry a b d) = dk_synced d"
    "dk_next (rename_entry a b d) = dk_next d"
  by (simp_all add: rename_entry_def split: option.splits)

lemma rename_entry_links:
  "links (rename_entry a b d) \<subseteq> links d \<union> {(b, i) |i. map_of (live d) a = Some i}"
  by (auto simp: rename_entry_def links_def split: option.splits)

lemma rename_entry_live:
  "set (live (rename_entry a b d)) \<subseteq> set (live d) \<union> {(b, i) |i. map_of (live d) a = Some i}"
  "m \<noteq> a \<Longrightarrow> m \<noteq> b \<Longrightarrow> map_of (live (rename_entry a b d)) m = map_of (live d) m"
  "a \<noteq> b \<Longrightarrow> map_of (live (rename_entry a b d)) a = None"
  "map_of (live d) a = Some i \<Longrightarrow> map_of (live (rename_entry a b d)) b = Some i"
  using set_unlinked by (auto simp: rename_entry_def live_pending split: option.splits; fastforce)+

lemma numbers_ok_fewer:
  "numbers_ok s \<Longrightarrow> set (live d) \<subseteq> set (live (sp_disk s)) \<Longrightarrow> numbers_ok (s\<lparr>sp_disk := d\<rparr>)"
  unfolding numbers_ok_def by fastforce

lemma call_names:
  assumes "call a s = Some s'" "spooler_inv B s" "a \<in> range RenameTmp \<union> range RemoveTmp \<union> range SyncDir"
  shows "spooler_inv B s'"
proof -
  let ?d = "sp_disk s"
  from assms(3) consider ok where "a = RenameTmp ok" | ok where "a = RemoveTmp ok" | ok where "a = SyncDir ok" by auto
  then show ?thesis
  proof cases
    case 1
    then obtain name i body where pc: "sp_pc s = Ready name i body"
      using assms(1) by (auto simp: call_def split: saver.splits)
    have inv: "files_ok B ?d" "numbers_ok s" "body \<in> B" "holds ?d name i" "dk_data ?d i = body" "dk_synced ?d i" "numbered name s"
      using assms(2) by (auto simp: spooler_inv_def saver_ok_def pc)
    have tmp: "map_of (live ?d) (name @ ''.tmp'') = Some i" using inv(4) by (simp add: holds_def)
    show ?thesis
    proof (cases ok)
      case False
      then have "s' = s\<lparr>sp_pc := Failing name\<rparr>" using assms(1) by (simp add: call_def 1 pc)
      then show ?thesis using inv by (simp add: spooler_inv_def saver_ok_def)
    next
      case True
      define d' where "d' = rename_entry (name @ ''.tmp'') name ?d"
      have s': "s' = s\<lparr>sp_disk := d', sp_pc := InPlace name body\<rparr>" using assms(1) True by (simp add: call_def 1 pc d'_def)
      have "i < dk_next ?d" using inv(1) live_entry [OF tmp] by (auto simp: files_ok_def)
      then have "files_ok B d'"
        using inv(1,3,5,6) rename_entry_links [of "name @ ''.tmp''" name ?d] tmp
        unfolding files_ok_def d'_def by fastforce
      moreover have "parseSpoolSeq name = Some (sp_seq s)"
        using parse_spoolFileName [of "sp_pid s" "sp_seq s" "[]"] inv(2,7) by (simp add: numbered_def numbers_ok_def)
      then have "numbers_ok (s\<lparr>sp_disk := d'\<rparr>)"
        using inv(2) rename_entry_live(1) [of "name @ ''.tmp''" name ?d] unfolding numbers_ok_def d'_def by fastforce
      moreover have "map_of (live d') name = Some i" unfolding d'_def by (rule rename_entry_live(4) [OF tmp])
      ultimately show ?thesis
        using inv(5-7) by (simp add: s' spooler_inv_def saver_ok_def d'_def numbers_ok_def)
    qed
  next
    case 2
    then obtain name where pc: "sp_pc s = Failing name"
      using assms(1) by (auto simp: call_def split: saver.splits)
    have "s' = s\<lparr>sp_disk := (if ok then remove_entry (name @ ''.tmp'') ?d else ?d), sp_pc := AtRest\<rparr>"
      using assms(1) by (simp add: call_def 2 pc)
    then show ?thesis
      using assms(2) numbers_ok_fewer [OF _ remove_entry_live(1)]
      by (auto simp: spooler_inv_def saver_ok_def pc numbers_ok_def)
  next
    case 3
    then obtain name body where pc: "sp_pc s = InPlace name body"
      using assms(1) by (auto simp: call_def split: saver.splits)
    have "s' = s\<lparr>sp_disk := syncDir ok ?d, sp_pc := AtRest\<rparr>"
      using assms(1) by (simp add: call_def 3 pc)
    moreover have "files_ok B (syncDir ok ?d)"
      using assms(2) by (intro files_ok_links [OF _ links_syncDir]) (simp_all add: spooler_inv_def syncDir_def)
    ultimately show ?thesis
      using assms(2) by (auto simp: spooler_inv_def saver_ok_def pc numbers_ok_def)
  qed
qed

text \<open>The replay loop's calls: the worker's names and its open file are left alone.\<close>

lemma saver_ok_other:
  assumes "saver_ok B s" "files_ok C (sp_disk s)"
    "\<And>name. map_of (live d) (name @ ''.tmp'') = map_of (live (sp_disk s)) (name @ ''.tmp'')"
    "\<And>name j. replayable name \<Longrightarrow> map_of (live d) name = Some j \<Longrightarrow> map_of (live (sp_disk s)) name = Some j"
    "\<And>n j. (n, j) \<in> links d \<Longrightarrow> (\<exists>m. (m, j) \<in> links (sp_disk s) \<and> (is_tmp m \<longrightarrow> is_tmp n))"
    "dk_data d = dk_data (sp_disk s)" "dk_synced d = dk_synced (sp_disk s)"
  shows "saver_ok B (s\<lparr>sp_disk := d\<rparr>)"
proof -
  have h: "holds d name i" if "holds (sp_disk s) name i" for name i
    using that assms(3,5) unfolding holds_def by fastforce
  show ?thesis
    using assms(1,4,6,7) h by (auto simp: saver_ok_def numbered_def split: saver.splits)
qed

lemma call_replay:
  assumes "call a s = Some s'" "spooler_inv B s" "a \<in> range RemoveFile \<union> range (case_prod RenameFile)"
  shows "spooler_inv B s'"
proof -
  let ?d = "sp_disk s"
  from assms(3) consider n where "a = RemoveFile n" | n ext where "a = RenameFile n ext" by auto
  then show ?thesis
  proof cases
    case 1
    have g: "sp_pc s \<noteq> NotRunning" "replayable n" "s' = s\<lparr>sp_disk := remove_entry n ?d\<rparr>"
      using assms(1) by (auto simp: call_def 1 split: if_splits)
    have n: "n \<noteq> m @ ''.tmp''" for m using replayable_not_suffixed [OF g(2)] by blast
    have "saver_ok B (s\<lparr>sp_disk := remove_entry n ?d\<rparr>)"
      by (rule saver_ok_other [of _ _ B])
        (use assms(2) n in \<open>auto simp: spooler_inv_def remove_entry_live(2) split: if_splits\<close>)
    then show ?thesis
      using assms(2) g(1) numbers_ok_fewer [OF _ remove_entry_live(1)] by (simp add: g(3) spooler_inv_def)
  next
    case 2
    have g: "sp_pc s \<noteq> NotRunning" "replayable n" "ext \<in> {''.bad'', ''.delivered''}"
        "s' = s\<lparr>sp_disk := rename_entry n (n @ ext) ?d\<rparr>"
      using assms(1) by (auto simp: call_def 2 split: if_splits)
    define d' where "d' = rename_entry n (n @ ext) ?d"
    have inv: "files_ok B ?d" "numbers_ok s" "saver_ok B s" using assms(2) g(1) by (simp_all add: spooler_inv_def)
    have n: "n \<noteq> m @ ''.tmp''" for m using replayable_not_suffixed [OF g(2)] by blast
    have ne: "n @ ext \<noteq> m @ ''.tmp''" for m using g(3) by (auto simp: append_eq_append_conv2 append_eq_Cons_conv)
    have nr: "\<not> replayable (n @ ext)" using g(3) by (intro not_replayable_append) auto
    have lk: "\<exists>m. (m, j) \<in> links ?d \<and> \<not> is_tmp m \<or> (k, j) \<in> links ?d" if "(k, j) \<in> links d'" for k j
      using that rename_entry_links [of n "n @ ext" ?d] live_entry g(2) unfolding d'_def by fastforce
    have "files_ok B d'"
      using inv(1) rename_entry_links [of n "n @ ext" ?d] live_entry [of ?d n] tmp_names(2) [OF g(2)]
      unfolding files_ok_def d'_def by fastforce
    moreover have "parseSpoolSeq (n @ ext) = parseSpoolSeq n"
      by (rule parse_append) (use g(2,3) in auto)
    then have "numbers_ok (s\<lparr>sp_disk := d'\<rparr>)"
      using inv(2) rename_entry_live(1) [of n "n @ ext" ?d] unfolding numbers_ok_def d'_def
      by (fastforce dest: map_of_SomeD)
    moreover have "saver_ok B (s\<lparr>sp_disk := d'\<rparr>)"
    proof (rule saver_ok_other [OF inv(3,1)])
      show "map_of (live d') (m @ ''.tmp'') = map_of (live ?d) (m @ ''.tmp'')" for m
        unfolding d'_def by (rule rename_entry_live(2)) (metis n ne)+
      show "map_of (live ?d) m = Some j" if "replayable m" "map_of (live d') m = Some j" for m j
      proof -
        have "m \<noteq> n @ ext" using that(1) nr by auto
        moreover have "m \<noteq> n" using that(2) rename_entry_live(3) [of n "n @ ext" ?d] g(3) by (auto simp: d'_def)
        ultimately show ?thesis using that(2) rename_entry_live(2) [of m n "n @ ext" ?d] by (simp add: d'_def)
      qed
      show "\<exists>m. (m, j) \<in> links ?d \<and> (is_tmp m \<longrightarrow> is_tmp k)" if "(k, j) \<in> links d'" for k j
        using lk [OF that] by blast
    qed (simp_all add: d'_def)
    ultimately show ?thesis by (simp add: g(4) spooler_inv_def d'_def)
  qed
qed

lemma live_boot: "live (boot_disk True removable d) =
    fold apply_op (map Unlink (filter (\<lambda>n. is_tmp n \<and> removable n) (map fst (live d)))) (live d)"
  by (simp add: boot_disk_def live_def)

lemma boot_unlisted [simp]: "boot_disk False removable d = d"
  by (simp add: boot_disk_def)

lemma boot_files [simp]: "links (boot_disk listed removable d) = links d" "dk_data (boot_disk listed removable d) = dk_data d"
    "dk_synced (boot_disk listed removable d) = dk_synced d" "dk_next (boot_disk listed removable d) = dk_next d"
    "dk_stable (boot_disk listed removable d) = dk_stable d"
  by (simp_all add: boot_disk_def links_pending)

lemma files_ok_boot [simp]: "files_ok B (boot_disk listed removable d) = files_ok B d"
  by (simp add: files_ok_def)

lemma max_seq_nonneg: "0 \<le> max_seq ns"
proof -
  have "acc \<le> fold (\<lambda>n (acc :: int). case parseSpoolSeq n of Some q \<Rightarrow> if acc < q then q else acc | None \<Rightarrow> acc) ns acc" for acc
    by (induction ns arbitrary: acc) (auto split: option.splits intro: order_trans less_imp_le)
  then show ?thesis by (simp add: max_seq_def)
qed

lemma call_crash:
  assumes "call a s = Some s'" "spooler_inv B s" "a \<in> {Kill} \<union> range (case_prod PowerLoss) \<union> {Boot pid made listed rm listed' | pid made listed rm listed'. True}"
    "resumed a s"
  shows "spooler_inv B s'"
proof -
  let ?d = "sp_disk s"
  from assms(3) consider "a = Kill" | ops lost where "a = PowerLoss ops lost"
    | pid made listed rm listed' where "a = Boot pid made listed rm listed'" by auto
  then show ?thesis
  proof cases
    case 1
    then show ?thesis using assms(1,2) by (auto simp: call_def spooler_inv_def saver_ok_def)
  next
    case 2
    then have g: "may_arrive ops ?d" "s' = s\<lparr>sp_disk := power_loss ops lost ?d, sp_pc := NotRunning\<rparr>"
      using assms(1) by (auto simp: call_def split: if_splits)
    have "files_ok B (power_loss ops lost ?d)"
      using assms(2) links_power_loss [OF g(1), of lost] unfolding spooler_inv_def files_ok_def
      by (fastforce simp: power_loss_def)
    then show ?thesis by (simp add: g(2) spooler_inv_def saver_ok_def)
  next
    case 3
    define d where "d = boot_disk (made \<and> listed) rm ?d"
    have g: "0 \<le> pid" "s' = s\<lparr>sp_disk := d, sp_pc := AtRest, sp_seq := max_seq (map fst (live d)), sp_pid := pid,
        sp_replay := made\<rparr>"
      using assms(1,4) 3 by (auto simp: call_def Let_def d_def boot_seq_def resumed_def split: if_splits)
    have "q \<le> max_seq (map fst (live d))" if "(n, i) \<in> set (live d)" "parseSpoolSeq n = Some q" for n i q
      using that by (intro max_seq_upper) force+
    then have "numbers_ok s'" using g(1) max_seq_nonneg by (auto simp: g(2) numbers_ok_def)
    then show ?thesis using assms(2) by (simp add: spooler_inv_def g(2) saver_ok_def d_def)
  qed
qed

lemma call_inv:
  assumes "call a s = Some s'" "spooler_inv B s" "set (begun [a]) \<subseteq> B" "resumed a s"
  shows "spooler_inv B s'"
proof (cases a)
  case (OpenTmp ok body)
  then show ?thesis using call_open [of ok body] assms by (simp add: begun_def resumed_def)
next
  case (Boot pid made listed removable listed')
  then show ?thesis using call_crash [OF assms(1,2) _ assms(4)] by blast
qed (use call_file [OF assms(1,2)] call_names [OF assms(1,2)] call_replay [OF assms(1,2)] call_crash [OF assms(1,2) _ assms(4)] in force)+

lemma begun_Cons: "begun (a # as) = begun [a] @ begun as"
  by (simp add: begun_def)

lemma calls_inv:
  "calls as s = Some s' \<Longrightarrow> spooler_inv B s \<Longrightarrow> set (begun as) \<subseteq> B \<Longrightarrow> numbered_run as s \<Longrightarrow> spooler_inv B s'"
proof (induction as arbitrary: s)
  case (Cons a as)
  then obtain u where u: "call a s = Some u" "calls as u = Some s'" by (auto split: option.splits)
  have "set (begun [a]) \<subseteq> B" "set (begun as) \<subseteq> B" using Cons.prems(3) begun_Cons [of a as] by auto
  then show ?case using Cons.IH [OF u(2)] call_inv [OF u(1) Cons.prems(2)] Cons.prems(4) u(1) by simp
qed simp

lemma at_rest_inv:
  assumes "at_rest s" "set (complete_bodies s) \<subseteq> B"
  shows "spooler_inv B s"
  using assms by (fastforce simp: at_rest_def complete_bodies_def spooler_inv_def saver_ok_def files_ok_def links_def list_all_iff)

section \<open>No torn batch\<close>

text \<open>C7: Whatever happens to the process and to the power, every file of the spool but the temporary
  ones holds, entire, a body that was given to \<open>spool\<close> or was there at the start, as long as
  every start could list the spool directory and the file numbers have not run out.\<close>

theorem spool_files_whole:
  assumes "at_rest s" "calls as s = Some s'" "numbered_run as s"
    "map_of (disk_dir (sp_disk s')) n = Some (Plain b)" "\<not> is_tmp n"
  shows "b \<in> set (begun as) \<union> set (complete_bodies s)"
proof -
  let ?B = "set (begun as) \<union> set (complete_bodies s)"
  have "spooler_inv ?B s'" by (rule calls_inv [OF assms(2) at_rest_inv [OF assms(1)] _ assms(3)]) auto
  moreover obtain i where i: "map_of (live (sp_disk s')) n = Some i" "b = dk_data (sp_disk s') i"
    using assms(4) by (auto simp: disk_dir_entry)
  ultimately show ?thesis using live_entry [OF i(1)] assms(5) by (fastforce simp: spooler_inv_def files_ok_def)
qed

section \<open>A spooled batch survives\<close>

text \<open>A file on the medium, with its directory entry, that nothing pending is about.\<close>

fun saver_name :: "saver \<Rightarrow> string option" where
  "saver_name (Opened name i body) = Some name"
| "saver_name (Filled name i body) = Some name"
| "saver_name (Flushed name i body) = Some name"
| "saver_name (Ready name i body) = Some name"
| "saver_name (InPlace name body) = Some name"
| "saver_name (Failing name) = Some name"
| "saver_name _ = None"

definition kept :: "string \<Rightarrow> string \<Rightarrow> spooler \<Rightarrow> bool" where
  "kept name body s \<longleftrightarrow>
     (\<exists>i. map_of (dk_stable (sp_disk s)) name = Some i \<and> dk_synced (sp_disk s) i \<and> dk_data (sp_disk s) i = body) \<and>
     (\<forall>op \<in> set (dk_pending (sp_disk s)). \<not> touches name op) \<and> saver_name (sp_pc s) \<noteq> Some name"

lemma kept_live:
  assumes "kept name body s"
  shows "map_of (disk_dir (sp_disk s)) name = Some (Plain body)"
  using assms map_of_untouched [of "dk_pending (sp_disk s)" name "dk_stable (sp_disk s)"]
  by (auto simp: kept_def disk_dir_entry live_def)

lemma kept_entry:
  assumes "kept name body s" "saver_name pc \<noteq> Some name"
  shows "name \<noteq> n \<Longrightarrow> kept name body (s\<lparr>sp_disk := remove_entry n (sp_disk s), sp_pc := pc\<rparr>)"
    "name \<noteq> a \<Longrightarrow> name \<noteq> b \<Longrightarrow> kept name body (s\<lparr>sp_disk := rename_entry a b (sp_disk s), sp_pc := pc\<rparr>)"
    "kept name body (s\<lparr>sp_pc := pc\<rparr>)"
  using assms by (auto simp: kept_def remove_entry_def rename_entry_def split: option.splits)

lemma kept_call:
  assumes "call a s = Some s'" "spooler_inv B s" "kept name body s" "replayable name"
    "a \<noteq> RemoveFile name" "\<And>ext. a \<noteq> RenameFile name ext" "resumed a s"
  shows "kept name body s'"
proof -
  let ?d = "sp_disk s"
  obtain i where i: "map_of (dk_stable ?d) name = Some i" "dk_synced ?d i" "dk_data ?d i = body"
    using assms(3) by (auto simp: kept_def)
  have untouched: "\<forall>op \<in> set (dk_pending ?d). \<not> touches name op" and pc: "saver_name (sp_pc s) \<noteq> Some name"
    using assms(3) by (simp_all add: kept_def)
  have lv: "map_of (live ?d) name = Some i" unfolding live_def map_of_untouched [OF untouched] by (rule i(1))
  have held: "j \<noteq> i" if "holds ?d m j" for m j
    using that live_entry [OF lv] tmp_names(2) [OF assms(4)] by (auto simp: holds_def)
  have tmp: "name \<noteq> m @ ''.tmp''" "name \<noteq> m @ ''.bad''" "name \<noteq> m @ ''.delivered''" for m
    using replayable_not_suffixed [OF assms(4)] by blast+
  show ?thesis
  proof (cases a)
    case (OpenTmp ok b)
    then have g: "sp_pc s = AtRest" "sp_seq s < 2 ^ 64 - 1" using assms(1,7) by (auto simp: call_def resumed_def split: if_splits)
    have num: "numbers_ok s" using assms(2) g by (simp add: spooler_inv_def)
    then have nx: "next_seq (sp_seq s) = sp_seq s + 1" using g(2) by (simp add: numbers_ok_def next_seq_small)
    have new: "name \<noteq> spoolFileName (sp_pid s) (sp_seq s + 1)"
      using new_name_free [OF num g(2), of _ "[]"] lv by auto
    have free: "map_of (live ?d) (spoolFileName (sp_pid s) (sp_seq s + 1) @ ''.tmp'') = None"
      by (rule new_name_free [OF num g(2) refl])
    have "i \<noteq> dk_next ?d" using live_entry [OF lv] assms(2) by (auto simp: spooler_inv_def files_ok_def)
    then show ?thesis
      using assms(1) OpenTmp g new free i untouched tmp nx
      by (auto simp: call_def kept_def open_trunc_def Let_def split: if_splits)
  next
    case (Boot pid made listed rm listed')
    then show ?thesis using assms(1) i untouched tmp_names(2) [OF assms(4)]
      by (auto simp: call_def kept_def Let_def boot_disk_def split: if_splits)
  next
    case (PowerLoss ops lost)
    then have "may_arrive ops ?d" and s': "s' = s\<lparr>sp_disk := power_loss ops lost ?d, sp_pc := NotRunning\<rparr>"
      using assms(1) by (auto simp: call_def split: if_splits)
    then have "map_of (fold apply_op ops (dk_stable ?d)) name = Some i"
      using map_of_untouched [of ops name "dk_stable ?d"] untouched i(1) by (auto simp: may_arrive_def)
    then show ?thesis using i by (simp add: kept_def s' power_loss_def)
  next
    case (SyncDir ok)
    then obtain m b where "sp_pc s = InPlace m b" "s' = s\<lparr>sp_disk := syncDir ok ?d, sp_pc := AtRest\<rparr>"
      using assms(1) by (auto simp: call_def split: saver.splits)
    then show ?thesis using i untouched lv by (simp add: kept_def syncDir_def)
  next
    case (RenameTmp ok)
    then obtain m j b where m: "sp_pc s = Ready m j b" using assms(1) by (auto simp: call_def split: saver.splits)
    then have "s' = (if ok then s\<lparr>sp_disk := rename_entry (m @ ''.tmp'') m ?d, sp_pc := InPlace m b\<rparr> else s\<lparr>sp_pc := Failing m\<rparr>)"
      using assms(1) RenameTmp by (simp add: call_def)
    moreover have "name \<noteq> m" using pc m by simp
    ultimately show ?thesis using kept_entry [OF assms(3)] tmp(1) [of m] by simp
  next
    case (RemoveTmp ok)
    then obtain m where "sp_pc s = Failing m" using assms(1) by (auto simp: call_def split: saver.splits)
    then have "s' = (if ok then s\<lparr>sp_disk := remove_entry (m @ ''.tmp'') ?d, sp_pc := AtRest\<rparr> else s\<lparr>sp_pc := AtRest\<rparr>)"
      using assms(1) RemoveTmp by (cases s) (auto simp: call_def)
    then show ?thesis using kept_entry [OF assms(3), of AtRest] tmp(1) [of m] by simp
  next
    case (RemoveFile n)
    then have "s' = s\<lparr>sp_disk := remove_entry n ?d, sp_pc := sp_pc s\<rparr>" using assms(1) by (simp add: call_def split: if_splits)
    then show ?thesis using kept_entry(1) [OF assms(3) pc, of n] assms(5) RemoveFile by blast
  next
    case (RenameFile n ext)
    then have "s' = s\<lparr>sp_disk := rename_entry n (n @ ext) ?d, sp_pc := sp_pc s\<rparr>" "n \<noteq> name" "name \<noteq> n @ ext"
      using assms(1,6) tmp by (auto simp: call_def split: if_splits)
    then show ?thesis using kept_entry(2) [OF assms(3) pc, of n "n @ ext"] by simp
  next
    case (WriteBody ok k)
    then obtain m j b where m: "sp_pc s = Opened m j b" using assms(1) by (auto simp: call_def split: saver.splits)
    then have "j \<noteq> i" using assms(2) held by (auto simp: spooler_inv_def saver_ok_def)
    then show ?thesis using assms(1) WriteBody i untouched pc m by (auto simp: call_def kept_def write_bytes_def split: if_splits)
  next
    case (SyncFile ok)
    then obtain m j b where m: "sp_pc s = Filled m j b" using assms(1) by (auto simp: call_def split: saver.splits)
    then show ?thesis using assms(1) SyncFile i untouched pc m by (cases ok) (auto simp: call_def kept_def fsync_def)
  next
    case (CloseFile ok)
    then obtain m j b where m: "sp_pc s = Flushed m j b" using assms(1) by (auto simp: call_def split: saver.splits)
    then show ?thesis using assms(1) CloseFile i untouched pc m by (cases ok) (auto simp: call_def kept_def)
  next
    case Kill
    then show ?thesis using assms(1) i untouched by (auto simp: call_def kept_def)
  qed
qed

lemma kept_calls:
  "calls as s = Some s' \<Longrightarrow> spooler_inv B s \<Longrightarrow> set (begun as) \<subseteq> B \<Longrightarrow> kept name body s \<Longrightarrow> replayable name \<Longrightarrow>
   RemoveFile name \<notin> set as \<Longrightarrow> (\<And>ext. RenameFile name ext \<notin> set as) \<Longrightarrow> numbered_run as s \<Longrightarrow> kept name body s'"
proof (induction as arbitrary: s)
  case (Cons a as)
  then obtain u where u: "call a s = Some u" "calls as u = Some s'" by (auto split: option.splits)
  have "set (begun [a]) \<subseteq> B" "set (begun as) \<subseteq> B" using Cons.prems(3) begun_Cons [of a as] by auto
  moreover have "resumed a s" "numbered_run as u" using Cons.prems(8) u(1) by simp_all
  moreover from this have "kept name body u" using kept_call [OF u(1) Cons.prems(2,4,5)] Cons.prems(6,7) by auto
  ultimately show ?case using Cons.IH [OF u(2)] call_inv [OF u(1) Cons.prems(2)] Cons.prems(5-7) by auto
qed simp

lemma calls_append: "calls (as @ bs) s = (case calls as s of None \<Rightarrow> None | Some u \<Rightarrow> calls bs u)"
  by (induction as arbitrary: s) (simp_all split: option.splits)

lemma numbered_run_append:
  "calls as s = Some u \<Longrightarrow> numbered_run (as @ bs) s \<longleftrightarrow> numbered_run as s \<and> numbered_run bs u"
  by (induction as arbitrary: s) (auto split: option.splits)

text \<open>C8: Once \<open>spool\<close> has synced the directory with its batch in place, the file is found with the
  whole batch after any number of kills, power losses and restarts, until the replay loop removes
  or renames it: as long as every start could list the spool directory, so that the counter was
  resumed, and the file numbers have not run out. (After a start that cannot list it the counter
  begins at 0 again, and a new batch may take the file's name: \<open>unlisted_start_overwrites\<close>.)\<close>

theorem spooled_batch_survives:
  assumes "at_rest s" "calls as s = Some u" "sp_pc u = InPlace name body" "name \<in> fst ` set (live (sp_disk u))"
    "calls (SyncDir True # bs) u = Some v" "numbered_run (as @ SyncDir True # bs) s"
    "RemoveFile name \<notin> set bs" "\<forall>ext. RenameFile name ext \<notin> set bs"
  shows "map_of (disk_dir (sp_disk v)) name = Some (Plain body)"
proof -
  let ?B = "set (begun (as @ bs)) \<union> set (complete_bodies s)"
  have bs: "begun (as @ bs) = begun as @ begun bs" by (simp add: begun_def)
  have run: "numbered_run as s" "numbered_run (SyncDir True # bs) u"
    using assms(6) numbered_run_append [OF assms(2)] by simp_all
  have inv: "spooler_inv ?B u" by (rule calls_inv [OF assms(2) at_rest_inv [OF assms(1)] _ run(1)]) (auto simp: bs)
  obtain w where w: "call (SyncDir True) u = Some w" "calls bs w = Some v"
    using assms(5) by (auto split: option.splits)
  have run': "resumed (SyncDir True) u" "numbered_run bs w" using run(2) w(1) by simp_all
  have inv': "spooler_inv ?B w" by (rule call_inv [OF w(1) inv _ run'(1)]) (simp add: begun_def)
  obtain i where i: "map_of (live (sp_disk u)) name = Some i"
    using assms(4) by (cases "map_of (live (sp_disk u)) name") (auto simp: map_of_eq_None_iff)
  have "numbered name u" "dk_synced (sp_disk u) i \<and> dk_data (sp_disk u) i = body"
    using inv i by (auto simp: spooler_inv_def saver_ok_def assms(3))
  then have "kept name body w" "replayable name"
    using w(1) i by (auto simp: call_def assms(3) kept_def syncDir_def numbered_def)
  then have "kept name body v" by (intro kept_calls [OF w(2) inv']) (use assms(7,8) run'(2) bs in auto)
  then show ?thesis by (rule kept_live)
qed

section \<open>The calls implement \<open>spool\<close>\<close>

text \<open>The calls one execution of \<open>spool\<close> makes, once it is past the caps.\<close>

definition spool_calls :: "spool_os \<Rightarrow> bool \<Rightarrow> string \<Rightarrow> syscall list" where
  "spool_calls os synced body =
     (case os_write os of
        NotOpened \<Rightarrow> [OpenTmp False body, RemoveTmp (os_remove os)]
      | Partial part \<Rightarrow> [OpenTmp True body, WriteBody False (length part), RemoveTmp (os_remove os)]
      | Written \<Rightarrow>
          [OpenTmp True body, WriteBody True 0, SyncFile True, CloseFile True] @
          (if os_rename os then [RenameTmp True, SyncDir synced] else [RenameTmp False, RemoveTmp (os_remove os)]))"

definition shows_dir :: "disk \<Rightarrow> dir \<Rightarrow> bool" where
  "shows_dir d dir \<longleftrightarrow> (\<forall>n. map_of dir n = map_of (disk_dir d) n)"

lemma shows_dirD: "shows_dir d dir \<Longrightarrow> map_of dir n = map_option (\<lambda>i. Plain (dk_data d i)) (map_of (live d) n)"
  by (simp add: shows_dir_def disk_dir_entry)

definition new_file :: "string \<Rightarrow> string \<Rightarrow> disk \<Rightarrow> disk" where
  "new_file tmp b d = d\<lparr>dk_pending := dk_pending d @ [Link tmp (dk_next d)],
     dk_data := (dk_data d)(dk_next d := b), dk_synced := (dk_synced d)(dk_next d := False), dk_next := Suc (dk_next d)\<rparr>"

lemma new_file_open: "map_of (live d) tmp = None \<Longrightarrow> open_trunc tmp d = (dk_next d, new_file tmp [] d)"
  by (simp add: open_trunc_def new_file_def Let_def)

lemma new_file_write: "write_bytes (dk_next d) b (new_file tmp [] d) = new_file tmp b d"
  by (simp add: write_bytes_def new_file_def)

lemma live_new_file: "live (new_file tmp b d) = (tmp, dk_next d) # unlinked tmp (live d)"
  by (simp add: new_file_def live_def)

lemma new_file_shown:
  assumes "files_ok B d" "shows_dir d dir"
  shows "shows_dir (new_file tmp b d) (dir_put tmp b dir)"
proof -
  have "i \<noteq> dk_next d" if "map_of (live d) m = Some i" for m i
    using live_entry [OF that] assms(1) by (auto simp: files_ok_def)
  moreover have "dk_data (new_file tmp b d) = (dk_data d)(dk_next d := b)" by (simp add: new_file_def)
  ultimately show ?thesis
    unfolding shows_dir_def disk_dir_entry live_new_file
    by (auto simp: spool_simps shows_dirD [OF assms(2)] intro!: option.map_cong0 dest: map_of_SomeD)
qed

lemma renamed_shown:
  assumes "shows_dir d dir" "map_of dir a = Some (Plain b)" "c \<noteq> a"
  shows "shows_dir (rename_entry a c d) (dir_put c b (dir_del a dir))"
proof -
  obtain i where i: "map_of (live d) a = Some i" "dk_data d i = b"
    using assms(2) by (auto simp: shows_dirD [OF assms(1)])
  have "map_of (live (rename_entry a c d)) m = (if m = c then Some i else if m = a then None else map_of (live d) m)" for m
    using i(1) assms(3) by (simp add: rename_entry_def live_pending)
  then show ?thesis using i by (simp add: shows_dir_def disk_dir_entry spool_simps shows_dirD [OF assms(1)])
qed

lemma removed_shown:
  assumes "shows_dir d dir"
  shows "shows_dir (if ok then remove_entry n d else d) (snd (dir_remove ok n dir))"
  by (auto simp: shows_dir_def disk_dir_entry remove_entry_live(2) dir_remove_def spool_simps shows_dirD [OF assms])

lemma shown_frame [simp]:
  "shows_dir (fsync i d) dir = shows_dir d dir" "shows_dir (syncDir ok d) dir = shows_dir d dir"
  by (simp_all add: shows_dir_def disk_dir_entry fsync_def) (simp add: syncDir_def)

lemma call_at:
  "sp_pc s = Failing name \<Longrightarrow> call (RemoveTmp ok) s =
    Some (s\<lparr>sp_disk := (if ok then remove_entry (name @ ''.tmp'') (sp_disk s) else sp_disk s), sp_pc := AtRest\<rparr>)"
  "sp_pc s = Opened name i body \<Longrightarrow> call (WriteBody ok k) s =
    Some (s\<lparr>sp_disk := write_bytes i (if ok then body else take k body) (sp_disk s),
       sp_pc := (if ok then Filled name i body else Failing name)\<rparr>)"
  "sp_pc s = Filled name i body \<Longrightarrow> call (SyncFile True) s =
    Some (s\<lparr>sp_disk := fsync i (sp_disk s), sp_pc := Flushed name i body\<rparr>)"
  "sp_pc s = Flushed name i body \<Longrightarrow> call (CloseFile True) s = Some (s\<lparr>sp_pc := Ready name i body\<rparr>)"
  "sp_pc s = Ready name i body \<Longrightarrow> call (RenameTmp True) s =
    Some (s\<lparr>sp_disk := rename_entry (name @ ''.tmp'') name (sp_disk s), sp_pc := InPlace name body\<rparr>)"
  "sp_pc s = Ready name i body \<Longrightarrow> call (RenameTmp False) s = Some (s\<lparr>sp_pc := Failing name\<rparr>)"
  "sp_pc s = InPlace name body \<Longrightarrow> call (SyncDir ok) s = Some (s\<lparr>sp_disk := syncDir ok (sp_disk s), sp_pc := AtRest\<rparr>)"
  by (simp_all add: call_def)

text \<open>C11: Run without interruption, the calls leave the directory, the counter and the worker exactly as
  the one-step \<open>spool\<close> of the pipeline does, whatever the operating system answers.\<close>

theorem spool_calls_refine:
  assumes "sp_pc s = AtRest" "spooler_inv B s" "sp_seq s < 2 ^ 64 - 1" "body \<in> B"
    "shows_dir (sp_disk s) (ing_dir t)" "ing_spoolSeq t = sp_seq s"
    "spoolDir cfg \<noteq> []" "m_spoolFiles (ing_m t) < spoolMaxFiles cfg"
    "0 < spoolMaxBytes cfg \<Longrightarrow> m_spoolBytes (ing_m t) + int (length body) \<le> spoolMaxBytes cfg"
    "\<And>part. os_write os = Partial part \<Longrightarrow> prefix part body"
  shows "\<exists>s'. calls (spool_calls os synced body) s = Some s' \<and> sp_pc s' = AtRest \<and>
    sp_seq s' = ing_spoolSeq (spool cfg (sp_pid s) os body n t) \<and>
    shows_dir (sp_disk s') (ing_dir (spool cfg (sp_pid s) os body n t))"
proof -
  define q where "q = sp_seq s + 1"
  define name where "name = spoolFileName (sp_pid s) q"
  let ?d = "sp_disk s" and ?tmp = "name @ ''.tmp''" and ?i = "dk_next (sp_disk s)"
  have inv: "files_ok B ?d" "numbers_ok s" using assms(1,2) by (simp_all add: spooler_inv_def)
  have free: "map_of (live ?d) (name @ ext) = None" for ext
    unfolding name_def q_def by (rule new_name_free [OF inv(2) assms(3) refl])
  have free': "map_of (ing_dir t) (name @ ext) = None" for ext
    using free [of ext] by (simp add: shows_dirD [OF assms(5)])
  have next_q: "next_seq (ing_spoolSeq t) = q"
    using assms(3,6) inv(2) by (simp add: q_def numbers_ok_def next_seq_small)
  define s1 where "s1 = s\<lparr>sp_seq := q\<rparr>"
  have opened: "call (OpenTmp True body) s = Some (s1\<lparr>sp_disk := new_file ?tmp [] ?d, sp_pc := Opened name ?i body\<rparr>)"
    using assms(1) new_file_open [OF free] next_q assms(6) by (simp add: call_def Let_def s1_def name_def q_def)
  have spool: "spool cfg (sp_pid s) os body n t =
      (case writeFileSync (os_write os) ?tmp body (ing_dir t) of
         (False, d) \<Rightarrow> add_dropped n (t\<lparr>ing_spoolSeq := q, ing_dir := snd (dir_remove (os_remove os) ?tmp d)\<rparr>)
       | (True, d) \<Rightarrow>
           (case dir_rename (os_rename os) ?tmp name d of
              (False, d') \<Rightarrow> add_dropped n (t\<lparr>ing_spoolSeq := q, ing_dir := snd (dir_remove (os_remove os) ?tmp d')\<rparr>)
            | (True, d') \<Rightarrow> updateSpoolGauge (os_listed os) (os_stat os) (t\<lparr>ing_spoolSeq := q, ing_dir := d'\<rparr>)))"
    using assms(7-9) unfolding spool_def Let_def next_q name_def [symmetric] by auto
  have written: "shows_dir (new_file ?tmp b ?d) (dir_put ?tmp b (ing_dir t))" for b
    by (rule new_file_shown [OF inv(1) assms(5)])
  show ?thesis
  proof (cases "os_write os")
    case NotOpened
    have "call (OpenTmp False body) s = Some (s1\<lparr>sp_pc := Failing name\<rparr>)"
      using assms(1,6) next_q by (simp add: call_def Let_def s1_def name_def q_def)
    then show ?thesis
      using removed_shown [OF assms(5), of "os_remove os" ?tmp]
      by (cases "os_remove os") (simp_all add: spool_calls_def NotOpened spool call_at s1_def add_dropped_def)
  next
    case (Partial part)
    then have "take (length part) body = part" using assms(10) by (auto simp: prefix_def)
    then show ?thesis
      using removed_shown [OF written, of "os_remove os" ?tmp part] free' [of "''.tmp''"]
      by (cases "os_remove os") (simp_all add: spool_calls_def Partial spool opened call_at s1_def add_dropped_def new_file_write)
  next
    case Written
    define s4 where "s4 = s1\<lparr>sp_disk := fsync ?i (new_file ?tmp body ?d), sp_pc := Ready name ?i body\<rparr>"
    have ready: "calls ([OpenTmp True body, WriteBody True 0, SyncFile True, CloseFile True] @ as) s = calls as s4" for as
      by (simp add: opened call_at s4_def new_file_write)
    show ?thesis
    proof (cases "os_rename os")
      case True
      then have "dir_rename (os_rename os) ?tmp name (dir_put ?tmp body (ing_dir t)) =
          (True, dir_put name body (dir_del ?tmp (dir_put ?tmp body (ing_dir t))))"
        using free' [of "[]"] by (simp add: dir_rename_def spool_simps)
      then show ?thesis
        using renamed_shown [of "fsync ?i (new_file ?tmp body ?d)", OF _ _, of "dir_put ?tmp body (ing_dir t)" ?tmp body name]
          written [of body] free' [of "''.tmp''"] True
        by (simp add: spool_calls_def Written spool ready call_at s4_def s1_def updateSpoolGauge_def spool_simps del: append.simps)
    next
      case False
      then have "dir_rename (os_rename os) ?tmp name (dir_put ?tmp body (ing_dir t)) = (False, dir_put ?tmp body (ing_dir t))"
        by (simp add: dir_rename_def spool_simps)
      then show ?thesis
        using removed_shown [of "fsync ?i (new_file ?tmp body ?d)" "dir_put ?tmp body (ing_dir t)" "os_remove os" ?tmp]
          written [of body] free' [of "''.tmp''"] False
        by (cases "os_remove os")
          (simp_all add: spool_calls_def Written spool ready call_at s4_def s1_def add_dropped_def del: append.simps)
    qed
  qed
qed

text \<open>The calls of the replay loop are \<open>os.Remove\<close> and \<open>os.Rename\<close> of \<open>Spool\<close> by \<open>removed_shown\<close> and
  \<open>renamed_shown\<close>; a restart is \<open>cleanupTmp\<close> and \<open>resumeSpoolSeq\<close> of a fresh ingester.\<close>

lemma unlink_all: "fold apply_op (map Unlink ns) t = filter (\<lambda>e. fst e \<notin> set ns) t"
  by (induction ns arbitrary: t) (auto simp: unlinked_def intro!: filter_cong)

lemma boot_dir: "disk_dir (boot_disk True removable d) =
    filter (\<lambda>(n, e). e = Folder \<or> \<not> suffix ''.tmp'' n \<or> \<not> removable n) (disk_dir d)"
proof -
  have "live (boot_disk True removable d) = filter (\<lambda>e. \<not> (is_tmp (fst e) \<and> removable (fst e))) (live d)"
    unfolding live_boot unlink_all by (rule filter_cong) (auto simp: image_iff)
  then show ?thesis
    by (simp add: disk_dir_def is_tmp_def filter_map comp_def case_prod_beta')
qed

lemma disk_dir_names: "plain_names (disk_dir d) = map fst (live d)"
proof -
  have "filter (\<lambda>e. snd e \<noteq> Folder) (disk_dir d) = disk_dir d" by (auto simp: disk_dir_def filter_id_conv)
  then show ?thesis by (simp add: plain_names_def disk_dir_def comp_def case_prod_beta')
qed

lemma boot_cleanup:
  "ing_dir (cleanupTmp b removable (newIngester (disk_dir d) m)) = disk_dir (boot_disk b removable d)"
  "ing_spoolSeq (cleanupTmp b removable (newIngester (disk_dir d) m)) = 0"
  by (cases b; simp add: cleanupTmp_def newIngester_def boot_dir)+

lemma boot_is_start:
  assumes "call (Boot pid made listed removable listed') s = Some s'" "spoolDir cfg \<noteq> []"
    "start cfg made listed removable listed' listed'' stat (newIngester (disk_dir (sp_disk s)) m) = (replay, t)"
  shows "disk_dir (sp_disk s') = ing_dir t \<and> sp_seq s' = ing_spoolSeq t \<and> sp_replay s' = replay"
proof -
  define c where "c = cleanupTmp (made \<and> listed) removable (newIngester (disk_dir (sp_disk s)) m)"
  have s': "sp_disk s' = boot_disk (made \<and> listed) removable (sp_disk s)" "sp_replay s' = made"
      "sp_seq s' = boot_seq (made \<and> listed') (sp_disk s')"
    using assms(1) by (auto simp: call_def Let_def split: if_splits)
  have c: "ing_dir c = disk_dir (sp_disk s')" "ing_spoolSeq c = 0"
    unfolding c_def s'(1) by (rule boot_cleanup)+
  have "0 \<le> max_seq (map fst (live (sp_disk s')))" by (rule max_seq_nonneg)
  then have "ing_dir (resumeSpoolSeq (made \<and> listed') c) = disk_dir (sp_disk s')"
      "ing_spoolSeq (resumeSpoolSeq (made \<and> listed') c) = sp_seq s'"
    using c s'(3) by (auto simp: resumeSpoolSeq_def Let_def disk_dir_names boot_seq_def)
  then show ?thesis
    using assms(2,3) c s'(2) by (cases made) (auto simp: start_def c_def updateSpoolGauge_def resumeSpoolSeq_def cleanupTmp_def)
qed

section \<open>A run\<close>

definition demo_spooler :: spooler where
  "demo_spooler = \<lparr>sp_disk = \<lparr>dk_stable = [], dk_pending = [], dk_data = (\<lambda>_. []), dk_synced = (\<lambda>_. False), dk_next = 0\<rparr>,
     sp_pc = NotRunning, sp_seq = 0, sp_pid = 0, sp_replay = False\<rparr>"

definition demo_name :: string where
  "demo_name = spoolFileName 1 1"

definition demo_saved :: spooler where
  "demo_saved = \<lparr>sp_disk = \<lparr>dk_stable = [], dk_pending = [Link (demo_name @ ''.tmp'') 0, Move (demo_name @ ''.tmp'') demo_name 0],
       dk_data = (\<lambda>_. [])(0 := ''x''), dk_synced = (\<lambda>_. False)(0 := True), dk_next = 1\<rparr>,
     sp_pc = InPlace demo_name ''x'', sp_seq = 1, sp_pid = 1, sp_replay = True\<rparr>"

definition demo_calls :: "syscall list" where
  "demo_calls = [Boot 1 True True (\<lambda>_. True) True, OpenTmp True ''x'', WriteBody True 0, SyncFile True, CloseFile True, RenameTmp True]"

lemma demo_at_rest: "at_rest demo_spooler"
  by (simp add: at_rest_def demo_spooler_def)

lemma demo_booted:
  "call (Boot 1 True True (\<lambda>_. True) True) demo_spooler = Some (demo_spooler\<lparr>sp_pc := AtRest, sp_pid := 1, sp_replay := True\<rparr>)"
  by (simp add: call_def demo_spooler_def boot_disk_def boot_seq_def live_def max_seq_def Let_def)

lemma demo_run: "calls demo_calls demo_spooler = Some demo_saved"
  by (simp add: demo_calls_def demo_booted del: fun_upd_apply)
    (simp add: call_def demo_spooler_def demo_saved_def open_trunc_def live_def Let_def demo_name_def next_seq_def
      write_bytes_def fsync_def rename_entry_def del: fun_upd_apply, simp add: fun_eq_iff)

lemma demo_numbered: "numbered_run demo_calls demo_spooler"
proof -
  have "numbered_run (drop 2 demo_calls) t" for t by (simp add: demo_calls_def resumed_def split: option.split)
  then show ?thesis
    by (simp add: demo_calls_def demo_booted resumed_def split: option.split) (simp add: demo_spooler_def)
qed

lemma spool_files_whole_witness:
  "''x'' \<in> set (begun (demo_calls @ [SyncDir False, PowerLoss [Move (demo_name @ ''.tmp'') demo_name 0] (\<lambda>_. ''?'')])) \<union>
    set (complete_bodies demo_spooler)"
proof (rule spool_files_whole [OF demo_at_rest])
  show "numbered_run (demo_calls @ [SyncDir False, PowerLoss [Move (demo_name @ ''.tmp'') demo_name 0] (\<lambda>_. ''?'')]) demo_spooler"
    unfolding numbered_run_append [OF demo_run] using demo_numbered by (simp add: resumed_def split: option.split)
  define v where "v = demo_saved\<lparr>sp_disk := power_loss [Move (demo_name @ ''.tmp'') demo_name 0] (\<lambda>_. ''?'') (sp_disk demo_saved),
    sp_pc := NotRunning\<rparr>"
  show "calls (demo_calls @ [SyncDir False, PowerLoss [Move (demo_name @ ''.tmp'') demo_name 0] (\<lambda>_. ''?'')]) demo_spooler = Some v"
  proof -
    have "call (SyncDir False) demo_saved = Some (demo_saved\<lparr>sp_pc := AtRest\<rparr>)"
      by (simp add: call_def demo_saved_def syncDir_def)
    moreover have "may_arrive [Move (demo_name @ ''.tmp'') demo_name 0] (sp_disk demo_saved)"
      by (simp add: may_arrive_def demo_saved_def)
    then have "call (PowerLoss [Move (demo_name @ ''.tmp'') demo_name 0] (\<lambda>_. ''?'')) (demo_saved\<lparr>sp_pc := AtRest\<rparr>) = Some v"
      by (simp add: call_def v_def)
    ultimately show ?thesis by (simp add: calls_append demo_run)
  qed
  show "map_of (disk_dir (sp_disk v)) demo_name = Some (Plain ''x'')"
    by (simp add: v_def disk_dir_entry live_power_loss) (simp add: demo_saved_def power_loss_def)
  show "\<not> is_tmp demo_name" by (simp add: demo_name_def)
qed

lemma spooled_batch_survives_witness:
  "\<exists>v. calls [SyncDir True, PowerLoss [] (\<lambda>_. ''?''), Boot 2 True False (\<lambda>_. True) True] demo_saved = Some v \<and>
    map_of (disk_dir (sp_disk v)) demo_name = Some (Plain ''x'')"
proof -
  let ?bs = "[PowerLoss [] (\<lambda>_. ''?''), Boot 2 True False (\<lambda>_. True) True]"
  have "sp_pc demo_saved = InPlace demo_name ''x''" by (simp add: demo_saved_def)
  moreover have "demo_name \<in> fst ` set (live (sp_disk demo_saved))" by (simp add: demo_saved_def live_def)
  moreover obtain v where "calls (SyncDir True # ?bs) demo_saved = Some v"
    by (simp add: call_def demo_saved_def may_arrive_def syncDir_def Let_def)
  moreover have "numbered_run (demo_calls @ SyncDir True # ?bs) demo_spooler"
    unfolding numbered_run_append [OF demo_run] using demo_numbered by (simp add: resumed_def split: option.split)
  ultimately show ?thesis
    using spooled_batch_survives [OF demo_at_rest demo_run] by force
qed

text \<open>Why the starts have to list the directory: after one that cannot, the same process id and
  number come again, and the next batch takes the place of the one that waits.\<close>

lemma unlisted_start_overwrites:
  "\<exists>v. calls [SyncDir True, Kill, Boot 1 True True (\<lambda>_. True) False, OpenTmp True ''y'', WriteBody True 0,
      SyncFile True, CloseFile True, RenameTmp True] demo_saved = Some v \<and>
    map_of (disk_dir (sp_disk v)) demo_name = Some (Plain ''y'')"
proof -
  define d where "d = \<lparr>dk_stable = [(demo_name, 0)], dk_pending = [], dk_data = (\<lambda>_. [])(0 := ''x''),
    dk_synced = (\<lambda>_. False)(0 := True), dk_next = 1 :: inode\<rparr>"
  define t where "t = \<lparr>sp_disk = d, sp_pc = AtRest, sp_seq = 0, sp_pid = 1, sp_replay = True\<rparr>"
  have n: "\<not> is_tmp demo_name" by (simp add: demo_name_def)
  have "call (SyncDir True) demo_saved = Some (demo_saved\<lparr>sp_disk := d, sp_pc := AtRest\<rparr>)"
    by (simp add: call_def demo_saved_def syncDir_def d_def live_def unlinked_def)
  moreover have "call (Boot 1 True True (\<lambda>_. True) False) (demo_saved\<lparr>sp_disk := d, sp_pc := NotRunning\<rparr>) = Some t"
    using n by (simp add: call_def demo_saved_def t_def boot_disk_def boot_seq_def Let_def live_def d_def)
  ultimately have "calls (SyncDir True # Kill # Boot 1 True True (\<lambda>_. True) False # as) demo_saved = calls as t" for as
    by (simp add: call_def)
  moreover have "next_seq 0 = 1" by (simp add: next_seq_def)
  moreover have "spoolFileName 1 1 @ ''.tmp'' \<noteq> spoolFileName 1 1" by simp
  ultimately show ?thesis
    by (simp add: t_def) (simp add: call_def Let_def open_trunc_def live_def d_def demo_name_def write_bytes_def fsync_def
        rename_entry_def unlinked_def disk_dir_entry)
qed

lemma spool_calls_refine_witness:
  "\<exists>s'. calls (spool_calls demo_os True ''x'') (demo_spooler\<lparr>sp_pc := AtRest, sp_pid := 1, sp_replay := True\<rparr>) = Some s' \<and> sp_pc s' = AtRest"
proof -
  let ?cfg = "demo_config\<lparr>spoolDir := ''s'', spoolMaxFiles := 1, spoolMaxBytes := 0\<rparr>"
  let ?s = "demo_spooler\<lparr>sp_pc := AtRest, sp_pid := 1, sp_replay := True\<rparr>"
  have "spooler_inv {''x''} demo_spooler"
    by (rule at_rest_inv [OF demo_at_rest]) (simp add: complete_bodies_def demo_spooler_def)
  then have "spooler_inv {''x''} ?s" using call_inv [OF demo_booted] by (simp add: begun_def resumed_def)
  moreover have "shows_dir (sp_disk ?s) (ing_dir (newIngester [] m))" for m
    by (simp add: shows_dir_def disk_dir_def live_def demo_spooler_def newIngester_def)
  moreover have "spoolDir ?cfg \<noteq> []" "m_spoolFiles (ing_m (newIngester [] (newMetrics [] [] 0))) < spoolMaxFiles ?cfg"
    "\<not> 0 < spoolMaxBytes ?cfg" "sp_pc ?s = AtRest" "sp_seq ?s < 2 ^ 64 - 1"
    "ing_spoolSeq (newIngester [] (newMetrics [] [] 0)) = sp_seq ?s" "os_write demo_os = Written"
    by (simp_all add: demo_spooler_def newIngester_def newMetrics_def demo_os_def)
  ultimately show ?thesis
    using spool_calls_refine [of ?s "{''x''}" "''x''" "newIngester [] (newMetrics [] [] 0)" ?cfg demo_os True 0] by auto
qed

end
