(* ===== verification/Spec2Isabelle.thy ===== *)
theory Spec2Isabelle
  imports Lifecycle LoadTest EndToEnd Durability
begin

text \<open>
  logden is a small log gateway: clients post batches of events to \<open>/logs\<close>, the gateway
  validates them into rows, keeps the rows in a bounded buffer, inserts them into ClickHouse
  in batches, and spools to disk what it cannot insert. This development models the gateway
  (\<open>src/gateway\<close>) and its Go client (\<open>src/clients/go\<close>) and proves what they promise.

  The parts, in the order a request meets them.

  \<^item> Go client (\<open>client.go\<close>; GoClient, ClientFacts). \<open>New\<close> applies the options and clamps the
    batch size; \<open>Log\<close> buffers, dropping the oldest events above the cap; \<open>Flush\<close> cuts chunks
    off the buffer; \<open>send\<close> halves a batch until its body fits the byte limit. ClientFacts shows
    the fate of every event of a \<open>Flush\<close>, and over every interleaving of goroutines (\<open>bstep\<close>)
    the bounds, the account of the events and that a full batch is never forgotten.
    ClientGateway shows that the gateway decodes what the client prints and that the client
    reads the reason the gateway answers; EndToEnd that a \<open>send\<close> without error, also one that
    split its batch, has put the rows of its acceptable events at the end of the gateway's
    buffer, as they were logged. Both are about events whose strings are valid UTF-8.
  \<^item> Server (\<open>server.go\<close>; Server, ServerFacts). One function per handler, the middleware that
    counts requests and sets the security headers, the readiness cache in its two locked
    parts and the loop that keeps it fresh. ServerFacts has the contract of \<open>/logs\<close> on every branch, the request counter, and
    the single flight of the readiness probe, and that the gauge of the database's state is
    what the last probe saw.
  \<^item> Sender's address (\<open>clientIP\<close>, \<open>forwardedFor\<close>; ClientIP), rate limit and tokens (\<open>util.go\<close>;
    RateLimiter, Util), admission control on body bytes (Inflight): the forwarded chain is read
    from the right, so a sender cannot choose its address; the token bucket keeps its bounds on
    binary64 arithmetic; the budget counts exactly the bytes held.
  \<^item> Parsing and validation (\<open>validate.go\<close>; ParseBatch, ParseFacts, Validate, Row). A body is an
    array or a sequence of JSON values; every element becomes a row or is counted. ParseFacts
    and Validate show that accepted rows are ready to be stored and that both forms agree;
    JsonFacts that an encoded row is one line of JSON that decodes to it.
  \<^item> Ingest (\<open>ingest.go\<close>; Insert, Spool, SpoolFacts, Ingest, Pipeline). \<open>enqueue\<close> takes a batch as
    a whole or not at all; \<open>flush\<close> inserts with retries and spools what fails; \<open>replayOnce\<close>
    drains the spool. Pipeline is the step relation of handlers, worker, replay and shutdown
    on one state; it refines a FIFO queue of events (locale \<open>simulation\<close>, interpreted on the
    steps), keeps its bounds, and drains when it is closed. Its runs begin after a start that
    could list the spool directory (\<open>initial\<close>), and a batch is flushed while the counter of
    the spool files is below 2^64 - 1 (\<open>flush_batch\<close>).
  \<^item> Durability (\<open>spool\<close>, \<open>writeFileSync\<close>, \<open>syncDir\<close>, \<open>cleanupTmp\<close>; Durability). The system calls
    of the spool one by one, on a disk where the contents of a file and the entries of the
    directory reach the medium only by their sync, and any of the rest may. Between any two
    calls the process may be killed or the power may fail, and a start may find the directory
    missing or unreadable. When the starts can list it and the numbers do not run out, the files
    replay reads are whole
    (\<open>spool_files_whole\<close>), a synced batch survives (\<open>spooled_batch_survives\<close>), and the calls,
    run through, are the functions \<open>spool\<close> and \<open>start\<close> of Spool (\<open>spool_calls_refine\<close>,
    \<open>boot_is_start\<close>); \<open>unlisted_start_overwrites\<close> is what an unreadable directory leads to. The
    directory itself is taken to be on the medium: \<open>start\<close> does not sync its parent.
  \<^item> Metrics (\<open>metrics.go\<close>; Metrics) and configuration (\<open>config.go\<close>, \<open>main.go\<close>; Config): the
    counters and their exposition text, the per-project labels bounded by 64, and the checks
    a configuration passes before anything starts.
  \<^item> Process (\<open>main.go\<close>; Lifecycle). \<open>main_run\<close> is \<open>main\<close> up to serving: its exits, its warnings
    and the limits of the HTTP server. \<open>gstep\<close> is the rest: the listener's goroutine, the
    signal, \<open>Shutdown\<close>, the three steps of \<open>stop\<close> and the exit, interleaved with every step of
    Pipeline. An exit with 0 leaves no accepted event unaccounted for, and a process told to stop can
    always end.
  \<^item> Load generator (\<open>src/tools/loadtest\<close>; LoadTest): its settings, its body, which the gateway
    reads as the events it says, its counters and its report.

  Below them stand the parts of Go's library the program uses: strings, UTF-8, numbers,
  binary64, addresses, time, HTTP messages and JSON (GoStrings, Utf8, GoNum, Float64, NetIP,
  GoTime, Http, Json), over Prelude. A string is the list of its bytes, as in Go; an \<open>int64\<close> is
  an \<open>int\<close> reduced by \<open>i64\<close> where it can wrap; a clock is an argument; a map with counters is
  an association list without duplicates (\<open>bump\<close>, \<open>reading\<close>); an error is a value of a sum, an
  option or an own datatype.

  The contracts several theories share are locales, interpreted where the code provides them:
  \<open>comparator\<close> (Prelude, for the orders a sort uses), \<open>byte_budget\<close> (Inflight, on \<open>tryAcquire\<close>
  and \<open>release\<close>), \<open>invariant_system\<close> (Prelude, for what every step keeps; ClientFacts) and
  \<open>simulation\<close> (Pipeline, for the refinement of the queue).

  What the program calls but does not contain is a parameter: the database's replies, the
  decompressor, the file system's success or failure at each call, \<open>url.Parse\<close>,
  \<open>unicode.IsPrint\<close>, the HTTP transport of the client, what \<open>http.ServeMux\<close> answers for an
  unknown path, and what other goroutines do between two locked regions. The hypotheses that
  name them state their documented behaviour, and each property that has one has a witness on
  a concrete instance.

  Loops are recursions that end by themselves: on the input, on the number of attempts left
  (\<open>insertWithRetry\<close>), on the length of the batch (\<open>send\<close>), on the events still pending
  (\<open>flush_loop\<close>). The member reader of Json takes the length of the text as fuel, which is
  enough because every member takes at least one byte (\<open>members_encode_row\<close>,
  \<open>map_text_members\<close>). The endless loops of the worker, the replay and the client's flusher are
  step relations.

  Library classes: \<open>slog_level\<close> is a \<open>linorder\<close> (Util), which decides what a handler prints.

  Not modelled: what \<open>net/http\<close> does inside \<open>ListenAndServe\<close>, \<open>Shutdown\<close> and a connection, and how
  the system delivers a signal (they are labelled steps of the process with their possible
  outcomes); the scan of the command line by package \<open>flag\<close> (its result is a list of settings);
  the texts written to the log, the client's default error printer among them, of which only
  the start warnings are kept; and the clients in other languages, which follow the contract of
  the Go client.
\<close>

end
